(* ===== verification/Haclog_Prelude.thy ===== *)
theory Haclog_Prelude
  imports Main "HOL-Library.Word" "HOL-Library.Signed_Division"
begin

text \<open>
  What every component of the haclog model shares: the collections of the development, the C
  integer conversions of the LP64 ABI the library is built for (\<open>int\<close> of 32 bits, \<open>long\<close> of 64),
  the little-endian layout of integers in memory, NUL-terminated strings with their cursor, and
  the byte memory behind a \<open>char *\<close> with its laws as a locale.
\<close>

unbundle bit_operations_syntax

named_theorems c_arith \<open>conversions to the C integer types\<close>
named_theorems mem_simps \<open>reads and writes of the byte memory\<close>

section \<open>C integers\<close>

text \<open>
  A C integer is an \<open>int\<close> in the range of its type; a conversion to a type of w bits keeps the
  low w bits. Fields declared \<open>: 16\<close> and \<open>: 8\<close> are such conversions too.
\<close>

definition c_int :: "int \<Rightarrow> int" where
  "c_int x = signed_take_bit 31 x"

definition c_s16 :: "int \<Rightarrow> int" where
  "c_s16 x = signed_take_bit 15 x"

definition c_s8 :: "int \<Rightarrow> int" where
  "c_s8 x = signed_take_bit 7 x"

definition c_u8 :: "int \<Rightarrow> int" where
  "c_u8 x = take_bit 8 x"

definition c_s64 :: "int \<Rightarrow> int" where
  "c_s64 x = signed_take_bit 63 x"

definition c_u128 :: "int \<Rightarrow> int" where
  "c_u128 x = take_bit 128 x"

definition c_u16 :: "int \<Rightarrow> int" where
  "c_u16 x = take_bit 16 x"

definition c_u32 :: "int \<Rightarrow> int" where
  "c_u32 x = take_bit 32 x"

definition c_u64 :: "int \<Rightarrow> int" where
  "c_u64 x = take_bit 64 x"

lemma c_int_id [c_arith]: "- 2147483648 \<le> x \<Longrightarrow> x < 2147483648 \<Longrightarrow> c_int x = x"
  by (simp add: c_int_def signed_take_bit_int_eq_self)

lemma c_s16_id [c_arith]: "- 32768 \<le> x \<Longrightarrow> x < 32768 \<Longrightarrow> c_s16 x = x"
  by (simp add: c_s16_def signed_take_bit_int_eq_self)

lemma c_u16_id [c_arith]: "0 \<le> x \<Longrightarrow> x < 65536 \<Longrightarrow> c_u16 x = x"
  by (simp add: c_u16_def take_bit_int_eq_self)

lemma c_u32_id [c_arith]: "0 \<le> x \<Longrightarrow> x < 4294967296 \<Longrightarrow> c_u32 x = x"
  by (simp add: c_u32_def take_bit_int_eq_self)

lemma c_u64_id [c_arith]: "0 \<le> x \<Longrightarrow> x < 18446744073709551616 \<Longrightarrow> c_u64 x = x"
  by (simp add: c_u64_def take_bit_int_eq_self)

lemma c_int_range: "- 2147483648 \<le> c_int x \<and> c_int x < 2147483648"
  using signed_take_bit_int_greater_eq_minus_exp [of 31 x] signed_take_bit_int_less_exp [of 31 x]
  by (simp add: c_int_def)

text \<open>C's division of \<open>int\<close> truncates towards zero, which is \<open>sdiv\<close>.\<close>

lemma sdiv_two [simp]: "0 \<le> (x::int) \<Longrightarrow> x sdiv 2 = x div 2"
  by (cases "x = 0") (simp_all add: signed_divide_int_def)

text \<open>
  \<open>HACLOG_ROUND_TO_2POWX(value, roundto)\<close> of \<open>haclog_macro.h\<close>, on any machine word.
\<close>

definition haclog_round_to_2powx :: "'a::len word \<Rightarrow> 'a word \<Rightarrow> 'a word" where
  "haclog_round_to_2powx value roundto = (value + (roundto - 1)) AND NOT (roundto - 1)"

text \<open>Rounding to 8, as arithmetic.\<close>

lemma and_not_7: "(y::int) AND NOT 7 = y div 8 * 8"
proof -
  have mask: "(7::int) = mask 3" by (simp add: mask_eq_exp_minus_1)
  have "y AND NOT (mask 3) = push_bit 3 (drop_bit 3 y)"
    by (rule bit_eqI) (auto simp: bit_simps not_le)
  then show ?thesis by (simp add: mask push_bit_eq_mult drop_bit_eq_div)
qed
lemma uint_and_not_7: "uint (w AND NOT 7) = uint w div 8 * 8" for w :: "64 word"
proof -
  have w: "take_bit 64 (uint w) = uint w"
    using uint_bounded [of w] by (intro take_bit_int_eq_self) simp_all
  have "uint (w AND NOT 7) = take_bit 64 (uint w) AND take_bit 64 (NOT (uint (7 :: 64 word)))"
    by (simp only: unsigned_and_eq unsigned_not_eq w) simp
  also have "\<dots> = take_bit 64 (uint w AND NOT 7)" by (simp only: take_bit_and) simp
  also have "\<dots> = uint w div 8 * 8"
    using uint_bounded [of w] by (simp only: and_not_7, intro take_bit_int_eq_self)
      (simp_all add: pos_imp_zdiv_nonneg_iff)
  finally show ?thesis .
qed

section \<open>Strings and cursors\<close>

text \<open>
  A C string is the list of its characters before the terminating NUL. A \<open>const char *\<close> into it is
  the suffix it points at, so \<open>*p\<close> is the head of the suffix, or NUL at its end, and the offset
  of p in the string is a difference of lengths.
\<close>

definition NUL :: char where
  "NUL = CHR 0x00"

fun deref :: "string \<Rightarrow> char" where
  "deref [] = NUL"
| "deref (c # cs) = c"

definition is_cstring :: "string \<Rightarrow> bool" where
  "is_cstring s \<longleftrightarrow> NUL \<notin> set s"

section \<open>Integers in memory\<close>

text \<open>The n bytes of an integer, least significant first, and the value they hold.\<close>

fun le_enc :: "nat \<Rightarrow> int \<Rightarrow> char list" where
  "le_enc 0 x = []"
| "le_enc (Suc n) x = char_of x # le_enc n (x div 256)"

fun le_dec :: "char list \<Rightarrow> int" where
  "le_dec [] = 0"
| "le_dec (b # bs) = of_char b + 256 * le_dec bs"

lemma length_le_enc [simp]: "length (le_enc n x) = n"
  by (induction n arbitrary: x) auto

lemma of_char_range: "0 \<le> (of_char c :: int) \<and> (of_char c :: int) < 256"
  by (metis of_char_mod_256 pos_mod_bound pos_mod_sign zero_less_numeral)

lemma le_dec_range: "0 \<le> le_dec bs \<and> le_dec bs < 256 ^ length bs"
proof (induction bs)
  case Nil
  show ?case by simp
next
  case (Cons b bs)
  with of_char_range [of b] show ?case by simp
qed

lemma le_dec_enc: "le_dec (le_enc n x) = x mod 256 ^ n"
proof (induction n arbitrary: x)
  case 0
  show ?case by simp
next
  case (Suc n)
  then show ?case
    by (simp add: zmod_zmult2_eq)
qed

section \<open>Decimal numbers\<close>

definition digit :: "nat \<Rightarrow> char" where
  "digit k = ''0123456789'' ! k"

fun dec :: "nat \<Rightarrow> string" where
  "dec n = (if n < 10 then [digit n] else dec (n div 10) @ [digit (n mod 10)])"

declare dec.simps [simp del]

section \<open>Variadic arguments\<close>

text \<open>
  An argument with the type it has after the default promotions, on LP64; integers and pointers as
  numbers, floating-point values as their bit pattern. \<open>va_arg\<close> with another type is undefined.
\<close>

datatype carg =
    C_int int
  | C_long int
  | C_ptr int
  | C_double int
  | C_long_double int
  | C_str string

end
