(* ===== verification/Haclog_Memory.thy ===== *)
theory Haclog_Memory
  imports Haclog_Prelude
begin

text \<open>
  The bytes behind a \<open>char *\<close> block: a block is the list of its bytes, an address is an offset in
  it, and an access outside the block (undefined behaviour in C) has no result. The laws a client
  relies on are the locale \<open>byte_block\<close>, interpreted at the end on the model's own reads and writes;
  \<open>put_slots\<close> is the access pattern of the serializer, slots laid out one after the other.
\<close>

type_synonym block = "char list"

definition mem_write :: "block \<Rightarrow> nat \<Rightarrow> char list \<Rightarrow> block option" where
  "mem_write m a bs =
     (if a + length bs \<le> length m then Some (take a m @ bs @ drop (a + length bs) m) else None)"

definition mem_read :: "block \<Rightarrow> nat \<Rightarrow> nat \<Rightarrow> char list option" where
  "mem_read m a n = (if a + n \<le> length m then Some (take n (drop a m)) else None)"

section \<open>The interface\<close>

text \<open>Slots written one after the other: the bytes of each and the stride to the next.\<close>

fun put_slots :: "('m \<Rightarrow> nat \<Rightarrow> 'b list \<Rightarrow> 'm option) \<Rightarrow> 'm \<Rightarrow> nat \<Rightarrow> (nat \<times> 'b list) list \<Rightarrow> 'm option" where
  "put_slots wr m p [] = Some m"
| "put_slots wr m p ((k, bs) # ss) =
     (case wr m p bs of None \<Rightarrow> None | Some m' \<Rightarrow> put_slots wr m' (p + k) ss)"

fun slots_ok :: "(nat \<times> 'b list) list \<Rightarrow> bool" where
  "slots_ok [] = True"
| "slots_ok ((k, bs) # ss) = (length bs \<le> k \<and> slots_ok ss)"

definition slots_len :: "(nat \<times> 'b list) list \<Rightarrow> nat" where
  "slots_len ss = sum_list (map fst ss)"

lemma slots_len_simps [simp]:
  "slots_len [] = 0" "slots_len (s # ss) = fst s + slots_len ss"
  "slots_len (ss @ ts) = slots_len ss + slots_len ts"
  by (simp_all add: slots_len_def)

lemma slots_ok_append [simp]: "slots_ok (ss @ ts) \<longleftrightarrow> slots_ok ss \<and> slots_ok ts"
  by (induction ss rule: slots_ok.induct) auto

text \<open>Every slot can be read back where it was put.\<close>

fun slots_at :: "('m \<Rightarrow> nat \<Rightarrow> nat \<Rightarrow> 'b list option) \<Rightarrow> 'm \<Rightarrow> nat \<Rightarrow> (nat \<times> 'b list) list \<Rightarrow> bool" where
  "slots_at rd m p [] = True"
| "slots_at rd m p ((k, bs) # ss) \<longleftrightarrow> rd m p (length bs) = Some bs \<and> slots_at rd m (p + k) ss"

locale byte_block =
  fixes rd :: "'m \<Rightarrow> nat \<Rightarrow> nat \<Rightarrow> 'b list option"
    and wr :: "'m \<Rightarrow> nat \<Rightarrow> 'b list \<Rightarrow> 'm option"
    and sz :: "'m \<Rightarrow> nat"
  assumes wr_defined: "a + length bs \<le> sz m \<longleftrightarrow> wr m a bs \<noteq> None"
    and wr_size: "wr m a bs = Some m' \<Longrightarrow> sz m' = sz m"
    and rd_back: "wr m a bs = Some m' \<Longrightarrow> rd m' a (length bs) = Some bs"
    and rd_frame: "wr m a bs = Some m' \<Longrightarrow> c + n \<le> a \<or> a + length bs \<le> c \<Longrightarrow> rd m' c n = rd m c n"
    and rd_sub: "rd m a n = Some bs \<Longrightarrow> i + k \<le> n \<Longrightarrow> rd m (a + i) k = Some (take k (drop i bs))"
begin

lemma wr_Some: "a + length bs \<le> sz m \<Longrightarrow> \<exists>m'. wr m a bs = Some m'"
  using wr_defined by blast

lemma put_slots_size: "put_slots wr m p ss = Some m' \<Longrightarrow> sz m' = sz m"
  by (induction ss arbitrary: m p rule: slots_ok.induct) (auto split: option.splits simp: wr_size)

lemma put_slots_Some:
  "slots_ok ss \<Longrightarrow> p + slots_len ss \<le> sz m \<Longrightarrow> \<exists>m'. put_slots wr m p ss = Some m'"
proof (induction ss arbitrary: m p rule: slots_ok.induct)
  case 1
  show ?case by simp
next
  case (2 k bs ss)
  then have "p + length bs \<le> sz m" by simp
  then obtain m1 where m1: "wr m p bs = Some m1" using wr_Some by blast
  with "2.prems" have "slots_ok ss" "(p + k) + slots_len ss \<le> sz m1"
    by (simp_all add: wr_size)
  from "2.IH" [OF this] m1 show ?case by simp
qed

lemma put_slots_frame:
  "put_slots wr m p ss = Some m' \<Longrightarrow> slots_ok ss \<Longrightarrow> c + n \<le> p \<or> p + slots_len ss \<le> c \<Longrightarrow>
   rd m' c n = rd m c n"
proof (induction ss arbitrary: m p rule: slots_ok.induct)
  case 1
  then show ?case by simp
next
  case (2 k bs ss)
  then obtain m1 where m1: "wr m p bs = Some m1" and rest: "put_slots wr m1 (p + k) ss = Some m'"
    by (auto split: option.splits)
  from "2.prems" have "rd m' c n = rd m1 c n"
    by (intro "2.IH" [OF rest]) auto
  also from "2.prems" have "\<dots> = rd m c n"
    by (intro rd_frame [OF m1]) auto
  finally show ?case .
qed

lemma put_slots_at: "put_slots wr m p ss = Some m' \<Longrightarrow> slots_ok ss \<Longrightarrow> slots_at rd m' p ss"
proof (induction ss arbitrary: m p rule: slots_ok.induct)
  case 1
  show ?case by simp
next
  case (2 k bs ss)
  then obtain m1 where m1: "wr m p bs = Some m1" and rest: "put_slots wr m1 (p + k) ss = Some m'"
    by (auto split: option.splits)
  have "rd m' p (length bs) = rd m1 p (length bs)"
    using "2.prems" by (intro put_slots_frame [OF rest]) auto
  with rd_back [OF m1] "2.IH" [OF rest] "2.prems" show ?case by simp
qed

lemma slots_at_cong:
  "slots_at rd m p ss \<Longrightarrow> slots_ok ss \<Longrightarrow>
   (\<And>c n. p \<le> c \<Longrightarrow> c + n \<le> p + slots_len ss \<Longrightarrow> rd m' c n = rd m c n) \<Longrightarrow> slots_at rd m' p ss"
proof (induction ss arbitrary: p rule: slots_ok.induct)
  case 1
  show ?case by simp
next
  case (2 k bs ss)
  have "slots_at rd m' (p + k) ss"
    by (rule "2.IH") (use "2.prems" in auto)
  with "2.prems" show ?case by simp
qed

end

section \<open>The model's memory is such a block\<close>

lemma mem_write_Some:
  "mem_write m a bs = Some m' \<longleftrightarrow>
   a + length bs \<le> length m \<and> m' = take a m @ bs @ drop (a + length bs) m"
  by (auto simp: mem_write_def)

lemma mem_read_Some:
  "mem_read m a n = Some bs \<longleftrightarrow> a + n \<le> length m \<and> bs = take n (drop a m)"
  by (auto simp: mem_read_def)

lemma take_drop_frame:
  assumes "a + length bs \<le> length m" and "c + n \<le> a \<or> a + length bs \<le> c"
  shows "take n (drop c (take a m @ bs @ drop (a + length bs) m)) = take n (drop c m)"
proof (cases "c + n \<le> a")
  case True
  with assms(1) have len: "n \<le> length (drop c (take a m))" and "c \<le> length (take a m)"
    by auto
  then have "take n (drop c (take a m @ bs @ drop (a + length bs) m)) = take n (drop c (take a m))"
    by simp
  also have "\<dots> = take n (drop c m)"
    using True by (simp add: drop_take min_def)
  finally show ?thesis .
next
  case False
  with assms have "a + length bs \<le> c" by simp
  with assms(1) show ?thesis by (simp add: min_def)
qed

interpretation heap: byte_block mem_read mem_write length
proof unfold_locales
  fix m m' :: block and a c n i k :: nat and bs
  show "a + length bs \<le> length m \<longleftrightarrow> mem_write m a bs \<noteq> None"
    by (simp add: mem_write_def)
  show "mem_write m a bs = Some m' \<Longrightarrow> length m' = length m"
    by (auto simp: mem_write_Some)
  show "mem_write m a bs = Some m' \<Longrightarrow> mem_read m' a (length bs) = Some bs"
    by (auto simp: mem_write_Some mem_read_def)
  show "mem_write m a bs = Some m' \<Longrightarrow> c + n \<le> a \<or> a + length bs \<le> c \<Longrightarrow>
      mem_read m' c n = mem_read m c n"
    by (simp add: mem_write_Some mem_read_def take_drop_frame del: drop_append take_append)
  show "mem_read m a n = Some bs \<Longrightarrow> i + k \<le> n \<Longrightarrow>
      mem_read m (a + i) k = Some (take k (drop i bs))"
    by (auto simp: mem_read_Some drop_take min_def add.commute)
qed

lemmas heap_laws [mem_simps] = heap.rd_back heap.put_slots_at

section \<open>Strings in memory\<close>

text \<open>The string at an address, up to its NUL; without one in the block the read runs out of it.\<close>

definition cstr_at :: "block \<Rightarrow> nat \<Rightarrow> string option" where
  "cstr_at m a =
     (if NUL \<in> set (drop a m) then Some (takeWhile (\<lambda>c. c \<noteq> NUL) (drop a m)) else None)"

end
