(* ===== verification/Haclog_Err.thy ===== *)
theory Haclog_Err
  imports Haclog_Prelude
begin

text \<open>
  The error codes of \<open>haclog_err.h\<close> and the thread-local last error of \<open>haclog_err.c\<close>. The last
  error is part of the calling thread's state, so an operation that may call \<open>haclog_set_error\<close>
  takes it and returns it.
\<close>

datatype haclog_error =
    HACLOG_ERR_OK
  | HACLOG_ERR_UNKNOWN
  | HACLOG_ERR_ALLOC_MEM
  | HACLOG_ERR_PRINTF_SPEC_LENGTH
  | HACLOG_ERR_PRINTF_TYPE
  | HACLOG_ERR_SYS_CALL
  | HACLOG_ERR_ARGUMENTS
  | HACLOG_ERR_INTERRUPT
  | MAX_HACLOG_ERR

fun haclog_error_code :: "haclog_error \<Rightarrow> int" where
  "haclog_error_code HACLOG_ERR_OK = 0"
| "haclog_error_code HACLOG_ERR_UNKNOWN = 1"
| "haclog_error_code HACLOG_ERR_ALLOC_MEM = 2"
| "haclog_error_code HACLOG_ERR_PRINTF_SPEC_LENGTH = 3"
| "haclog_error_code HACLOG_ERR_PRINTF_TYPE = 4"
| "haclog_error_code HACLOG_ERR_SYS_CALL = 5"
| "haclog_error_code HACLOG_ERR_ARGUMENTS = 6"
| "haclog_error_code HACLOG_ERR_INTERRUPT = 7"
| "haclog_error_code MAX_HACLOG_ERR = 8"

lemma haclog_error_code_inj: "haclog_error_code e = haclog_error_code e' \<longleftrightarrow> e = e'"
  by (cases e; cases e') simp_all

text \<open>The enumeration is ordered as C compares its values.\<close>

instantiation haclog_error :: linorder
begin

definition less_eq_haclog_error :: "haclog_error \<Rightarrow> haclog_error \<Rightarrow> bool" where
  "less_eq_haclog_error e e' = (haclog_error_code e \<le> haclog_error_code e')"

definition less_haclog_error :: "haclog_error \<Rightarrow> haclog_error \<Rightarrow> bool" where
  "less_haclog_error e e' = (haclog_error_code e < haclog_error_code e')"

instance
  by standard (auto simp: less_eq_haclog_error_def less_haclog_error_def haclog_error_code_inj)

end

text \<open>\<open>s_haclog_err\<close> of one thread.\<close>

type_synonym last_error = haclog_error

definition haclog_last_error :: "last_error \<Rightarrow> haclog_error" where
  "haclog_last_error s_haclog_err = s_haclog_err"

definition haclog_set_error :: "haclog_error \<Rightarrow> last_error \<Rightarrow> last_error" where
  "haclog_set_error err s_haclog_err = err"

lemma haclog_last_set [simp]: "haclog_last_error (haclog_set_error e s) = e"
  by (simp add: haclog_last_error_def haclog_set_error_def)

end
