(* ===== verification/Haclog_Bytes_Buffer.thy ===== *)
theory Haclog_Bytes_Buffer
  imports Haclog_Memory Haclog_Err
begin

text \<open>
  \<open>haclog_bytes_buffer.c\<close>: the byte ring of one logging thread. The writer position \<open>bb_w\<close> and the
  reader position \<open>bb_r\<close> are C \<open>int\<close>s; a writer asks \<open>haclog_bytes_buffer_w_fc\<close> for contiguous room
  and publishes with \<open>haclog_bytes_buffer_w_move\<close>. The first lemmas say what room a successful
  request gives: \<open>writer_inv\<close> is the invariant of a writer between two requests.
\<close>

section \<open>State\<close>

record bytes_buffer =
  bb_buffer :: block
  bb_capacity :: int
  bb_w :: int
  bb_r :: int

definition HACLOG_CACHE_LINE :: int where
  "HACLOG_CACHE_LINE = 64"

definition HACLOG_CACHE_INTERVAL :: int where
  "HACLOG_CACHE_INTERVAL = 2 * HACLOG_CACHE_LINE"

definition HACLOG_BYTES_BUFFER_WR_MIN_INTERVAL :: int where
  "HACLOG_BYTES_BUFFER_WR_MIN_INTERVAL = HACLOG_CACHE_INTERVAL"

lemma WR_MIN_INTERVAL_eq [c_arith]: "HACLOG_BYTES_BUFFER_WR_MIN_INTERVAL = 128"
  by (simp add: HACLOG_BYTES_BUFFER_WR_MIN_INTERVAL_def HACLOG_CACHE_INTERVAL_def HACLOG_CACHE_LINE_def)

lemma CACHE_INTERVAL_eq [c_arith]: "HACLOG_CACHE_INTERVAL = 128"
  by (simp add: HACLOG_CACHE_INTERVAL_def HACLOG_CACHE_LINE_def)

section \<open>Allocation\<close>

text \<open>
  What the allocating operations change of the process: the thread's last error and the number of
  heap blocks in use, up with each \<open>malloc\<close> that succeeds and down with each \<open>free\<close>. Whether a
  \<open>malloc\<close> succeeds is an argument of the operation.
\<close>

record proc =
  last_err :: last_error
  live_blocks :: int

definition set_err :: "haclog_error \<Rightarrow> proc \<Rightarrow> proc" where
  "set_err e s = s\<lparr>last_err := haclog_set_error e (last_err s)\<rparr>"

definition c_malloc :: "'a option \<Rightarrow> proc \<Rightarrow> proc \<times> 'a option" where
  "c_malloc res s =
     (case res of None \<Rightarrow> (s, None) | Some x \<Rightarrow> (s\<lparr>live_blocks := live_blocks s + 1\<rparr>, Some x))"

definition c_free :: "proc \<Rightarrow> proc" where
  "c_free s = s\<lparr>live_blocks := live_blocks s - 1\<rparr>"

text \<open>
  The struct's \<open>buffer\<close> field is NULL until the second \<open>malloc\<close>, hence the option in the argument of
  \<open>haclog_bytes_buffer_free\<close>.
\<close>

definition haclog_bytes_buffer_free :: "block option option \<Rightarrow> proc \<Rightarrow> proc" where
  "haclog_bytes_buffer_free bytes_buf s =
     (case bytes_buf of
        None \<Rightarrow> s
      | Some buffer \<Rightarrow>
          let s = (case buffer of None \<Rightarrow> s | Some _ \<Rightarrow> c_free s)
          in c_free s)"

definition haclog_bytes_buffer_new ::
  "unit option \<Rightarrow> block option \<Rightarrow> int \<Rightarrow> proc \<Rightarrow> proc \<times> bytes_buffer option" where
  "haclog_bytes_buffer_new malloc1 malloc2 capacity s =
     (case c_malloc malloc1 s of
        (s, None) \<Rightarrow> (set_err HACLOG_ERR_ALLOC_MEM s, None)
      | (s, Some _) \<Rightarrow>
          if capacity < 2 * HACLOG_BYTES_BUFFER_WR_MIN_INTERVAL
          then (haclog_bytes_buffer_free (Some None) (set_err HACLOG_ERR_ARGUMENTS s), None)
          else
            (case c_malloc malloc2 s of
               (s, None) \<Rightarrow>
                 (haclog_bytes_buffer_free (Some None) (set_err HACLOG_ERR_ALLOC_MEM s), None)
             | (s, Some blk) \<Rightarrow>
                 (s, Some \<lparr>bb_buffer = blk, bb_capacity = capacity, bb_w = 0, bb_r = 0\<rparr>)))"

section \<open>Positions\<close>

definition haclog_bytes_buffer_w_fc :: "bytes_buffer \<Rightarrow> int \<Rightarrow> int \<Rightarrow> int \<Rightarrow> proc \<Rightarrow> proc \<times> int" where
  "haclog_bytes_buffer_w_fc bytes_buf num_bytes r w s =
     (if num_bytes > bb_capacity bytes_buf sdiv 2 - HACLOG_BYTES_BUFFER_WR_MIN_INTERVAL
      then (set_err HACLOG_ERR_ARGUMENTS s, - 1)
      else if w \<ge> r then
        (let cw = bb_capacity bytes_buf - w in
         if cw > num_bytes then (s, w)
         else if cw < num_bytes then
           (if r - HACLOG_BYTES_BUFFER_WR_MIN_INTERVAL < num_bytes then (s, - 2) else (s, 0))
         else (if r = 0 then (s, - 2) else (s, w)))
      else
        (let cw = r - w - HACLOG_BYTES_BUFFER_WR_MIN_INTERVAL in
         if cw < num_bytes then (s, - 2) else (s, w)))"

definition haclog_bytes_buffer_w_move :: "bytes_buffer \<Rightarrow> int \<Rightarrow> proc \<Rightarrow> proc \<times> bytes_buffer \<times> int" where
  "haclog_bytes_buffer_w_move bytes_buf pos s =
     (if pos < 0 \<or> pos \<ge> bb_capacity bytes_buf then
        (if pos = bb_capacity bytes_buf then (s, bytes_buf\<lparr>bb_w := 0\<rparr>, 0)
         else (set_err HACLOG_ERR_ARGUMENTS s, bytes_buf, - 1))
      else (s, bytes_buf\<lparr>bb_w := pos\<rparr>, 0))"

definition haclog_bytes_buffer_r_move :: "bytes_buffer \<Rightarrow> int \<Rightarrow> proc \<Rightarrow> proc \<times> bytes_buffer \<times> int" where
  "haclog_bytes_buffer_r_move bytes_buf pos s =
     (if pos < 0 \<or> pos \<ge> bb_capacity bytes_buf then
        (if pos = bb_capacity bytes_buf then (s, bytes_buf\<lparr>bb_r := 0\<rparr>, 0)
         else (set_err HACLOG_ERR_ARGUMENTS s, bytes_buf, - 1))
      else (s, bytes_buf\<lparr>bb_r := pos\<rparr>, 0))"

text \<open>The address \<open>buffer + pos\<close> is the offset, NULL is \<open>None\<close>.\<close>

definition haclog_bytes_buffer_get :: "bytes_buffer \<Rightarrow> int \<Rightarrow> proc \<Rightarrow> proc \<times> nat option" where
  "haclog_bytes_buffer_get bytes_buf pos s =
     (if pos < 0 \<or> pos \<ge> bb_capacity bytes_buf
      then (set_err HACLOG_ERR_ARGUMENTS s, None)
      else (s, Some (nat pos)))"

text \<open>
  The loop of \<open>haclog_bytes_buffer_join\<close> over the values its atomic loads of \<open>r\<close> observe, one per
  round. \<open>None\<close>: still waiting when the observations end.
\<close>

fun haclog_bytes_buffer_join :: "bytes_buffer \<Rightarrow> int list \<Rightarrow> int list option" where
  "haclog_bytes_buffer_join bytes_buf [] = None"
| "haclog_bytes_buffer_join bytes_buf (r # loads) =
     (if r = bb_w bytes_buf then Some loads else haclog_bytes_buffer_join bytes_buf loads)"

section \<open>Well-formed buffers\<close>

definition bb_wf :: "bytes_buffer \<Rightarrow> bool" where
  "bb_wf b \<longleftrightarrow>
     256 \<le> bb_capacity b \<and> bb_capacity b < 2147483648 \<and>
     int (length (bb_buffer b)) = bb_capacity b \<and>
     0 \<le> bb_w b \<and> bb_w b < bb_capacity b \<and> 0 \<le> bb_r b \<and> bb_r b < bb_capacity b"

text \<open>
  \<open>malloc\<close> returns a block of the requested size (the C standard's promise, stated of the argument
  that stands for its result).
\<close>

lemma bytes_buffer_new_cases:
  assumes "haclog_bytes_buffer_new m1 m2 capacity s = (s', res)"
  shows "(res = None \<and> live_blocks s' = live_blocks s \<and>
          last_err s' = (if m1 = None \<or> 256 \<le> capacity then HACLOG_ERR_ALLOC_MEM else HACLOG_ERR_ARGUMENTS) \<and>
          (m1 = None \<or> capacity < 256 \<or> m2 = None)) \<or>
         (\<exists>blk. m1 \<noteq> None \<and> 256 \<le> capacity \<and> m2 = Some blk \<and>
          res = Some \<lparr>bb_buffer = blk, bb_capacity = capacity, bb_w = 0, bb_r = 0\<rparr> \<and>
          live_blocks s' = live_blocks s + 2 \<and> last_err s' = last_err s)"
  using assms
  by (auto simp: haclog_bytes_buffer_new_def haclog_bytes_buffer_free_def c_malloc_def c_free_def
      set_err_def haclog_set_error_def c_arith split: option.splits if_splits)

section \<open>Distances on the ring\<close>

text \<open>
  \<open>ring_dist cap a b\<close> is how far a walk forward from \<open>a\<close> goes before it is at \<open>b\<close>; \<open>b = cap\<close> is the
  end of the block, reached without wrapping. \<open>wrap_pos\<close> is the position the moves store for it.
\<close>

definition ring_dist :: "int \<Rightarrow> int \<Rightarrow> int \<Rightarrow> int" where
  "ring_dist cap a b = (if a \<le> b then b - a else cap + b - a)"

definition wrap_pos :: "int \<Rightarrow> int \<Rightarrow> int" where
  "wrap_pos cap p = (if p = cap then 0 else p)"

text \<open>
  The writer between two requests: \<open>c\<close> is the reader position it knows, \<open>w\<close> the published writer
  position, \<open>lw\<close> its local one. Either it has not wrapped (and then it may stand at the end of the
  block only if the reader is not at 0), or it has, and stays an interval behind \<open>c\<close>.
\<close>

definition writer_inv :: "int \<Rightarrow> int \<Rightarrow> int \<Rightarrow> int \<Rightarrow> bool" where
  "writer_inv cap c w lw \<longleftrightarrow>
     (if c \<le> w
      then (w \<le> lw \<and> lw \<le> cap \<and> (lw = cap \<longrightarrow> 0 < c)) \<or> (0 \<le> lw \<and> lw \<le> c - 128)
      else w \<le> lw \<and> (lw = w \<or> lw \<le> c - 128))"

lemma writer_inv_start: "0 \<le> c \<Longrightarrow> w < cap \<Longrightarrow> writer_inv cap c w w"
  by (simp add: writer_inv_def)

text \<open>
  A reader position observed later lies between the one known and the published writer position,
  and the writer's invariant holds for it too.
\<close>

lemma writer_inv_reload:
  "writer_inv cap c w lw \<Longrightarrow> 0 \<le> c \<Longrightarrow> c < cap \<Longrightarrow> 0 \<le> w \<Longrightarrow> w < cap \<Longrightarrow> 0 \<le> r \<Longrightarrow> r < cap \<Longrightarrow>
   ring_dist cap c r \<le> ring_dist cap c w \<Longrightarrow> writer_inv cap r w lw"
  by (auto simp: writer_inv_def ring_dist_def split: if_splits)

lemma w_fc_result:
  "snd (haclog_bytes_buffer_w_fc b n c lw s) = pos \<Longrightarrow>
   pos = - 1 \<or> pos = - 2 \<or> pos = lw \<or> (pos = 0 \<and> lw \<ge> c \<and> bb_capacity b - lw < n)"
  by (auto simp: haclog_bytes_buffer_w_fc_def Let_def split: if_splits)

lemma w_fc_alloc:
  assumes fc: "snd (haclog_bytes_buffer_w_fc b n c lw s) = pos" and pos: "0 \<le> pos" and n: "0 \<le> n"
    and cap: "256 \<le> bb_capacity b" and c: "0 \<le> c" "c < bb_capacity b"
    and w: "0 \<le> w" "w < bb_capacity b" and inv: "writer_inv (bb_capacity b) c w lw"
  shows "writer_inv (bb_capacity b) c w (pos + n)" "pos + n \<le> bb_capacity b"
    "ring_dist (bb_capacity b) w lw \<le> ring_dist (bb_capacity b) w (pos + n)"
  using assms by (auto simp: haclog_bytes_buffer_w_fc_def Let_def c_arith writer_inv_def
      ring_dist_def split: if_splits)

lemma w_fc_room:
  assumes fc: "snd (haclog_bytes_buffer_w_fc b n c lw s) = pos" and pos: "0 \<le> pos" and n: "0 \<le> n"
    and cap: "256 \<le> bb_capacity b" and c: "0 \<le> c" "c < bb_capacity b"
    and w: "0 \<le> w" "w < bb_capacity b" and inv: "writer_inv (bb_capacity b) c w lw"
    and x: "pos \<le> x" "x < pos + n"
  shows "0 \<le> x \<and> x < bb_capacity b"
    "ring_dist (bb_capacity b) w lw \<le> ring_dist (bb_capacity b) w x"
    "ring_dist (bb_capacity b) w x < ring_dist (bb_capacity b) w (pos + n)"
    "ring_dist (bb_capacity b) c w \<le> ring_dist (bb_capacity b) c x"
  using assms by (auto simp: haclog_bytes_buffer_w_fc_def Let_def c_arith writer_inv_def
      ring_dist_def split: if_splits)

text \<open>
  What a move publishes: the new position is inside the block, is not the old one, and the walk
  from any reader position in between is longer by the bytes just written, short of a full turn.
\<close>

lemma writer_inv_publish:
  assumes inv: "writer_inv cap c w lw" and rng: "256 \<le> cap" "0 \<le> c" "c < cap" "0 \<le> w" "w < cap"
    and moved: "0 < ring_dist cap w lw"
  shows "0 \<le> wrap_pos cap lw" "wrap_pos cap lw < cap" "0 \<le> lw" "lw \<le> cap"
    "ring_dist cap w (wrap_pos cap lw) = ring_dist cap w lw"
    "ring_dist cap c (wrap_pos cap lw) = ring_dist cap c w + ring_dist cap w lw"
    "ring_dist cap c w + ring_dist cap w lw < cap"
  using assms by (auto simp: writer_inv_def ring_dist_def wrap_pos_def split: if_splits)

text \<open>Distances add up as long as the walk stays short of a full turn.\<close>

lemma ring_dist_add:
  "0 \<le> a \<Longrightarrow> a < cap \<Longrightarrow> 0 \<le> b \<Longrightarrow> b < cap \<Longrightarrow> 0 \<le> x \<Longrightarrow> x < cap \<Longrightarrow>
   ring_dist cap a b + ring_dist cap b x < cap \<Longrightarrow>
   ring_dist cap a x = ring_dist cap a b + ring_dist cap b x"
  by (auto simp: ring_dist_def split: if_splits)

lemma ring_dist_sub:
  "0 \<le> a \<Longrightarrow> a < cap \<Longrightarrow> 0 \<le> b \<Longrightarrow> b < cap \<Longrightarrow> 0 \<le> x \<Longrightarrow> x < cap \<Longrightarrow>
   ring_dist cap a b \<le> ring_dist cap a x \<Longrightarrow>
   ring_dist cap b x = ring_dist cap a x - ring_dist cap a b"
  by (auto simp: ring_dist_def split: if_splits)

lemma ring_dist_range:
  "0 \<le> a \<Longrightarrow> a < cap \<Longrightarrow> 0 \<le> b \<Longrightarrow> b < cap \<Longrightarrow> 0 \<le> ring_dist cap a b \<and> ring_dist cap a b < cap"
  by (auto simp: ring_dist_def)

lemma ring_dist_zero:
  "0 \<le> a \<Longrightarrow> a < cap \<Longrightarrow> 0 \<le> b \<Longrightarrow> b < cap \<Longrightarrow> ring_dist cap a b = 0 \<longleftrightarrow> a = b"
  by (auto simp: ring_dist_def)

lemma ring_dist_self [simp]: "ring_dist cap a a = 0"
  by (simp add: ring_dist_def)

text \<open>Room behind a known reader position is behind every later one.\<close>

lemma room_later:
  "0 \<le> c \<Longrightarrow> c < cap \<Longrightarrow> 0 \<le> r \<Longrightarrow> r < cap \<Longrightarrow> 0 \<le> w \<Longrightarrow> w < cap \<Longrightarrow> 0 \<le> x \<Longrightarrow> x < cap \<Longrightarrow>
   ring_dist cap c r \<le> ring_dist cap c w \<Longrightarrow> ring_dist cap c w \<le> ring_dist cap c x \<Longrightarrow>
   ring_dist cap r w \<le> ring_dist cap r x"
  by (auto simp: ring_dist_def split: if_splits)

text \<open>A header is put at the published position, or at 0 when the block's tail is too short.\<close>

lemma w_fc_header:
  assumes "snd (haclog_bytes_buffer_w_fc b 48 c w s) = pos" "0 \<le> pos"
    and "0 \<le> c" "c < bb_capacity b" "0 \<le> w" "w < bb_capacity b"
  shows "pos = (if bb_capacity b - w < 48 then 0 else w)"
  using assms by (auto simp: haclog_bytes_buffer_w_fc_def Let_def c_arith split: if_splits)

end
