(* ===== verification/Haclog_Simulation.thy ===== *)
theory Haclog_Simulation
  imports Haclog_Prelude
begin

text \<open>
  The contract between a concurrent component and its abstract specification: an invariant that
  starts true and is kept, and an abstraction under which every step is a step of the
  specification or invisible. What follows for whole runs is proved once, in the locale.
\<close>

inductive run_of :: "('s \<Rightarrow> bool) \<Rightarrow> ('s \<Rightarrow> 's \<Rightarrow> bool) \<Rightarrow> 's \<Rightarrow> bool" for start step where
  run_start: "start s \<Longrightarrow> run_of start step s"
| run_step: "run_of start step s \<Longrightarrow> step s t \<Longrightarrow> run_of start step t"

locale invariant_system =
  fixes start :: "'s \<Rightarrow> bool" and step :: "'s \<Rightarrow> 's \<Rightarrow> bool" and inv :: "'s \<Rightarrow> bool"
  assumes inv_start: "start s \<Longrightarrow> inv s"
    and inv_step: "inv s \<Longrightarrow> step s t \<Longrightarrow> inv t"
begin

lemma run_inv: "run_of start step s \<Longrightarrow> inv s"
  by (induction rule: run_of.induct) (blast intro: inv_start inv_step)+

end

locale forward_simulation = invariant_system start step inv
  for start :: "'s \<Rightarrow> bool" and step inv +
  fixes abs :: "'s \<Rightarrow> 'a" and astart :: "'a \<Rightarrow> bool" and astep :: "'a \<Rightarrow> 'a \<Rightarrow> bool"
  assumes sim_start: "start s \<Longrightarrow> astart (abs s)"
    and sim_step: "inv s \<Longrightarrow> step s t \<Longrightarrow> abs t = abs s \<or> astep (abs s) (abs t)"
begin

lemma run_sim: "run_of start step s \<Longrightarrow> run_of astart astep (abs s)"
proof (induction rule: run_of.induct)
  case (run_start s)
  then show ?case by (intro run_of.run_start sim_start)
next
  case (run_step s t)
  from sim_step [OF run_inv [OF run_step.hyps(1)] run_step.hyps(2)] run_step.IH
  show ?case by (auto intro: run_of.run_step)
qed

end

end
