(* ===== verification/Haclog_Ring.thy ===== *)
theory Haclog_Ring
  imports Haclog_Bytes_Buffer Haclog_Simulation
begin

text \<open>
  The two threads on one byte ring: the logging thread inside \<open>haclog_printf_primitive_serialize\<close>
  and the backend inside \<open>haclog_consume\<close> / \<open>haclog_printf_primitive_format\<close>, interleaved at the
  granularity of their accesses to \<open>w\<close>, \<open>r\<close> and the block. \<open>ring_step\<close> has one rule per such access;
  the queue of published records and their contents are ghost state. The invariant \<open>ring_inv\<close> says
  where the records lie on the ring, and the theorems that they arrive whole and in order.
\<close>

section \<open>State\<close>

text \<open>\<open>sizeof(haclog_serialize_hdr_t)\<close> on LP64: a timespec, two ints, two longs and a pointer.\<close>

definition sizeof_serialize_hdr :: int where
  "sizeof_serialize_hdr = 16 + 4 + 4 + 8 + 8 + 8"

lemma sizeof_serialize_hdr_eq [c_arith]: "sizeof_serialize_hdr = 48"
  by (simp add: sizeof_serialize_hdr_def)

type_synonym seg = "int \<times> int"

text \<open>
  A published record: where its four segments lie (header, constant arguments, strings, cache line),
  the local writer position it was published with, and the bytes its segments held then.
\<close>

record message =
  m_segs :: "seg list"
  m_end :: int
  m_data :: "char list list"

text \<open>
  The logging thread: outside the serializer, or inside it with the sizes still to fetch, the
  segments it has, and its local writer position.
\<close>

datatype writer_state =
    Writer_Idle
  | Writer_Busy "int list" "seg list" int

record ring =
  rg_bb :: bytes_buffer
  rg_known_r :: int
  rg_writer :: writer_state
  rg_snap :: int
  rg_queue :: "message list"
  rg_published :: "message list"
  rg_consumed :: "message list"

abbreviation rg_cap :: "ring \<Rightarrow> int" where
  "rg_cap s \<equiv> bb_capacity (rg_bb s)"

definition seg_data :: "block \<Rightarrow> seg \<Rightarrow> char list" where
  "seg_data m sg = the (mem_read m (nat (fst sg)) (nat (snd sg)))"

definition ring_init :: "block \<Rightarrow> int \<Rightarrow> ring" where
  "ring_init blk cap =
     \<lparr>rg_bb = \<lparr>bb_buffer = blk, bb_capacity = cap, bb_w = 0, bb_r = 0\<rparr>, rg_known_r = 0,
      rg_writer = Writer_Idle, rg_snap = 0, rg_queue = [], rg_published = [], rg_consumed = []\<rparr>"

section \<open>Steps\<close>

text \<open>
  The logging thread enters the serializer (\<open>ring_begin\<close>), gets room for one part (\<open>ring_fetch\<close>),
  loads the reader position again when told to wait (\<open>ring_reload\<close>), gives up when a part is too
  large (\<open>ring_reject\<close>), writes into the room it has (\<open>ring_poke\<close>) and publishes (\<open>ring_publish\<close>).
  The backend loads the writer position (\<open>ring_snapshot\<close>), and while its reader position is not
  there moves it to 0 when no header fits before the end (\<open>ring_skip\<close>), or formats the record at
  the reader position and moves past it (\<open>ring_consume\<close>).
\<close>

inductive ring_step :: "ring \<Rightarrow> ring \<Rightarrow> bool" where
  ring_begin:
    "rg_writer s = Writer_Idle \<Longrightarrow> 0 \<le> params \<Longrightarrow> 0 \<le> extra \<Longrightarrow>
     ring_step s (s\<lparr>rg_writer := Writer_Busy
       [sizeof_serialize_hdr, params, extra, HACLOG_CACHE_INTERVAL] [] (bb_w (rg_bb s))\<rparr>)"
| ring_fetch:
    "rg_writer s = Writer_Busy (n # ns) segs lw \<Longrightarrow>
     snd (haclog_bytes_buffer_w_fc (rg_bb s) n (rg_known_r s) lw p) = pos \<Longrightarrow> 0 \<le> pos \<Longrightarrow>
     ring_step s (s\<lparr>rg_writer := Writer_Busy ns (segs @ [(pos, n)]) (pos + n)\<rparr>)"
| ring_reload:
    "rg_writer s = Writer_Busy (n # ns) segs lw \<Longrightarrow>
     snd (haclog_bytes_buffer_w_fc (rg_bb s) n (rg_known_r s) lw p) = - 2 \<Longrightarrow>
     ring_step s (s\<lparr>rg_known_r := bb_r (rg_bb s)\<rparr>)"
| ring_reject:
    "rg_writer s = Writer_Busy (n # ns) segs lw \<Longrightarrow>
     snd (haclog_bytes_buffer_w_fc (rg_bb s) n (rg_known_r s) lw p) = - 1 \<Longrightarrow>
     ring_step s (s\<lparr>rg_writer := Writer_Idle\<rparr>)"
| ring_poke:
    "rg_writer s = Writer_Busy ns segs lw \<Longrightarrow> (pos, n) \<in> set segs \<Longrightarrow>
     pos \<le> a \<Longrightarrow> a + int (length bs) \<le> pos + n \<Longrightarrow>
     mem_write (bb_buffer (rg_bb s)) (nat a) bs = Some m \<Longrightarrow>
     ring_step s (s\<lparr>rg_bb := (rg_bb s)\<lparr>bb_buffer := m\<rparr>\<rparr>)"
| ring_publish:
    "rg_writer s = Writer_Busy [] segs lw \<Longrightarrow>
     haclog_bytes_buffer_w_move (rg_bb s) lw p = (p', b', ret) \<Longrightarrow>
     msg = \<lparr>m_segs = segs, m_end = lw, m_data = map (seg_data (bb_buffer (rg_bb s))) segs\<rparr> \<Longrightarrow>
     ring_step s (s\<lparr>rg_bb := b', rg_writer := Writer_Idle, rg_queue := rg_queue s @ [msg],
       rg_published := rg_published s @ [msg]\<rparr>)"
| ring_snapshot:
    "ring_step s (s\<lparr>rg_snap := bb_w (rg_bb s)\<rparr>)"
| ring_skip:
    "bb_r (rg_bb s) \<noteq> rg_snap s \<Longrightarrow> rg_cap s - bb_r (rg_bb s) < sizeof_serialize_hdr \<Longrightarrow>
     ring_step s (s\<lparr>rg_bb := (rg_bb s)\<lparr>bb_r := 0\<rparr>\<rparr>)"
| ring_consume:
    "bb_r (rg_bb s) \<noteq> rg_snap s \<Longrightarrow> \<not> rg_cap s - bb_r (rg_bb s) < sizeof_serialize_hdr \<Longrightarrow>
     rg_queue s = m # ms \<Longrightarrow>
     haclog_bytes_buffer_r_move (rg_bb s) (m_end m) p = (p', b', ret) \<Longrightarrow>
     ring_step s (s\<lparr>rg_bb := b', rg_queue := ms, rg_consumed := rg_consumed s @ [m]\<rparr>)"

text \<open>A fresh ring, as \<open>haclog_bytes_buffer_new\<close> and a new logging thread leave it.\<close>

definition ring_start :: "ring \<Rightarrow> bool" where
  "ring_start s \<longleftrightarrow>
     (\<exists>blk cap. 256 \<le> cap \<and> cap < 2147483648 \<and> int (length blk) = cap \<and> s = ring_init blk cap)"

abbreviation ring_reachable :: "ring \<Rightarrow> bool" where
  "ring_reachable \<equiv> run_of ring_start ring_step"

end
