(* ===== verification/Haclog_Ring_Inv.thy ===== *)
theory Haclog_Ring_Inv
  imports Haclog_Ring
begin

text \<open>
  The invariant of the two threads on the ring, one lemma per kind of step, and its lift to the
  reachable states. \<open>queue_ok\<close> lays the unconsumed records out from the reader position to the
  writer position; \<open>writer_ok\<close> keeps what the writer holds in the bytes behind the reader.
\<close>

section \<open>Where the records lie\<close>

definition hdr_pos :: "int \<Rightarrow> int \<Rightarrow> int" where
  "hdr_pos cap st = (if cap - st < sizeof_serialize_hdr then 0 else st)"

text \<open>A segment inside the block, all its bytes on the way from a to b, none before h.\<close>

definition seg_between :: "int \<Rightarrow> int \<Rightarrow> int \<Rightarrow> int \<Rightarrow> seg \<Rightarrow> bool" where
  "seg_between cap a h b sg \<longleftrightarrow>
     0 \<le> fst sg \<and> 0 \<le> snd sg \<and> fst sg + snd sg \<le> cap \<and>
     (\<forall>x. fst sg \<le> x \<and> x < fst sg + snd sg \<longrightarrow>
        ring_dist cap a h \<le> ring_dist cap a x \<and> ring_dist cap a x < ring_dist cap a b)"

definition msg_ok :: "int \<Rightarrow> int \<Rightarrow> message \<Rightarrow> bool" where
  "msg_ok cap st m \<longleftrightarrow>
     0 \<le> m_end m \<and> m_end m \<le> cap \<and>
     (\<exists>rest. m_segs m = (hdr_pos cap st, sizeof_serialize_hdr) # rest) \<and>
     (\<forall>sg \<in> set (m_segs m). seg_between cap st (hdr_pos cap st) (wrap_pos cap (m_end m)) sg)"

fun queue_ok :: "int \<Rightarrow> int \<Rightarrow> message list \<Rightarrow> int \<Rightarrow> bool" where
  "queue_ok cap r [] w = (r = w)"
| "queue_ok cap r (m # ms) w =
     (msg_ok cap r m \<and> queue_ok cap (wrap_pos cap (m_end m)) ms w)"

fun queue_span :: "int \<Rightarrow> int \<Rightarrow> message list \<Rightarrow> int" where
  "queue_span cap r [] = 0"
| "queue_span cap r (m # ms) =
     ring_dist cap r (wrap_pos cap (m_end m)) + queue_span cap (wrap_pos cap (m_end m)) ms"

fun writer_ok :: "int \<Rightarrow> int \<Rightarrow> int \<Rightarrow> writer_state \<Rightarrow> bool" where
  "writer_ok cap c w Writer_Idle = True"
| "writer_ok cap c w (Writer_Busy ns segs lw) \<longleftrightarrow>
     writer_inv cap c w lw \<and> (\<forall>n \<in> set ns. 0 \<le> n) \<and>
     (if segs = [] then lw = w \<and> (\<exists>ns'. ns = sizeof_serialize_hdr # ns')
      else \<exists>rest. segs = (hdr_pos cap w, sizeof_serialize_hdr) # rest) \<and>
     (\<forall>sg \<in> set segs. seg_between cap w (hdr_pos cap w) lw sg \<and>
        (\<forall>x. fst sg \<le> x \<and> x < fst sg + snd sg \<longrightarrow> ring_dist cap c w \<le> ring_dist cap c x))"

definition ring_inv :: "ring \<Rightarrow> bool" where
  "ring_inv s \<longleftrightarrow>
     bb_wf (rg_bb s) \<and> 0 \<le> rg_known_r s \<and> rg_known_r s < rg_cap s \<and>
     ring_dist (rg_cap s) (rg_known_r s) (bb_r (rg_bb s)) \<le>
       ring_dist (rg_cap s) (rg_known_r s) (bb_w (rg_bb s)) \<and>
     queue_ok (rg_cap s) (bb_r (rg_bb s)) (rg_queue s) (bb_w (rg_bb s)) \<and>
     queue_span (rg_cap s) (bb_r (rg_bb s)) (rg_queue s) < rg_cap s \<and>
     (\<exists>pre post. rg_queue s = pre @ post \<and> queue_ok (rg_cap s) (bb_r (rg_bb s)) pre (rg_snap s)) \<and>
     writer_ok (rg_cap s) (rg_known_r s) (bb_w (rg_bb s)) (rg_writer s) \<and>
     (\<forall>m \<in> set (rg_queue s). m_data m = map (seg_data (bb_buffer (rg_bb s))) (m_segs m)) \<and>
     rg_published s = rg_consumed s @ rg_queue s"

section \<open>Facts of the layout\<close>

lemma wrap_pos_range: "0 \<le> p \<Longrightarrow> p \<le> cap \<Longrightarrow> 0 < cap \<Longrightarrow> 0 \<le> wrap_pos cap p \<and> wrap_pos cap p < cap"
  by (auto simp: wrap_pos_def)

lemma hdr_pos_range: "0 \<le> st \<Longrightarrow> st < cap \<Longrightarrow> 48 \<le> cap \<Longrightarrow>
    0 \<le> hdr_pos cap st \<and> hdr_pos cap st + 48 \<le> cap"
  by (auto simp: hdr_pos_def c_arith)

lemma msg_ok_dist_pos:
  assumes "msg_ok cap st m" "0 \<le> st" "st < cap" "256 \<le> cap"
  shows "0 < ring_dist cap st (wrap_pos cap (m_end m))"
proof -
  have "seg_between cap st (hdr_pos cap st) (wrap_pos cap (m_end m)) (hdr_pos cap st, 48)"
    using assms(1) by (auto simp: msg_ok_def c_arith)
  then have "ring_dist cap st (hdr_pos cap st) < ring_dist cap st (wrap_pos cap (m_end m))"
    by (auto simp: seg_between_def)
  moreover have "0 \<le> ring_dist cap st (hdr_pos cap st)"
    using ring_dist_range [of st cap "hdr_pos cap st"] hdr_pos_range [of st cap] assms by auto
  ultimately show ?thesis by simp
qed

lemma queue_span_nonneg:
  "queue_ok cap r q w \<Longrightarrow> 0 \<le> r \<Longrightarrow> r < cap \<Longrightarrow> 256 \<le> cap \<Longrightarrow> 0 \<le> queue_span cap r q"
proof (induction q arbitrary: r)
  case Nil
  then show ?case by simp
next
  case (Cons m ms)
  then show ?case
    using msg_ok_dist_pos [of cap r m] wrap_pos_range [of "m_end m" cap] by (force simp: msg_ok_def)
qed

lemma queue_dist:
  "queue_ok cap r q w \<Longrightarrow> queue_span cap r q < cap \<Longrightarrow> 0 \<le> r \<Longrightarrow> r < cap \<Longrightarrow> 0 \<le> w \<Longrightarrow> w < cap \<Longrightarrow>
   256 \<le> cap \<Longrightarrow> ring_dist cap r w = queue_span cap r q"
proof (induction q arbitrary: r)
  case Nil
  then show ?case by simp
next
  case (Cons m ms)
  let ?e = "wrap_pos cap (m_end m)"
  have e: "0 \<le> ?e" "?e < cap"
    using Cons.prems wrap_pos_range [of "m_end m" cap] by (auto simp: msg_ok_def)
  have "0 \<le> ring_dist cap r ?e" using ring_dist_range [of r cap ?e] Cons.prems e by simp
  with Cons e have "ring_dist cap ?e w = queue_span cap ?e ms" by simp
  with Cons.prems e show ?case
    by (simp add: ring_dist_add [of r cap ?e w])
qed

lemma queue_empty_iff:
  assumes "queue_ok cap r q w" "queue_span cap r q < cap" "0 \<le> r" "r < cap" "0 \<le> w" "w < cap" "256 \<le> cap"
  shows "r = w \<longleftrightarrow> q = []"
proof
  assume "r = w"
  with queue_dist [OF assms] have span: "queue_span cap r q = 0" by simp
  show "q = []"
  proof (cases q)
    case (Cons m ms)
    with assms have "0 < ring_dist cap r (wrap_pos cap (m_end m))" by (intro msg_ok_dist_pos) auto
    moreover have "0 \<le> queue_span cap (wrap_pos cap (m_end m)) ms"
      using assms Cons wrap_pos_range [of "m_end m" cap]
      by (intro queue_span_nonneg [where w = w]) (auto simp: msg_ok_def)
    ultimately show ?thesis using span Cons by simp
  qed simp
qed (use assms in auto)

text \<open>Every byte of an unconsumed record is between the reader and the writer.\<close>

lemma queue_bytes_unread:
  "queue_ok cap r q w \<Longrightarrow> queue_span cap r q < cap \<Longrightarrow> 0 \<le> r \<Longrightarrow> r < cap \<Longrightarrow> 0 \<le> w \<Longrightarrow> w < cap \<Longrightarrow>
   256 \<le> cap \<Longrightarrow> m \<in> set q \<Longrightarrow> sg \<in> set (m_segs m) \<Longrightarrow> fst sg \<le> x \<Longrightarrow> x < fst sg + snd sg \<Longrightarrow>
   0 \<le> x \<and> x < cap \<and> ring_dist cap r x < ring_dist cap r w"
proof (induction q arbitrary: r)
  case Nil
  then show ?case by simp
next
  case (Cons m' ms)
  let ?e = "wrap_pos cap (m_end m')"
  have e: "0 \<le> ?e" "?e < cap"
    using Cons.prems wrap_pos_range [of "m_end m'" cap] by (auto simp: msg_ok_def)
  have re: "0 \<le> ring_dist cap r ?e" using ring_dist_range [of r cap ?e] Cons.prems e by simp
  have ms: "queue_ok cap ?e ms w" "queue_span cap ?e ms < cap" using Cons.prems re by auto
  have ew: "ring_dist cap ?e w = queue_span cap ?e ms"
    by (rule queue_dist) (use ms e Cons.prems in auto)
  have nn: "0 \<le> queue_span cap ?e ms" by (rule queue_span_nonneg [OF ms(1)]) (use e Cons.prems in auto)
  have rw: "ring_dist cap r w = ring_dist cap r ?e + ring_dist cap ?e w"
    using Cons.prems e ew by (intro ring_dist_add) auto
  show ?case
  proof (cases "m = m'")
    case True
    with Cons.prems have "seg_between cap r (hdr_pos cap r) ?e sg" by (auto simp: msg_ok_def)
    with Cons.prems rw ew nn show ?thesis by (auto simp: seg_between_def)
  next
    case False
    with Cons.prems have "m \<in> set ms" by simp
    with Cons.IH [OF ms] e Cons.prems
    have x: "0 \<le> x" "x < cap" "ring_dist cap ?e x < ring_dist cap ?e w" by auto
    have "ring_dist cap r x = ring_dist cap r ?e + ring_dist cap ?e x"
      using Cons.prems e x ew by (intro ring_dist_add) auto
    with x rw show ?thesis by simp
  qed
qed

lemma queue_ok_append:
  "queue_ok cap r (p @ q) w \<longleftrightarrow> (\<exists>v. queue_ok cap r p v \<and> queue_ok cap v q w)"
  by (induction p arbitrary: r) auto

lemma queue_span_append:
  "queue_ok cap r p v \<Longrightarrow> queue_span cap r (p @ q) = queue_span cap r p + queue_span cap v q"
  by (induction p arbitrary: r) auto

section \<open>Steps keep the invariant\<close>

lemma reader_advance:
  "0 \<le> c \<Longrightarrow> c < cap \<Longrightarrow> 0 \<le> r \<Longrightarrow> r < cap \<Longrightarrow> 0 \<le> w \<Longrightarrow> w < cap \<Longrightarrow> 0 \<le> r' \<Longrightarrow> r' < cap \<Longrightarrow>
   ring_dist cap c r \<le> ring_dist cap c w \<Longrightarrow> ring_dist cap r r' \<le> ring_dist cap r w \<Longrightarrow>
   ring_dist cap c r' \<le> ring_dist cap c w"
  by (auto simp: ring_dist_def split: if_splits)

lemma ring_inv_facts:
  assumes "ring_inv s"
  shows "256 \<le> rg_cap s" "0 \<le> bb_r (rg_bb s)" "bb_r (rg_bb s) < rg_cap s" "0 \<le> bb_w (rg_bb s)"
    "bb_w (rg_bb s) < rg_cap s" "0 \<le> rg_known_r s" "rg_known_r s < rg_cap s"
    "int (length (bb_buffer (rg_bb s))) = rg_cap s"
  using assms by (auto simp: ring_inv_def bb_wf_def)

lemma ring_inv_parts:
  assumes "ring_inv s"
  shows "ring_dist (rg_cap s) (rg_known_r s) (bb_r (rg_bb s)) \<le>
      ring_dist (rg_cap s) (rg_known_r s) (bb_w (rg_bb s))"
    "queue_ok (rg_cap s) (bb_r (rg_bb s)) (rg_queue s) (bb_w (rg_bb s))"
    "queue_span (rg_cap s) (bb_r (rg_bb s)) (rg_queue s) < rg_cap s"
    "\<exists>pre post. rg_queue s = pre @ post \<and> queue_ok (rg_cap s) (bb_r (rg_bb s)) pre (rg_snap s)"
    "writer_ok (rg_cap s) (rg_known_r s) (bb_w (rg_bb s)) (rg_writer s)"
    "m \<in> set (rg_queue s) \<Longrightarrow> m_data m = map (seg_data (bb_buffer (rg_bb s))) (m_segs m)"
    "rg_published s = rg_consumed s @ rg_queue s"
  using assms unfolding ring_inv_def by blast+

lemma inv_begin:
  assumes "ring_inv s" "0 \<le> params" "0 \<le> extra"
  shows "ring_inv (s\<lparr>rg_writer := Writer_Busy
    [sizeof_serialize_hdr, params, extra, HACLOG_CACHE_INTERVAL] [] (bb_w (rg_bb s))\<rparr>)"
  using assms ring_inv_facts [OF assms(1)]
  by (simp add: ring_inv_def writer_inv_start c_arith)

lemma writer_ok_fetch:
  assumes fc: "snd (haclog_bytes_buffer_w_fc b n c lw p) = pos" and pos: "0 \<le> pos"
    and cap: "256 \<le> bb_capacity b" and c: "0 \<le> c" "c < bb_capacity b"
    and w: "0 \<le> w" "w < bb_capacity b"
    and ok: "writer_ok (bb_capacity b) c w (Writer_Busy (n # ns) segs lw)"
  shows "writer_ok (bb_capacity b) c w (Writer_Busy ns (segs @ [(pos, n)]) (pos + n))"
proof -
  let ?cap = "bb_capacity b" and ?h = "hdr_pos (bb_capacity b) w"
  have n: "0 \<le> n" and inv: "writer_inv ?cap c w lw" using ok by simp_all
  note alloc = w_fc_alloc [OF fc pos n cap c w inv]
  note room = w_fc_room [OF fc pos n cap c w inv]
  have first: "pos = ?h \<and> n = sizeof_serialize_hdr" if "segs = []"
    using that ok fc pos c w w_fc_header [of b c w p pos] by (auto simp: hdr_pos_def c_arith)
  have h: "0 \<le> ?h" "?h + 48 \<le> ?cap" using hdr_pos_range [of w ?cap] w cap by auto
  have old: "seg_between ?cap w ?h (pos + n) sg" if "sg \<in> set segs" for sg
    using that ok alloc(3) by (fastforce simp: seg_between_def)
  have h_lw: "ring_dist ?cap w ?h \<le> ring_dist ?cap w lw" if "segs \<noteq> []"
  proof -
    from that ok have "seg_between ?cap w ?h lw (?h, 48)" by (auto simp: c_arith)
    then show ?thesis by (auto simp: seg_between_def dest: spec [of _ ?h])
  qed
  have h_first: "ring_dist ?cap w ?h \<le> ring_dist ?cap w x" if "segs = []" "pos \<le> x" "x < pos + n" for x
    using that first w cap by (auto simp: hdr_pos_def ring_dist_def c_arith split: if_splits)
  have new: "seg_between ?cap w ?h (pos + n) (pos, n)"
    using pos n alloc room h_lw h_first
    by (cases "segs = []") (fastforce simp: seg_between_def)+
  show ?thesis
    using ok alloc(1) old new room(4) first by (cases "segs = []") (auto simp: c_arith)
qed

lemma inv_fetch:
  assumes inv: "ring_inv s" and busy: "rg_writer s = Writer_Busy (n # ns) segs lw"
    and fc: "snd (haclog_bytes_buffer_w_fc (rg_bb s) n (rg_known_r s) lw p) = pos" and pos: "0 \<le> pos"
  shows "ring_inv (s\<lparr>rg_writer := Writer_Busy ns (segs @ [(pos, n)]) (pos + n)\<rparr>)"
proof -
  have "writer_ok (rg_cap s) (rg_known_r s) (bb_w (rg_bb s)) (Writer_Busy ns (segs @ [(pos, n)]) (pos + n))"
    using inv busy ring_inv_facts [OF inv]
    by (intro writer_ok_fetch [OF fc pos]) (auto simp: ring_inv_def)
  with inv show ?thesis by (simp add: ring_inv_def)
qed

lemma inv_reload:
  assumes inv: "ring_inv s" and busy: "rg_writer s = Writer_Busy ns segs lw"
  shows "ring_inv (s\<lparr>rg_known_r := bb_r (rg_bb s)\<rparr>)"
proof -
  let ?cap = "rg_cap s" and ?c = "rg_known_r s" and ?r = "bb_r (rg_bb s)" and ?w = "bb_w (rg_bb s)"
  note facts = ring_inv_facts [OF inv]
  have cr: "ring_dist ?cap ?c ?r \<le> ring_dist ?cap ?c ?w"
    and ok: "writer_ok ?cap ?c ?w (Writer_Busy ns segs lw)"
    using inv busy by (auto simp: ring_inv_def)
  have "writer_inv ?cap ?r ?w lw"
    by (rule writer_inv_reload [of ?cap ?c]) (use facts cr ok in auto)
  moreover have "ring_dist ?cap ?r ?w \<le> ring_dist ?cap ?r x"
    if "sg \<in> set segs" "fst sg \<le> x" "x < fst sg + snd sg" for sg x
  proof -
    from that ok have sg: "seg_between ?cap ?w (hdr_pos ?cap ?w) lw sg"
      and "ring_dist ?cap ?c ?w \<le> ring_dist ?cap ?c x" by auto
    from sg that have "0 \<le> x" "x < ?cap" by (auto simp: seg_between_def)
    show ?thesis by (rule room_later [of ?c]) fact+
  qed
  ultimately have "writer_ok ?cap ?r ?w (Writer_Busy ns segs lw)"
    using ok by auto
  with inv busy show ?thesis
    using ring_dist_range [of ?r ?cap ?w] facts by (simp add: ring_inv_def)
qed

text \<open>Bytes the writer holds are never bytes of an unconsumed record.\<close>

lemma writer_bytes_free:
  assumes inv: "ring_inv s" and busy: "rg_writer s = Writer_Busy ns segs lw"
    and sg: "sg \<in> set segs" "fst sg \<le> x" "x < fst sg + snd sg"
    and m: "m \<in> set (rg_queue s)" "sg' \<in> set (m_segs m)"
  shows "\<not> (fst sg' \<le> x \<and> x < fst sg' + snd sg')"
proof
  let ?cap = "rg_cap s" and ?c = "rg_known_r s" and ?r = "bb_r (rg_bb s)" and ?w = "bb_w (rg_bb s)"
  assume x: "fst sg' \<le> x \<and> x < fst sg' + snd sg'"
  note facts = ring_inv_facts [OF inv]
  have "0 \<le> x \<and> x < ?cap \<and> ring_dist ?cap ?r x < ring_dist ?cap ?r ?w"
    by (rule queue_bytes_unread [where q = "rg_queue s"])
       (use ring_inv_parts(2,3) [OF inv] facts m x in auto)
  then have xr: "0 \<le> x" "x < ?cap" and unread: "ring_dist ?cap ?r x < ring_dist ?cap ?r ?w" by auto
  have "ring_dist ?cap ?c ?r \<le> ring_dist ?cap ?c ?w" by (rule ring_inv_parts(1) [OF inv])
  moreover have ok: "writer_ok ?cap ?c ?w (Writer_Busy ns segs lw)"
    using ring_inv_parts(5) [OF inv] unfolding busy .
  then have "ring_dist ?cap ?c ?w \<le> ring_dist ?cap ?c x" using sg by auto
  ultimately have "ring_dist ?cap ?r ?w \<le> ring_dist ?cap ?r x"
    by (rule room_later [of ?c, OF facts(6,7,2,3,4,5) xr])
  with unread show False by simp
qed

text \<open>Segment contents are unchanged by a write that misses the segment.\<close>

lemma seg_data_frame:
  assumes wr: "mem_write m (nat a) bs = Some m'" and a: "0 \<le> a" and sg: "0 \<le> fst sg" "0 \<le> snd sg"
    and miss: "\<And>x. a \<le> x \<Longrightarrow> x < a + int (length bs) \<Longrightarrow> \<not> (fst sg \<le> x \<and> x < fst sg + snd sg)"
  shows "seg_data m' sg = seg_data m sg"
proof (cases "bs = [] \<or> snd sg = 0")
  case True
  with wr show ?thesis
    by (cases "bs = []") (auto simp: seg_data_def mem_write_Some mem_read_def)
next
  case False
  have "\<not> (a \<le> x \<and> x < a + int (length bs) \<and> fst sg \<le> x \<and> x < fst sg + snd sg)" for x
    using miss [of x] by blast
  from this [of a] this [of "fst sg"] False sg(2)
  have "fst sg + snd sg \<le> a \<or> a + int (length bs) \<le> fst sg"
    by (cases bs) auto
  then have "nat (fst sg) + nat (snd sg) \<le> nat a \<or> nat a + length bs \<le> nat (fst sg)"
    using sg a by linarith
  then show ?thesis by (simp add: seg_data_def heap.rd_frame [OF wr])
qed

lemma queue_segs_nonneg:
  "queue_ok cap r q w \<Longrightarrow> m \<in> set q \<Longrightarrow> sg \<in> set (m_segs m) \<Longrightarrow> 0 \<le> fst sg \<and> 0 \<le> snd sg"
  by (induction q arbitrary: r) (auto simp: msg_ok_def seg_between_def)

lemma inv_poke:
  assumes inv: "ring_inv s" and busy: "rg_writer s = Writer_Busy ns segs lw"
    and sg: "(pos, n) \<in> set segs" and a: "pos \<le> a" "a + int (length bs) \<le> pos + n"
    and wr: "mem_write (bb_buffer (rg_bb s)) (nat a) bs = Some m"
  shows "ring_inv (s\<lparr>rg_bb := (rg_bb s)\<lparr>bb_buffer := m\<rparr>\<rparr>)"
proof -
  have pos: "0 \<le> pos" using inv busy sg by (auto simp: ring_inv_def seg_between_def)
  have len: "length m = length (bb_buffer (rg_bb s))" by (rule heap.wr_size [OF wr])
  have data: "seg_data m sg' = seg_data (bb_buffer (rg_bb s)) sg'"
    if m': "m' \<in> set (rg_queue s)" "sg' \<in> set (m_segs m')" for m' sg'
  proof (rule seg_data_frame [OF wr])
    show "0 \<le> a" using pos a by simp
    show "0 \<le> fst sg'" "0 \<le> snd sg'"
      using queue_segs_nonneg [OF ring_inv_parts(2) [OF inv] m'] by auto
    fix x assume "a \<le> x" "x < a + int (length bs)"
    with a show "\<not> (fst sg' \<le> x \<and> x < fst sg' + snd sg')"
      by (intro writer_bytes_free [OF inv busy sg _ _ m']) auto
  qed
  have "m_data m' = map (seg_data m) (m_segs m')" if "m' \<in> set (rg_queue s)" for m'
  proof -
    have "m_data m' = map (seg_data (bb_buffer (rg_bb s))) (m_segs m')"
      by (rule ring_inv_parts(6) [OF inv that])
    with data [OF that] show ?thesis by simp
  qed
  with inv len show ?thesis by (auto simp: ring_inv_def bb_wf_def)
qed

lemma inv_publish:
  assumes inv: "ring_inv s" and busy: "rg_writer s = Writer_Busy [] segs lw"
    and mv: "haclog_bytes_buffer_w_move (rg_bb s) lw p = (p', b', ret)"
    and msg: "msg = \<lparr>m_segs = segs, m_end = lw, m_data = map (seg_data (bb_buffer (rg_bb s))) segs\<rparr>"
  shows "ring_inv (s\<lparr>rg_bb := b', rg_writer := Writer_Idle, rg_queue := rg_queue s @ [msg],
    rg_published := rg_published s @ [msg]\<rparr>)"
proof -
  let ?cap = "rg_cap s" and ?c = "rg_known_r s" and ?r = "bb_r (rg_bb s)" and ?w = "bb_w (rg_bb s)"
  let ?w' = "wrap_pos ?cap lw" and ?h = "hdr_pos (rg_cap s) (bb_w (rg_bb s))"
  note facts = ring_inv_facts [OF inv]
  have ok: "writer_ok ?cap ?c ?w (Writer_Busy [] segs lw)"
    using ring_inv_parts(5) [OF inv] unfolding busy .
  note cr = ring_inv_parts(1) [OF inv] and q = ring_inv_parts(2,3) [OF inv]
  from ok have segs: "\<exists>rest. segs = (?h, sizeof_serialize_hdr) # rest"
    and within: "\<And>sg. sg \<in> set segs \<Longrightarrow> seg_between ?cap ?w ?h lw sg"
    and winv: "writer_inv ?cap ?c ?w lw"
    by (auto split: if_splits)
  have "seg_between ?cap ?w ?h lw (?h, 48)" using segs within by (auto simp: c_arith)
  then have "ring_dist ?cap ?w ?h < ring_dist ?cap ?w lw" by (auto simp: seg_between_def)
  moreover have "0 \<le> ring_dist ?cap ?w ?h"
    using ring_dist_range [of ?w ?cap ?h] hdr_pos_range [of ?w ?cap] facts by auto
  ultimately have moved: "0 < ring_dist ?cap ?w lw" by simp
  have rinv: "writer_inv ?cap ?r ?w lw"
    by (rule writer_inv_reload [OF winv]) (use facts cr in auto)
  note pubc = writer_inv_publish [OF winv facts(1,6,7,4,5) moved]
  note pubr = writer_inv_publish [OF rinv facts(1,2,3,4,5) moved]
  have b': "b' = (rg_bb s)\<lparr>bb_w := ?w'\<rparr>"
    using mv pubc(3,4) by (auto simp: haclog_bytes_buffer_w_move_def wrap_pos_def split: if_splits)
  have "msg_ok ?cap ?w msg"
    using segs within pubc msg by (auto simp: msg_ok_def seg_between_def)
  with q(1) have q': "queue_ok ?cap ?r (rg_queue s @ [msg]) ?w'"
    using msg by (auto simp: queue_ok_append)
  have "queue_span ?cap ?r (rg_queue s) = ring_dist ?cap ?r ?w"
    using queue_dist [OF q] facts by simp
  then have span': "queue_span ?cap ?r (rg_queue s @ [msg]) < ?cap"
    using pubr(5,7) msg by (simp add: queue_span_append [OF q(1)])
  have cr': "ring_dist ?cap ?c ?r \<le> ring_dist ?cap ?c ?w'"
    using cr pubc(6) moved by simp
  have snap: "\<exists>pre post. rg_queue s @ [msg] = pre @ post \<and> queue_ok ?cap ?r pre (rg_snap s)"
    using ring_inv_parts(4) [OF inv] by (metis append.assoc)
  show ?thesis
    using inv q' span' cr' snap pubc(1,2) b' msg by (auto simp: ring_inv_def bb_wf_def)
qed

lemma inv_reject: "ring_inv s \<Longrightarrow> ring_inv (s\<lparr>rg_writer := Writer_Idle\<rparr>)"
  by (simp add: ring_inv_def)

lemma inv_snapshot: "ring_inv s \<Longrightarrow> ring_inv (s\<lparr>rg_snap := bb_w (rg_bb s)\<rparr>)"
  using ring_inv_parts(2) [of s]
  by (simp add: ring_inv_def exI [of "\<lambda>pre. (\<exists>post. rg_queue s = pre @ post) \<and>
      queue_ok (rg_cap s) (bb_r (rg_bb s)) pre (bb_w (rg_bb s))" "rg_queue s"])

text \<open>A reader that is not at the loaded writer position has a record in front of it.\<close>

lemma reader_has_record:
  assumes inv: "ring_inv s" and ne: "bb_r (rg_bb s) \<noteq> rg_snap s"
  obtains m ms pre post where "rg_queue s = m # ms" "ms = pre @ post"
    "msg_ok (rg_cap s) (bb_r (rg_bb s)) m"
    "queue_ok (rg_cap s) (wrap_pos (rg_cap s) (m_end m)) pre (rg_snap s)"
    "queue_ok (rg_cap s) (wrap_pos (rg_cap s) (m_end m)) ms (bb_w (rg_bb s))"
proof -
  from ring_inv_parts(4) [OF inv] obtain pre post where
    q: "rg_queue s = pre @ post" "queue_ok (rg_cap s) (bb_r (rg_bb s)) pre (rg_snap s)" by blast
  with ne obtain m ms where "pre = m # ms" by (cases pre) auto
  with q ring_inv_parts(2) [OF inv] show thesis by (intro that [of m "ms @ post" ms post]) auto
qed

text \<open>Moving the reader forward, to a place before the writer, keeps what the writer relies on.\<close>

lemma inv_reader_move:
  assumes inv: "ring_inv s" and r': "0 \<le> r'" "r' < rg_cap s"
    and adv: "ring_dist (rg_cap s) (bb_r (rg_bb s)) r' \<le>
      ring_dist (rg_cap s) (bb_r (rg_bb s)) (bb_w (rg_bb s))"
    and q: "queue_ok (rg_cap s) r' q (bb_w (rg_bb s))" "queue_span (rg_cap s) r' q < rg_cap s"
    and snap: "\<exists>pre post. q = pre @ post \<and> queue_ok (rg_cap s) r' pre (rg_snap s)"
    and sub: "set q \<subseteq> set (rg_queue s)" and con: "rg_published s = con @ q"
  shows "ring_inv (s\<lparr>rg_bb := (rg_bb s)\<lparr>bb_r := r'\<rparr>, rg_queue := q, rg_consumed := con\<rparr>)"
proof -
  have "ring_dist (rg_cap s) (rg_known_r s) r' \<le> ring_dist (rg_cap s) (rg_known_r s) (bb_w (rg_bb s))"
    by (rule reader_advance [OF ring_inv_facts(6,7,2,3,4,5) [OF inv] r' ring_inv_parts(1) [OF inv] adv])
  then show ?thesis
    using inv r' q snap sub con unfolding ring_inv_def bb_wf_def by auto
qed

lemma inv_skip:
  assumes inv: "ring_inv s" and ne: "bb_r (rg_bb s) \<noteq> rg_snap s"
    and tail: "rg_cap s - bb_r (rg_bb s) < sizeof_serialize_hdr"
  shows "ring_inv (s\<lparr>rg_bb := (rg_bb s)\<lparr>bb_r := 0\<rparr>\<rparr>)"
proof -
  let ?cap = "rg_cap s" and ?r = "bb_r (rg_bb s)" and ?w = "bb_w (rg_bb s)"
  note facts = ring_inv_facts [OF inv]
  obtain m ms pre post where q: "rg_queue s = m # ms" "ms = pre @ post" "msg_ok ?cap ?r m"
    "queue_ok ?cap (wrap_pos ?cap (m_end m)) pre (rg_snap s)"
    "queue_ok ?cap (wrap_pos ?cap (m_end m)) ms ?w"
    using reader_has_record [OF inv ne] .
  let ?e = "wrap_pos ?cap (m_end m)"
  have e: "0 \<le> ?e" "?e < ?cap" using q(3) wrap_pos_range [of "m_end m" ?cap] facts by (auto simp: msg_ok_def)
  have h: "hdr_pos ?cap ?r = 0" "hdr_pos ?cap 0 = 0"
    using tail facts by (simp_all add: hdr_pos_def)
  have "seg_between ?cap ?r 0 ?e (0, 48)" using q(3) h by (auto simp: msg_ok_def c_arith)
  then have re: "ring_dist ?cap ?r 0 < ring_dist ?cap ?r ?e" by (auto simp: seg_between_def)
  have dist0: "ring_dist ?cap 0 x = ring_dist ?cap ?r x - ring_dist ?cap ?r 0"
    if "0 \<le> x" "x < ?cap" "ring_dist ?cap ?r 0 \<le> ring_dist ?cap ?r x" for x
    by (rule ring_dist_sub) (use facts that in auto)
  have "seg_between ?cap 0 0 ?e sg" if "sg \<in> set (m_segs m)" for sg
    using that q(3) h dist0 e re by (auto simp: msg_ok_def seg_between_def)
  with q(3) h have m0: "msg_ok ?cap 0 m" by (auto simp: msg_ok_def)
  have "queue_span ?cap ?r (m # ms) = ring_dist ?cap ?r ?w"
    using queue_dist [OF ring_inv_parts(2,3) [OF inv]] facts q(1) by simp
  moreover have "0 \<le> queue_span ?cap ?e ms" by (rule queue_span_nonneg [OF q(5)]) (use e facts in auto)
  ultimately have rw: "ring_dist ?cap ?r 0 \<le> ring_dist ?cap ?r ?w" using re by simp
  have span0: "queue_span ?cap 0 (m # ms) < ?cap"
    using ring_inv_parts(3) [OF inv] q(1) dist0 [OF e] re ring_dist_range [of ?r ?cap 0] facts by auto
  have "ring_inv (s\<lparr>rg_bb := (rg_bb s)\<lparr>bb_r := 0\<rparr>, rg_queue := m # ms, rg_consumed := rg_consumed s\<rparr>)"
  proof (rule inv_reader_move [OF inv _ _ rw])
    show "\<exists>pre post. m # ms = pre @ post \<and> queue_ok ?cap 0 pre (rg_snap s)"
      using q m0 by (intro exI [of _ "m # pre"] exI [of _ post]) simp
  qed (use q m0 span0 facts ring_inv_parts(7) [OF inv] in auto)
  moreover have "s\<lparr>rg_bb := (rg_bb s)\<lparr>bb_r := 0\<rparr>, rg_queue := m # ms, rg_consumed := rg_consumed s\<rparr> =
      s\<lparr>rg_bb := (rg_bb s)\<lparr>bb_r := 0\<rparr>\<rparr>"
    using q(1) by (cases s) simp
  ultimately show ?thesis by simp
qed

lemma inv_consume:
  assumes inv: "ring_inv s" and ne: "bb_r (rg_bb s) \<noteq> rg_snap s"
    and qs: "rg_queue s = m # ms"
    and mv: "haclog_bytes_buffer_r_move (rg_bb s) (m_end m) p = (p', b', ret)"
  shows "ring_inv (s\<lparr>rg_bb := b', rg_queue := ms, rg_consumed := rg_consumed s @ [m]\<rparr>)"
proof -
  let ?cap = "rg_cap s" and ?r = "bb_r (rg_bb s)" and ?w = "bb_w (rg_bb s)"
  let ?e = "wrap_pos ?cap (m_end m)"
  note facts = ring_inv_facts [OF inv]
  obtain pre post where q: "ms = pre @ post" "msg_ok ?cap ?r m"
    "queue_ok ?cap ?e pre (rg_snap s)" "queue_ok ?cap ?e ms ?w"
    using reader_has_record [OF inv ne] qs by (metis list.inject)
  have e: "0 \<le> ?e" "?e < ?cap" "0 \<le> m_end m" "m_end m \<le> ?cap"
    using q(2) wrap_pos_range [of "m_end m" ?cap] facts by (auto simp: msg_ok_def)
  have b': "b' = (rg_bb s)\<lparr>bb_r := ?e\<rparr>"
    using mv e by (auto simp: haclog_bytes_buffer_r_move_def wrap_pos_def split: if_splits)
  have "queue_span ?cap ?r (m # ms) = ring_dist ?cap ?r ?w"
    using queue_dist [OF ring_inv_parts(2,3) [OF inv]] facts qs by simp
  moreover have "0 \<le> queue_span ?cap ?e ms" by (rule queue_span_nonneg [OF q(4)]) (use e facts in auto)
  ultimately have re: "ring_dist ?cap ?r ?e \<le> ring_dist ?cap ?r ?w"
    and span: "queue_span ?cap ?e ms < ?cap"
    using ring_inv_parts(3) [OF inv] qs ring_dist_range [of ?r ?cap ?e] facts e by auto
  show ?thesis unfolding b'
    by (rule inv_reader_move [OF inv e(1,2) re q(4) span])
       (use q qs ring_inv_parts(7) [OF inv] in auto)
qed

lemma ring_step_inv: "ring_step s t \<Longrightarrow> ring_inv s \<Longrightarrow> ring_inv t"
  by (induction rule: ring_step.induct)
     (blast intro: inv_begin inv_fetch inv_reload inv_reject inv_poke inv_publish inv_snapshot
       inv_skip inv_consume)+

lemma ring_init_inv:
  "256 \<le> cap \<Longrightarrow> cap < 2147483648 \<Longrightarrow> int (length blk) = cap \<Longrightarrow> ring_inv (ring_init blk cap)"
  by (simp add: ring_inv_def ring_init_def bb_wf_def)

section \<open>Refinement of a queue\<close>

text \<open>
  What the ring promises the two threads: an unbounded first-in first-out queue of records. Its
  state is the contents of the pending and of the delivered records.
\<close>

record fifo =
  pending :: "char list list list"
  delivered :: "char list list list"

inductive fifo_step :: "fifo \<Rightarrow> fifo \<Rightarrow> bool" where
  fifo_put: "fifo_step f (f\<lparr>pending := pending f @ [x]\<rparr>)"
| fifo_get: "pending f = x # xs \<Longrightarrow> fifo_step f (f\<lparr>pending := xs, delivered := delivered f @ [x]\<rparr>)"

definition fifo_start :: "fifo \<Rightarrow> bool" where
  "fifo_start f \<longleftrightarrow> pending f = [] \<and> delivered f = []"

text \<open>
  The abstraction reads the pending records out of the block, where the backend will find them.
\<close>

definition ring_fifo :: "ring \<Rightarrow> fifo" where
  "ring_fifo s =
     \<lparr>pending = map (\<lambda>m. map (seg_data (bb_buffer (rg_bb s))) (m_segs m)) (rg_queue s),
      delivered = map m_data (rg_consumed s)\<rparr>"

lemma ring_fifo_inv: "ring_inv s \<Longrightarrow>
    ring_fifo s = \<lparr>pending = map m_data (rg_queue s), delivered = map m_data (rg_consumed s)\<rparr>"
  by (auto simp: ring_fifo_def ring_inv_parts(6))

lemma ring_sim_step:
  assumes inv: "ring_inv s" and st: "ring_step s t"
  shows "ring_fifo t = ring_fifo s \<or> fifo_step (ring_fifo s) (ring_fifo t)"
  unfolding ring_fifo_inv [OF inv] ring_fifo_inv [OF ring_step_inv [OF st inv]]
  using st
proof cases
  case (ring_publish segs lw p p' b' ret msg)
  have "fifo_step \<lparr>pending = map m_data (rg_queue s), delivered = map m_data (rg_consumed s)\<rparr>
     (\<lparr>pending = map m_data (rg_queue s), delivered = map m_data (rg_consumed s)\<rparr>
      \<lparr>pending := map m_data (rg_queue s) @ [m_data msg]\<rparr>)"
    using fifo_put [of "\<lparr>pending = map m_data (rg_queue s), delivered = map m_data (rg_consumed s)\<rparr>"]
    by simp
  with ring_publish show "\<lparr>pending = map m_data (rg_queue t), delivered = map m_data (rg_consumed t)\<rparr> =
      \<lparr>pending = map m_data (rg_queue s), delivered = map m_data (rg_consumed s)\<rparr> \<or>
    fifo_step \<lparr>pending = map m_data (rg_queue s), delivered = map m_data (rg_consumed s)\<rparr>
      \<lparr>pending = map m_data (rg_queue t), delivered = map m_data (rg_consumed t)\<rparr>"
    by simp
next
  case (ring_consume m ms p p' b' ret)
  then show "\<lparr>pending = map m_data (rg_queue t), delivered = map m_data (rg_consumed t)\<rparr> =
      \<lparr>pending = map m_data (rg_queue s), delivered = map m_data (rg_consumed s)\<rparr> \<or>
    fifo_step \<lparr>pending = map m_data (rg_queue s), delivered = map m_data (rg_consumed s)\<rparr>
      \<lparr>pending = map m_data (rg_queue t), delivered = map m_data (rg_consumed t)\<rparr>"
    using fifo_get [of "\<lparr>pending = map m_data (rg_queue s), delivered = map m_data (rg_consumed s)\<rparr>"
        "m_data m" "map m_data ms"]
    by simp
qed auto

interpretation spsc: forward_simulation ring_start ring_step ring_inv ring_fifo fifo_start fifo_step
proof unfold_locales
  show "ring_inv s" if "ring_start s" for s
    using that by (auto simp: ring_start_def intro: ring_init_inv)
  show "ring_inv t" if "ring_inv s" "ring_step s t" for s t
    using that by (blast intro: ring_step_inv)
  show "fifo_start (ring_fifo s)" if "ring_start s" for s
    using that by (auto simp: ring_start_def ring_init_def ring_fifo_def fifo_start_def)
  show "ring_fifo t = ring_fifo s \<or> fifo_step (ring_fifo s) (ring_fifo t)"
    if "ring_inv s" "ring_step s t" for s t
    using that by (rule ring_sim_step)
qed

end
