(* ===== verification/Haclog_Ring_Props.thy ===== *)
theory Haclog_Ring_Props
  imports Haclog_Ring_Inv
begin

text \<open>
  The properties of the byte ring: what one request for room gives, and what the two threads can
  rely on in every reachable state. \<open>ring_demo\<close> is a reachable state with one record published,
  the concrete input of the witnesses.
\<close>

section \<open>A run with one record\<close>

definition demo_block :: block where
  "demo_block = replicate 512 NUL"

definition demo_segs :: "seg list" where
  "demo_segs = [(0, 48), (48, 8), (56, 0), (56, 128)]"

definition ring_demo_busy :: ring where
  "ring_demo_busy = (ring_init demo_block 512)\<lparr>rg_writer := Writer_Busy [] demo_segs 184\<rparr>"

definition demo_msg :: message where
  "demo_msg = \<lparr>m_segs = demo_segs, m_end = 184, m_data = map (seg_data demo_block) demo_segs\<rparr>"

definition ring_demo :: ring where
  "ring_demo =
     \<lparr>rg_bb = \<lparr>bb_buffer = demo_block, bb_capacity = 512, bb_w = 184, bb_r = 0\<rparr>, rg_known_r = 0,
      rg_writer = Writer_Idle, rg_snap = 184, rg_queue = [demo_msg], rg_published = [demo_msg],
      rg_consumed = []\<rparr>"

lemma ring_demo_start: "ring_reachable (ring_init demo_block 512)"
  by (rule run_start) (auto simp: ring_start_def demo_block_def intro!: exI [of _ "replicate 512 NUL"])

lemma ring_demo_fetch:
  assumes "ring_reachable ((ring_init demo_block 512)\<lparr>rg_writer := Writer_Busy (n # ns) segs lw\<rparr>)"
    and "0 \<le> lw" "0 \<le> n" "n \<le> 128" "lw + n < 512"
  shows "ring_reachable ((ring_init demo_block 512)\<lparr>rg_writer := Writer_Busy ns (segs @ [(lw, n)]) (lw + n)\<rparr>)"
proof -
  have "snd (haclog_bytes_buffer_w_fc (rg_bb (ring_init demo_block 512)) n 0 lw p) = lw" for p
    using assms by (simp add: haclog_bytes_buffer_w_fc_def ring_init_def c_arith)
  then show ?thesis
    using run_step [OF assms(1) ring_fetch [where p = undefined and pos = lw]] assms
    by (simp add: ring_init_def)
qed

lemma ring_demo_busy_reachable: "ring_reachable ring_demo_busy"
proof -
  have "ring_reachable ((ring_init demo_block 512)\<lparr>rg_writer := Writer_Busy [48, 8, 0, 128] [] 0\<rparr>)"
    using run_step [OF ring_demo_start ring_begin [where params = 8 and extra = 0]]
    by (simp add: ring_init_def c_arith)
  from ring_demo_fetch [OF this] have
    "ring_reachable ((ring_init demo_block 512)\<lparr>rg_writer := Writer_Busy [8, 0, 128] [(0, 48)] 48\<rparr>)"
    by simp
  from ring_demo_fetch [OF this] have
    "ring_reachable ((ring_init demo_block 512)\<lparr>rg_writer := Writer_Busy [0, 128] [(0, 48), (48, 8)] 56\<rparr>)"
    by simp
  from ring_demo_fetch [OF this] have
    "ring_reachable ((ring_init demo_block 512)\<lparr>rg_writer := Writer_Busy [128] [(0, 48), (48, 8), (56, 0)] 56\<rparr>)"
    by simp
  from ring_demo_fetch [OF this] show ?thesis
    by (simp add: ring_demo_busy_def demo_segs_def)
qed

lemma ring_demo_reachable: "ring_reachable ring_demo"
proof -
  have "ring_step ring_demo_busy (ring_demo\<lparr>rg_snap := 0\<rparr>)"
    using ring_publish [of ring_demo_busy demo_segs 184 undefined undefined
        "\<lparr>bb_buffer = demo_block, bb_capacity = 512, bb_w = 184, bb_r = 0\<rparr>" 0 demo_msg]
    by (simp add: ring_demo_busy_def ring_demo_def ring_init_def demo_msg_def
        haclog_bytes_buffer_w_move_def)
  from run_step [OF ring_demo_busy_reachable this] have "ring_reachable (ring_demo\<lparr>rg_snap := 0\<rparr>)" .
  from run_step [OF this ring_snapshot] show ?thesis by (simp add: ring_demo_def)
qed

text \<open>The next record, its header fetched, while the first is still pending.\<close>

definition ring_demo_next :: ring where
  "ring_demo_next = ring_demo\<lparr>rg_writer := Writer_Busy [8, 0, 128] [(184, 48)] 232\<rparr>"

lemma ring_demo_next_reachable: "ring_reachable ring_demo_next"
proof -
  have "ring_reachable (ring_demo\<lparr>rg_writer := Writer_Busy [48, 8, 0, 128] [] 184\<rparr>)"
    using run_step [OF ring_demo_reachable ring_begin [where params = 8 and extra = 0]]
    by (simp add: ring_demo_def c_arith)
  from run_step [OF this ring_fetch [where p = undefined and pos = 184 and n = 48]]
  show ?thesis
    by (simp add: ring_demo_next_def ring_demo_def haclog_bytes_buffer_w_fc_def c_arith)
qed

section \<open>Properties\<close>

text \<open>
  C5: A published record is never overwritten before the backend consumes it: in every reachable
  interleaving of the logging thread and the backend, each of the record's four segments still holds
  the bytes it held when the record was published.
\<close>

theorem published_records_intact:
  assumes "ring_reachable s" and "m \<in> set (rg_queue s)"
  shows "map (seg_data (bb_buffer (rg_bb s))) (m_segs m) = m_data m"
  using ring_inv_parts(6) [OF spsc.run_inv [OF assms(1)] assms(2)] by simp

theorem published_records_intact_witness:
  "demo_msg \<in> set (rg_queue ring_demo) \<and>
   map (seg_data (bb_buffer (rg_bb ring_demo))) (m_segs demo_msg) = m_data demo_msg"
proof -
  have m: "demo_msg \<in> set (rg_queue ring_demo)" by (simp add: ring_demo_def)
  from published_records_intact [OF ring_demo_reachable m] m show ?thesis by simp
qed



text \<open>
  C7: When the backend's reader position differs from the writer position it loaded, there is a
  record to consume, and its header is where the backend looks: at the reader position, or at 0
  when fewer bytes than a header remain before the end of the block.
\<close>

theorem backend_finds_header:
  assumes "ring_reachable s" and "bb_r (rg_bb s) \<noteq> rg_snap s"
  shows "\<exists>m ms. rg_queue s = m # ms \<and>
    hd (m_segs m) =
      (if rg_cap s - bb_r (rg_bb s) < sizeof_serialize_hdr then 0 else bb_r (rg_bb s),
       sizeof_serialize_hdr)"
  by (rule reader_has_record [OF spsc.run_inv [OF assms(1)] assms(2)])
     (auto simp: msg_ok_def hdr_pos_def)

theorem backend_finds_header_witness:
  "bb_r (rg_bb ring_demo) \<noteq> rg_snap ring_demo \<and>
   (\<exists>m ms. rg_queue ring_demo = m # ms \<and> hd (m_segs m) = (0, sizeof_serialize_hdr))"
proof -
  have ne: "bb_r (rg_bb ring_demo) \<noteq> rg_snap ring_demo" by (simp add: ring_demo_def)
  from backend_finds_header [OF ring_demo_reachable ne] ne show ?thesis
    by (simp add: ring_demo_def c_arith)
qed

text \<open>
  C8: The positions tell an empty ring from a full one: reader and writer position agree exactly
  when no record is pending.
\<close>

theorem positions_agree_iff_empty:
  assumes "ring_reachable s"
  shows "bb_r (rg_bb s) = bb_w (rg_bb s) \<longleftrightarrow> rg_queue s = []"
  using ring_inv_facts [OF spsc.run_inv [OF assms]] ring_inv_parts(2,3) [OF spsc.run_inv [OF assms]]
  by (intro queue_empty_iff)

theorem positions_agree_iff_empty_witness:
  "(bb_r (rg_bb ring_demo) = bb_w (rg_bb ring_demo)) = (rg_queue ring_demo = [])"
  by (rule positions_agree_iff_empty [OF ring_demo_reachable])

text \<open>
  C9: The bytes the logging thread holds for the record it is writing are inside the block and
  disjoint from every record the backend has not consumed, whatever reader position the logging
  thread last loaded.
\<close>

theorem held_bytes_disjoint_from_pending:
  assumes "ring_reachable s" and "rg_writer s = Writer_Busy ns segs lw" and "sg \<in> set segs"
    and "m \<in> set (rg_queue s)" and "sg' \<in> set (m_segs m)"
  shows "0 \<le> fst sg \<and> fst sg + snd sg \<le> rg_cap s \<and>
    {fst sg ..< fst sg + snd sg} \<inter> {fst sg' ..< fst sg' + snd sg'} = {}"
proof -
  note inv = spsc.run_inv [OF assms(1)]
  have "writer_ok (rg_cap s) (rg_known_r s) (bb_w (rg_bb s)) (Writer_Busy ns segs lw)"
    using ring_inv_parts(5) [OF inv] unfolding assms(2) .
  with assms(3) have "0 \<le> fst sg" "fst sg + snd sg \<le> rg_cap s" by (auto simp: seg_between_def)
  with writer_bytes_free [OF inv assms(2,3) _ _ assms(4,5)] show ?thesis
    unfolding disjoint_iff atLeastLessThan_iff by blast
qed

theorem held_bytes_disjoint_from_pending_witness:
  "(184::int, 48::int) \<in> set [(184, 48)] \<and> {184 ..< 232} \<inter> {0 ..< 48} = ({} :: int set) \<and>
   0 \<le> (184::int) \<and> 184 + (48::int) \<le> rg_cap ring_demo_next"
proof -
  have w: "rg_writer ring_demo_next = Writer_Busy [8, 0, 128] [(184, 48)] 232"
    by (simp add: ring_demo_next_def)
  have m: "demo_msg \<in> set (rg_queue ring_demo_next)" "(0, 48) \<in> set (m_segs demo_msg)"
    by (simp_all add: ring_demo_next_def ring_demo_def demo_msg_def demo_segs_def)
  have sg: "(184::int, 48::int) \<in> set [(184, 48)]" by simp
  from held_bytes_disjoint_from_pending [OF ring_demo_next_reachable w sg m] show ?thesis
    by simp
qed

end
