(* ===== verification/Haclog_Printf_Spec.thy ===== *)
theory Haclog_Printf_Spec
  imports Haclog_Bytes_Buffer
begin

text \<open>
  The first half of \<open>haclog_vsprintf.c\<close>: reading a format string into the specifier table of a
  printf primitive, once per log statement. The code walks the string twice, in
  \<open>haclog_printf_num_params\<close> to size the table and in \<open>haclog_printf_spec_fillup\<close> to fill it.
  A \<open>const char *\<close> into the format is the suffix it points at. Modelled as built with \<open>NDEBUG\<close>, where
  \<open>haclog_debug_break\<close> does nothing.
\<close>

section \<open>Constants and tables\<close>

definition HACLOG_PRINTF_SPEC_DYNAMIC :: int where
  "HACLOG_PRINTF_SPEC_DYNAMIC = - 1"

text \<open>\<open>HACLOG_PRINTF_LENGTH_*\<close>: the modifier's characters, the first in the low byte.\<close>

definition HACLOG_PRINTF_LENGTH_none :: int where "HACLOG_PRINTF_LENGTH_none = 0"
definition HACLOG_PRINTF_LENGTH_hh :: int where "HACLOG_PRINTF_LENGTH_hh = 0x6868"
definition HACLOG_PRINTF_LENGTH_h :: int where "HACLOG_PRINTF_LENGTH_h = 0x68"
definition HACLOG_PRINTF_LENGTH_l :: int where "HACLOG_PRINTF_LENGTH_l = 0x6C"
definition HACLOG_PRINTF_LENGTH_ll :: int where "HACLOG_PRINTF_LENGTH_ll = 0x6C6C"
definition HACLOG_PRINTF_LENGTH_j :: int where "HACLOG_PRINTF_LENGTH_j = 0x6A"
definition HACLOG_PRINTF_LENGTH_z :: int where "HACLOG_PRINTF_LENGTH_z = 0x7A"
definition HACLOG_PRINTF_LENGTH_t :: int where "HACLOG_PRINTF_LENGTH_t = 0x74"
definition HACLOG_PRINTF_LENGTH_L :: int where "HACLOG_PRINTF_LENGTH_L = 0x4C"

lemmas length_codes =
  HACLOG_PRINTF_LENGTH_none_def HACLOG_PRINTF_LENGTH_hh_def HACLOG_PRINTF_LENGTH_h_def
  HACLOG_PRINTF_LENGTH_l_def HACLOG_PRINTF_LENGTH_ll_def HACLOG_PRINTF_LENGTH_j_def
  HACLOG_PRINTF_LENGTH_z_def HACLOG_PRINTF_LENGTH_t_def HACLOG_PRINTF_LENGTH_L_def

definition HACLOG_PRINTF_FLAGS_LEFT :: int where "HACLOG_PRINTF_FLAGS_LEFT = 0x01"
definition HACLOG_PRINTF_FLAGS_PLUS :: int where "HACLOG_PRINTF_FLAGS_PLUS = 0x02"
definition HACLOG_PRINTF_FLAGS_SPACE :: int where "HACLOG_PRINTF_FLAGS_SPACE = 0x04"
definition HACLOG_PRINTF_FLAGS_SPECIAL :: int where "HACLOG_PRINTF_FLAGS_SPECIAL = 0x08"
definition HACLOG_PRINTF_FLAGS_ZEROPAD :: int where "HACLOG_PRINTF_FLAGS_ZEROPAD = 0x10"

datatype format_type =
    HACLOG_FT_NONE
  | HACLOG_FT_STR
  | HACLOG_FT_DOUBLE
  | HACLOG_FT_LONG_DOUBLE
  | HACLOG_FT_SIZE
  | HACLOG_FT_PTR
  | HACLOG_FT_PTRDIFF
  | HACLOG_FT_CHAR
  | HACLOG_FT_UCHAR
  | HACLOG_FT_UBYTE
  | HACLOG_FT_BYTE
  | HACLOG_FT_USHORT
  | HACLOG_FT_SHORT
  | HACLOG_FT_UINT
  | HACLOG_FT_INT
  | HACLOG_FT_ULONG
  | HACLOG_FT_LONG
  | HACLOG_FT_LONGLONG
  | HACLOG_FT_ULONGLONG

record printf_spec =
  sp_pos_begin :: int
  sp_pos_end :: int
  sp_width :: int
  sp_precision :: int
  sp_length :: int
  sp_flags :: int
  sp_type :: char
  sp_fmt_type :: format_type

definition spec_zero :: printf_spec where
  "spec_zero = \<lparr>sp_pos_begin = 0, sp_pos_end = 0, sp_width = 0, sp_precision = 0, sp_length = 0,
     sp_flags = 0, sp_type = NUL, sp_fmt_type = HACLOG_FT_NONE\<rparr>"

record printf_loc =
  loc_file :: string
  loc_func :: string
  loc_line :: int
  loc_level :: int

record printf_primitive =
  pr_fmt :: string
  pr_fmt_len :: int
  pr_num_params :: nat
  pr_num_args :: nat
  pr_loc :: printf_loc
  pr_specs :: "printf_spec list"
  pr_param_size :: int

definition sizeof_placeholder :: int where
  "sizeof_placeholder = 8"

definition sizeof_long_double :: int where
  "sizeof_long_double = 16"

section \<open>Character classes and numbers\<close>

definition haclog_printf_is_flags :: "char \<Rightarrow> bool" where
  "haclog_printf_is_flags c \<longleftrightarrow>
     c = CHR ''-'' \<or> c = CHR ''+'' \<or> c = CHR '' '' \<or> c = CHR ''#'' \<or> c = CHR ''0''"

definition haclog_printf_is_digit :: "char \<Rightarrow> bool" where
  "haclog_printf_is_digit c \<longleftrightarrow>
     (of_char c :: int) \<ge> of_char (CHR ''0'') \<and> (of_char c :: int) \<le> of_char (CHR ''9'')"

definition haclog_printf_is_length :: "char \<Rightarrow> bool" where
  "haclog_printf_is_length c \<longleftrightarrow>
     c = CHR ''h'' \<or> c = CHR ''l'' \<or> c = CHR ''j'' \<or> c = CHR ''z'' \<or> c = CHR ''t'' \<or> c = CHR ''L''"

definition haclog_printf_is_type :: "char \<Rightarrow> bool" where
  "haclog_printf_is_type c \<longleftrightarrow>
     c = CHR ''d'' \<or> c = CHR ''i'' \<or> c = CHR ''u'' \<or> c = CHR ''o'' \<or> c = CHR ''x'' \<or>
     c = CHR ''X'' \<or> c = CHR ''f'' \<or> c = CHR ''F'' \<or> c = CHR ''e'' \<or> c = CHR ''E'' \<or>
     c = CHR ''g'' \<or> c = CHR ''G'' \<or> c = CHR ''a'' \<or> c = CHR ''A'' \<or> c = CHR ''c'' \<or>
     c = CHR ''s'' \<or> c = CHR ''p'' \<or> c = CHR ''n''"

text \<open>
  The digit loop of \<open>haclog_printf_get_num\<close>. The accumulator is a C \<open>int\<close>; where it would overflow
  (undefined behaviour) the model wraps, as two's complement machines do.
\<close>

fun get_num_digits :: "int \<Rightarrow> string \<Rightarrow> int \<times> string" where
  "get_num_digits ret [] = (ret, [])"
| "get_num_digits ret (c # cs) =
     (if haclog_printf_is_digit c
      then get_num_digits (c_int (10 * ret + (of_char c - of_char (CHR ''0'')))) cs
      else (ret, c # cs))"

definition haclog_printf_get_num :: "string \<Rightarrow> int \<times> string" where
  "haclog_printf_get_num fmt =
     (if deref fmt = CHR ''*'' then (HACLOG_PRINTF_SPEC_DYNAMIC, tl fmt) else get_num_digits 0 fmt)"

section \<open>Counting parameters\<close>

text \<open>The length loop: \<open>length\<close> is an \<open>int\<close> that takes the modifier's characters byte by byte.\<close>

fun num_params_length :: "int \<Rightarrow> string \<Rightarrow> haclog_error + string" where
  "num_params_length len [] = Inr []"
| "num_params_length len (c # cs) =
     (if haclog_printf_is_length c then
        (if len > push_bit 8 1 then Inl HACLOG_ERR_PRINTF_SPEC_LENGTH
         else num_params_length
                (if len = 0 then of_char c else len OR push_bit 8 (of_char c)) cs)
      else Inr (c # cs))"

text \<open>
  One conversion, from behind its \<open>%\<close>: the dynamic arguments it counts before it ends or fails, and
  the rest of the string or the error.
\<close>

definition num_params_conv :: "string \<Rightarrow> nat \<times> (haclog_error + string)" where
  "num_params_conv fmt =
     (let fmt = dropWhile haclog_printf_is_flags fmt;
          (width, fmt) = haclog_printf_get_num fmt;
          args = (if width = HACLOG_PRINTF_SPEC_DYNAMIC then 1 else 0);
          (args, fmt) =
            (if deref fmt = CHR ''.'' then
               (let (precision, fmt) = haclog_printf_get_num (tl fmt)
                in (if precision = HACLOG_PRINTF_SPEC_DYNAMIC then args + 1 else args, fmt))
             else (args, fmt))
      in (args,
          case num_params_length 0 fmt of
            Inl e \<Rightarrow> Inl e
          | Inr fmt \<Rightarrow>
              if \<not> haclog_printf_is_type (deref fmt) then Inl HACLOG_ERR_PRINTF_TYPE
              else Inr (tl fmt)))"

lemma get_num_digits_shorter: "length (snd (get_num_digits ret fmt)) \<le> length fmt"
proof (induction ret fmt rule: get_num_digits.induct)
  case (2 ret c cs)
  then show ?case by (cases "haclog_printf_is_digit c") (simp_all add: le_SucI)
qed simp

lemma get_num_shorter: "haclog_printf_get_num fmt = (n, rest) \<Longrightarrow> length rest \<le> length fmt"
  using get_num_digits_shorter [of 0 fmt]
  by (auto simp: haclog_printf_get_num_def split: if_splits)

lemma num_params_length_shorter: "num_params_length len fmt = Inr rest \<Longrightarrow> length rest \<le> length fmt"
proof (induction len fmt rule: num_params_length.induct)
  case (2 len c cs)
  then show ?case by (auto split: if_splits simp: le_SucI)
qed simp

lemma is_type_NUL [simp]: "\<not> haclog_printf_is_type NUL"
  by (simp add: haclog_printf_is_type_def NUL_def)

lemma deref_type_nonempty: "haclog_printf_is_type (deref fmt) \<Longrightarrow> fmt \<noteq> []"
  by auto

lemma num_params_length_error: "num_params_length len fmt = Inl e \<Longrightarrow> e = HACLOG_ERR_PRINTF_SPEC_LENGTH"
  by (induction len fmt rule: num_params_length.induct) (auto split: if_splits)

lemma num_params_conv_eq:
  assumes "haclog_printf_get_num (dropWhile haclog_printf_is_flags fmt) = (wd, f2)"
    and "haclog_printf_get_num (tl f2) = (pr, f3)"
  shows "num_params_conv fmt =
     ((if wd = HACLOG_PRINTF_SPEC_DYNAMIC then 1 else 0) +
      (if deref f2 = CHR ''.'' \<and> pr = HACLOG_PRINTF_SPEC_DYNAMIC then 1 else 0),
      case num_params_length 0 (if deref f2 = CHR ''.'' then f3 else f2) of
        Inl e \<Rightarrow> Inl e
      | Inr f5 \<Rightarrow> if haclog_printf_is_type (deref f5) then Inr (tl f5) else Inl HACLOG_ERR_PRINTF_TYPE)"
  using assms by (cases "deref f2 = CHR ''.''") (auto simp: num_params_conv_def split: sum.splits)

lemma num_params_conv_error:
  assumes "num_params_conv fmt = (k, Inl e)"
  shows "e = HACLOG_ERR_PRINTF_SPEC_LENGTH \<or> e = HACLOG_ERR_PRINTF_TYPE"
proof -
  obtain wd f2 where f2: "haclog_printf_get_num (dropWhile haclog_printf_is_flags fmt) = (wd, f2)"
    by fastforce
  obtain pr f3 where f3: "haclog_printf_get_num (tl f2) = (pr, f3)" by fastforce
  show ?thesis
    using assms unfolding num_params_conv_eq [OF f2 f3]
    by (auto split: sum.splits if_splits dest: num_params_length_error)
qed

lemma num_params_conv_shorter:
  assumes "num_params_conv fmt = (k, Inr rest)"
  shows "length rest < length fmt"
proof -
  let ?f1 = "dropWhile haclog_printf_is_flags fmt"
  have f1: "length ?f1 \<le> length fmt" by (simp add: length_dropWhile_le)
  obtain wd f2 where f2: "haclog_printf_get_num ?f1 = (wd, f2)" by fastforce
  obtain pr f3 where f3: "haclog_printf_get_num (tl f2) = (pr, f3)" by fastforce
  let ?f4 = "if deref f2 = CHR ''.'' then f3 else f2"
  have f4: "length ?f4 \<le> length fmt"
    using f1 get_num_shorter [OF f2] get_num_shorter [OF f3] by auto
  from assms f2 f3 obtain f5 where f5: "num_params_length 0 ?f4 = Inr f5"
    and "haclog_printf_is_type (deref f5)" "rest = tl f5"
    by (auto simp: num_params_conv_def Let_def split: if_splits sum.splits)
  then have "length rest < length f5" by (auto dest: deref_type_nonempty)
  with f4 num_params_length_shorter [OF f5] show ?thesis by simp
qed

function num_params_loop :: "string \<Rightarrow> nat \<Rightarrow> nat \<Rightarrow> haclog_error \<times> nat \<times> nat" where
  "num_params_loop [] num_params num_args = (HACLOG_ERR_OK, num_params, num_args)"
| "num_params_loop (c # fmt) num_params num_args =
     (if c \<noteq> CHR ''%'' then num_params_loop fmt num_params num_args
      else if deref fmt = CHR ''%'' then num_params_loop (tl fmt) num_params num_args
      else
        (case num_params_conv fmt of
           (k, Inl e) \<Rightarrow> (e, num_params, num_args + k)
         | (k, Inr rest) \<Rightarrow> num_params_loop rest (num_params + 1) (num_args + k + 1)))"
  by pat_completeness auto
termination
  by (relation "measure (\<lambda>(fmt, _, _). length fmt)")
     (auto dest: num_params_conv_shorter [OF sym])

definition haclog_printf_num_params :: "string \<Rightarrow> haclog_error \<times> nat \<times> nat" where
  "haclog_printf_num_params fmt = num_params_loop fmt 0 0"

section \<open>Filling the table\<close>

text \<open>The format type of a specifier, by its conversion character and length modifier.\<close>

definition haclog_printf_spec_fillup_ft_dt :: "printf_spec \<Rightarrow> haclog_error \<times> printf_spec" where
  "haclog_printf_spec_fillup_ft_dt spec =
     (if sp_length spec = HACLOG_PRINTF_LENGTH_none then (HACLOG_ERR_OK, spec\<lparr>sp_fmt_type := HACLOG_FT_INT\<rparr>)
      else if sp_length spec = HACLOG_PRINTF_LENGTH_hh then (HACLOG_ERR_OK, spec\<lparr>sp_fmt_type := HACLOG_FT_CHAR\<rparr>)
      else if sp_length spec = HACLOG_PRINTF_LENGTH_h then (HACLOG_ERR_OK, spec\<lparr>sp_fmt_type := HACLOG_FT_SHORT\<rparr>)
      else if sp_length spec = HACLOG_PRINTF_LENGTH_l then (HACLOG_ERR_OK, spec\<lparr>sp_fmt_type := HACLOG_FT_LONG\<rparr>)
      else if sp_length spec = HACLOG_PRINTF_LENGTH_ll then (HACLOG_ERR_OK, spec\<lparr>sp_fmt_type := HACLOG_FT_LONGLONG\<rparr>)
      else if sp_length spec = HACLOG_PRINTF_LENGTH_j then (HACLOG_ERR_OK, spec\<lparr>sp_fmt_type := HACLOG_FT_LONGLONG\<rparr>)
      else if sp_length spec = HACLOG_PRINTF_LENGTH_z then (HACLOG_ERR_OK, spec\<lparr>sp_fmt_type := HACLOG_FT_SIZE\<rparr>)
      else if sp_length spec = HACLOG_PRINTF_LENGTH_t then (HACLOG_ERR_OK, spec\<lparr>sp_fmt_type := HACLOG_FT_PTRDIFF\<rparr>)
      else (HACLOG_ERR_PRINTF_TYPE, spec))"

definition haclog_printf_spec_fillup_ft_uoxX :: "printf_spec \<Rightarrow> haclog_error \<times> printf_spec" where
  "haclog_printf_spec_fillup_ft_uoxX spec =
     (if sp_length spec = HACLOG_PRINTF_LENGTH_none then (HACLOG_ERR_OK, spec\<lparr>sp_fmt_type := HACLOG_FT_UINT\<rparr>)
      else if sp_length spec = HACLOG_PRINTF_LENGTH_hh then (HACLOG_ERR_OK, spec\<lparr>sp_fmt_type := HACLOG_FT_UCHAR\<rparr>)
      else if sp_length spec = HACLOG_PRINTF_LENGTH_h then (HACLOG_ERR_OK, spec\<lparr>sp_fmt_type := HACLOG_FT_USHORT\<rparr>)
      else if sp_length spec = HACLOG_PRINTF_LENGTH_l then (HACLOG_ERR_OK, spec\<lparr>sp_fmt_type := HACLOG_FT_ULONG\<rparr>)
      else if sp_length spec = HACLOG_PRINTF_LENGTH_ll then (HACLOG_ERR_OK, spec\<lparr>sp_fmt_type := HACLOG_FT_ULONGLONG\<rparr>)
      else if sp_length spec = HACLOG_PRINTF_LENGTH_j then (HACLOG_ERR_OK, spec\<lparr>sp_fmt_type := HACLOG_FT_ULONGLONG\<rparr>)
      else if sp_length spec = HACLOG_PRINTF_LENGTH_z then (HACLOG_ERR_OK, spec\<lparr>sp_fmt_type := HACLOG_FT_SIZE\<rparr>)
      else if sp_length spec = HACLOG_PRINTF_LENGTH_t then (HACLOG_ERR_OK, spec\<lparr>sp_fmt_type := HACLOG_FT_PTRDIFF\<rparr>)
      else (HACLOG_ERR_PRINTF_TYPE, spec))"

definition haclog_printf_spec_fillup_ft_fFeEgGaA :: "printf_spec \<Rightarrow> haclog_error \<times> printf_spec" where
  "haclog_printf_spec_fillup_ft_fFeEgGaA spec =
     (if sp_length spec = HACLOG_PRINTF_LENGTH_none then (HACLOG_ERR_OK, spec\<lparr>sp_fmt_type := HACLOG_FT_DOUBLE\<rparr>)
      else if sp_length spec = HACLOG_PRINTF_LENGTH_L then (HACLOG_ERR_OK, spec\<lparr>sp_fmt_type := HACLOG_FT_LONG_DOUBLE\<rparr>)
      else if sp_length spec = HACLOG_PRINTF_LENGTH_l then (HACLOG_ERR_PRINTF_TYPE, spec)
      else (HACLOG_ERR_PRINTF_TYPE, spec))"

definition haclog_printf_spec_fillup_ft_c :: "printf_spec \<Rightarrow> haclog_error \<times> printf_spec" where
  "haclog_printf_spec_fillup_ft_c spec =
     (if sp_length spec = HACLOG_PRINTF_LENGTH_none then (HACLOG_ERR_OK, spec\<lparr>sp_fmt_type := HACLOG_FT_CHAR\<rparr>)
      else (HACLOG_ERR_PRINTF_TYPE, spec))"

definition haclog_printf_spec_fillup_ft_s :: "printf_spec \<Rightarrow> haclog_error \<times> printf_spec" where
  "haclog_printf_spec_fillup_ft_s spec =
     (if sp_length spec = HACLOG_PRINTF_LENGTH_none then (HACLOG_ERR_OK, spec\<lparr>sp_fmt_type := HACLOG_FT_STR\<rparr>)
      else (HACLOG_ERR_PRINTF_TYPE, spec))"

definition haclog_printf_spec_fillup_ft_p :: "printf_spec \<Rightarrow> haclog_error \<times> printf_spec" where
  "haclog_printf_spec_fillup_ft_p spec =
     (if sp_length spec = HACLOG_PRINTF_LENGTH_none then (HACLOG_ERR_OK, spec\<lparr>sp_fmt_type := HACLOG_FT_PTR\<rparr>)
      else (HACLOG_ERR_PRINTF_TYPE, spec))"

text \<open>The default case returns \<open>HACLOG_FT_NONE\<close>, which is 0, the code of no error.\<close>

definition haclog_printf_spec_fillup_ft :: "printf_spec \<Rightarrow> haclog_error \<times> printf_spec" where
  "haclog_printf_spec_fillup_ft spec =
     (if sp_type spec \<in> set ''di'' then haclog_printf_spec_fillup_ft_dt spec
      else if sp_type spec \<in> set ''uoxX'' then haclog_printf_spec_fillup_ft_uoxX spec
      else if sp_type spec \<in> set ''fFeEgGaA'' then haclog_printf_spec_fillup_ft_fFeEgGaA spec
      else if sp_type spec = CHR ''c'' then haclog_printf_spec_fillup_ft_c spec
      else if sp_type spec = CHR ''s'' then haclog_printf_spec_fillup_ft_s spec
      else if sp_type spec = CHR ''p'' then haclog_printf_spec_fillup_ft_p spec
      else (HACLOG_ERR_OK, spec))"

definition haclog_printf_spec_fillup_ext :: "printf_spec \<Rightarrow> haclog_error \<times> printf_spec" where
  "haclog_printf_spec_fillup_ext spec = haclog_printf_spec_fillup_ft spec"

text \<open>Whatever the table says, only the format type changes.\<close>

lemma fillup_ft_keeps:
  "snd (haclog_printf_spec_fillup_ft_dt spec) =
     spec\<lparr>sp_fmt_type := sp_fmt_type (snd (haclog_printf_spec_fillup_ft_dt spec))\<rparr>"
  "snd (haclog_printf_spec_fillup_ft_uoxX spec) =
     spec\<lparr>sp_fmt_type := sp_fmt_type (snd (haclog_printf_spec_fillup_ft_uoxX spec))\<rparr>"
  "snd (haclog_printf_spec_fillup_ft_fFeEgGaA spec) =
     spec\<lparr>sp_fmt_type := sp_fmt_type (snd (haclog_printf_spec_fillup_ft_fFeEgGaA spec))\<rparr>"
  "snd (haclog_printf_spec_fillup_ft_c spec) =
     spec\<lparr>sp_fmt_type := sp_fmt_type (snd (haclog_printf_spec_fillup_ft_c spec))\<rparr>"
  "snd (haclog_printf_spec_fillup_ft_s spec) =
     spec\<lparr>sp_fmt_type := sp_fmt_type (snd (haclog_printf_spec_fillup_ft_s spec))\<rparr>"
  "snd (haclog_printf_spec_fillup_ft_p spec) =
     spec\<lparr>sp_fmt_type := sp_fmt_type (snd (haclog_printf_spec_fillup_ft_p spec))\<rparr>"
  by (simp_all add: haclog_printf_spec_fillup_ft_dt_def
      haclog_printf_spec_fillup_ft_uoxX_def
      haclog_printf_spec_fillup_ft_fFeEgGaA_def
      haclog_printf_spec_fillup_ft_c_def
      haclog_printf_spec_fillup_ft_s_def
      haclog_printf_spec_fillup_ft_p_def)

lemma fillup_ext_keeps:
  "snd (haclog_printf_spec_fillup_ext spec) =
     spec\<lparr>sp_fmt_type := sp_fmt_type (snd (haclog_printf_spec_fillup_ext spec))\<rparr>"
  using fillup_ft_keeps [of spec]
  by (simp add: haclog_printf_spec_fillup_ext_def haclog_printf_spec_fillup_ft_def)

lemma fillup_ext_fields [simp]:
  "sp_pos_begin (snd (haclog_printf_spec_fillup_ext spec)) = sp_pos_begin spec"
  "sp_pos_end (snd (haclog_printf_spec_fillup_ext spec)) = sp_pos_end spec"
  "sp_width (snd (haclog_printf_spec_fillup_ext spec)) = sp_width spec"
  "sp_precision (snd (haclog_printf_spec_fillup_ext spec)) = sp_precision spec"
  "sp_length (snd (haclog_printf_spec_fillup_ext spec)) = sp_length spec"
  "sp_flags (snd (haclog_printf_spec_fillup_ext spec)) = sp_flags spec"
  "sp_type (snd (haclog_printf_spec_fillup_ext spec)) = sp_type spec"
  by (subst fillup_ext_keeps, simp)+

fun spec_fillup_flags :: "int \<Rightarrow> string \<Rightarrow> int \<times> string" where
  "spec_fillup_flags flags [] = (flags, [])"
| "spec_fillup_flags flags (c # cs) =
     (if haclog_printf_is_flags c then
        spec_fillup_flags
          (if c = CHR ''-'' then flags OR HACLOG_PRINTF_FLAGS_LEFT
           else if c = CHR ''+'' then flags OR HACLOG_PRINTF_FLAGS_PLUS
           else if c = CHR '' '' then flags OR HACLOG_PRINTF_FLAGS_SPACE
           else if c = CHR ''#'' then flags OR HACLOG_PRINTF_FLAGS_SPECIAL
           else if c = CHR ''0'' then flags OR HACLOG_PRINTF_FLAGS_ZEROPAD
           else flags) cs
      else (flags, c # cs))"

text \<open>The length loop over the 16-bit field \<open>spec->length\<close>.\<close>

fun spec_fillup_length :: "int \<Rightarrow> string \<Rightarrow> haclog_error + int \<times> string" where
  "spec_fillup_length len [] = Inr (len, [])"
| "spec_fillup_length len (c # cs) =
     (if haclog_printf_is_length c then
        (if len > push_bit 8 1 then Inl HACLOG_ERR_PRINTF_SPEC_LENGTH
         else spec_fillup_length
                (if len = 0 then c_u16 (of_char c) else c_u16 (len OR push_bit 8 (of_char c))) cs)
      else Inr (len, c # cs))"

text \<open>
  One conversion: \<open>fmt\<close> is the cursor at its \<open>%\<close>, \<open>base\<close> the whole format. The result of
  \<open>haclog_printf_spec_fillup_ext\<close> is not looked at.
\<close>

definition spec_fillup_conv :: "string \<Rightarrow> string \<Rightarrow> haclog_error + printf_spec \<times> string" where
  "spec_fillup_conv base fmt =
     (let spec = spec_zero\<lparr>sp_pos_begin := c_u16 (int (length base) - int (length fmt))\<rparr>;
          (flags, fmt) = spec_fillup_flags 0 (tl fmt);
          spec = spec\<lparr>sp_flags := flags\<rparr>;
          (width, fmt) = haclog_printf_get_num fmt;
          spec = spec\<lparr>sp_width := c_s16 width\<rparr>;
          (spec, fmt) =
            (if deref fmt = CHR ''.'' then
               (let (precision, fmt) = haclog_printf_get_num (tl fmt)
                in (spec\<lparr>sp_precision := c_s16 precision\<rparr>, fmt))
             else (spec, fmt))
      in (case spec_fillup_length 0 fmt of
            Inl e \<Rightarrow> Inl e
          | Inr (len, fmt) \<Rightarrow>
              if \<not> haclog_printf_is_type (deref fmt) then Inl HACLOG_ERR_PRINTF_TYPE
              else
                (let spec = spec\<lparr>sp_length := len, sp_type := deref fmt,
                       sp_pos_end := c_u16 (int (length base) - int (length (tl fmt)))\<rparr>
                 in Inr (snd (haclog_printf_spec_fillup_ext spec), tl fmt))))"

text \<open>
  The walk behind one conversion is the walk of \<open>num_params_conv\<close>, so both stop at the same place.
\<close>

lemma spec_fillup_flags_rest: "snd (spec_fillup_flags flags fmt) = dropWhile haclog_printf_is_flags fmt"
  by (induction flags fmt rule: spec_fillup_flags.induct) auto

lemma length_char_range:
  "haclog_printf_is_length c \<Longrightarrow> 0 < (of_char c :: int) \<and> (of_char c :: int) < 256"
  by (auto simp: haclog_printf_is_length_def)

lemma or_push_bit_range: "0 \<le> (x::int) \<Longrightarrow> x < 65536 \<Longrightarrow> 0 \<le> y \<Longrightarrow> y < 256 \<Longrightarrow>
    0 \<le> (x OR push_bit 8 y) \<and> (x OR push_bit 8 y) < 65536"
proof -
  assume a: "0 \<le> x" "x < 65536" "0 \<le> y" "y < 256"
  then have "push_bit 8 y < 2 ^ 16" by (simp add: push_bit_eq_mult)
  with a have "(x OR push_bit 8 y) < 2 ^ 16" by (intro OR_upper) (auto simp: push_bit_eq_mult)
  with a show ?thesis by simp
qed

lemma spec_fillup_length_agrees:
  "0 \<le> len \<Longrightarrow> len < 65536 \<Longrightarrow>
   num_params_length len fmt =
     (case spec_fillup_length len fmt of Inl e \<Rightarrow> Inl e | Inr (len', rest) \<Rightarrow> Inr rest)"
proof (induction len fmt rule: spec_fillup_length.induct)
  case (2 len c cs)
  show ?case
  proof (cases "haclog_printf_is_length c \<and> \<not> len > push_bit 8 1")
    case True
    let ?len = "if len = 0 then of_char c else len OR push_bit 8 (of_char c)"
    have rng: "0 \<le> ?len \<and> ?len < 65536"
      using True length_char_range [of c] or_push_bit_range [of len "of_char c"] "2.prems" by auto
    then have "c_u16 ?len = ?len" by (simp add: c_u16_id)
    with "2.IH" True rng show ?thesis by (auto split: if_splits)
  next
    case False
    then show ?thesis by auto
  qed
qed simp

lemma spec_fillup_conv_eq:
  assumes "spec_fillup_flags 0 fmt = (fl, f1)"
    and "haclog_printf_get_num f1 = (wd, f2)"
    and "haclog_printf_get_num (tl f2) = (pr, f3)"
  shows "spec_fillup_conv base (c # fmt) =
     (case spec_fillup_length 0 (if deref f2 = CHR ''.'' then f3 else f2) of
        Inl e \<Rightarrow> Inl e
      | Inr (len, f5) \<Rightarrow>
          if \<not> haclog_printf_is_type (deref f5) then Inl HACLOG_ERR_PRINTF_TYPE
          else Inr (snd (haclog_printf_spec_fillup_ext
                 \<lparr>sp_pos_begin = c_u16 (int (length base) - int (length (c # fmt))),
                  sp_pos_end = c_u16 (int (length base) - int (length (tl f5))),
                  sp_width = c_s16 wd,
                  sp_precision = (if deref f2 = CHR ''.'' then c_s16 pr else 0),
                  sp_length = len, sp_flags = fl, sp_type = deref f5,
                  sp_fmt_type = HACLOG_FT_NONE\<rparr>), tl f5))"
  using assms
  by (cases "deref f2 = CHR ''.''")
    (simp_all add: spec_fillup_conv_def spec_zero_def split: sum.splits prod.splits)

lemma spec_fillup_conv_agrees:
  "snd (num_params_conv fmt) =
     (case spec_fillup_conv base (CHR ''%'' # fmt) of Inl e \<Rightarrow> Inl e | Inr (spec, rest) \<Rightarrow> Inr rest)"
proof -
  let ?f1 = "dropWhile haclog_printf_is_flags fmt"
  obtain fl where fl: "spec_fillup_flags 0 fmt = (fl, ?f1)"
    using spec_fillup_flags_rest [of 0 fmt] by (metis prod.collapse)
  obtain wd f2 where f2: "haclog_printf_get_num ?f1 = (wd, f2)" by fastforce
  obtain pr f3 where f3: "haclog_printf_get_num (tl f2) = (pr, f3)" by fastforce
  show ?thesis
    unfolding num_params_conv_eq [OF f2 f3] spec_fillup_conv_eq [OF fl f2 f3]
    by (simp add: spec_fillup_length_agrees split: sum.splits prod.splits)
qed

lemma spec_fillup_conv_shorter:
  assumes "spec_fillup_conv base (c # fmt) = Inr (spec, rest)"
  shows "length rest < length fmt"
proof -
  have "spec_fillup_conv base (CHR ''%'' # fmt) = Inr (spec, rest)"
    using assms by (simp add: spec_fillup_conv_def)
  then have "snd (num_params_conv fmt) = Inr rest" by (simp add: spec_fillup_conv_agrees [of _ base])
  then show ?thesis by (metis num_params_conv_shorter prod.collapse)
qed

text \<open>The table's first entries; entries the loop does not reach stay as \<open>malloc\<close> left them.\<close>

function spec_fillup_loop ::
  "string \<Rightarrow> nat \<Rightarrow> string \<Rightarrow> printf_spec list \<Rightarrow> haclog_error \<times> printf_spec list" where
  "spec_fillup_loop base num_params [] specs = (HACLOG_ERR_OK, specs)"
| "spec_fillup_loop base num_params (c # fmt) specs =
     (if c \<noteq> CHR ''%'' then spec_fillup_loop base num_params fmt specs
      else if deref fmt = CHR ''%'' then spec_fillup_loop base num_params (tl fmt) specs
      else if length specs \<ge> num_params then (HACLOG_ERR_OK, specs)
      else
        (case spec_fillup_conv base (c # fmt) of
           Inl e \<Rightarrow> (e, specs)
         | Inr (spec, rest) \<Rightarrow> spec_fillup_loop base num_params rest (specs @ [spec])))"
  by pat_completeness auto
termination
  by (relation "measure (\<lambda>(_, _, fmt, _). length fmt)")
     (auto dest: spec_fillup_conv_shorter)

definition haclog_printf_spec_fillup :: "string \<Rightarrow> nat \<Rightarrow> haclog_error \<times> printf_spec list" where
  "haclog_printf_spec_fillup fmt num_params = spec_fillup_loop fmt num_params fmt []"

text \<open>What evaluates the walks on a concrete format.\<close>

lemmas printf_eval =
  haclog_printf_get_num_def haclog_printf_is_flags_def haclog_printf_is_digit_def
  haclog_printf_is_length_def haclog_printf_is_type_def HACLOG_PRINTF_SPEC_DYNAMIC_def
  c_int_id c_s16_id c_u16_id c_u32_id NUL_def length_codes
  haclog_printf_spec_fillup_ext_def haclog_printf_spec_fillup_ft_def
  haclog_printf_spec_fillup_ft_dt_def haclog_printf_spec_fillup_ft_uoxX_def
  haclog_printf_spec_fillup_ft_fFeEgGaA_def haclog_printf_spec_fillup_ft_c_def
  haclog_printf_spec_fillup_ft_s_def haclog_printf_spec_fillup_ft_p_def

end
