(* ===== verification/Haclog_Primitive.thy ===== *)
theory Haclog_Primitive
  imports Haclog_Printf_Spec
begin

text \<open>
  The printf primitive of \<open>haclog_vsprintf.c\<close>: its allocation, release and generation from a format
  string, and what the table holds afterwards. The lemmas compare the two walks over the format,
  locate every specifier in it, and account for the heap on every path.
\<close>

section \<open>Operations\<close>

text \<open>
  The heap block of a primitive is \<open>Some b\<close>, where \<open>b\<close> tells whether its \<open>specs\<close> is not NULL.
\<close>

definition haclog_printf_primitive_clean :: "bool option \<Rightarrow> proc \<Rightarrow> proc" where
  "haclog_printf_primitive_clean primitive s =
     (case primitive of
        None \<Rightarrow> s
      | Some specs \<Rightarrow>
          let s = (if specs then c_free s else s)
          in c_free s)"

definition loc_zero :: printf_loc where
  "loc_zero = \<lparr>loc_file = [], loc_func = [], loc_line = 0, loc_level = 0\<rparr>"

definition haclog_printf_primitive_allocate ::
  "unit option \<Rightarrow> unit option \<Rightarrow> string \<Rightarrow> nat \<Rightarrow> nat \<Rightarrow> proc \<Rightarrow> proc \<times> printf_primitive option" where
  "haclog_printf_primitive_allocate malloc1 malloc2 fmt num_params num_args s =
     (case c_malloc malloc1 s of
        (s, None) \<Rightarrow> (set_err HACLOG_ERR_ALLOC_MEM s, None)
      | (s, Some _) \<Rightarrow>
          (let primitive = \<lparr>pr_fmt = fmt, pr_fmt_len = c_u32 (int (length fmt)),
                 pr_num_params = num_params, pr_num_args = num_args, pr_loc = loc_zero,
                 pr_specs = [], pr_param_size = 0\<rparr>
           in (case c_malloc malloc2 s of
                 (s, None) \<Rightarrow>
                   (set_err HACLOG_ERR_ALLOC_MEM (haclog_printf_primitive_clean (Some False) s), None)
               | (s, Some _) \<Rightarrow> (s, Some primitive))))"

definition haclog_printf_spec_param_size :: "printf_spec \<Rightarrow> int" where
  "haclog_printf_spec_param_size spec =
     (let param_size =
            (case sp_fmt_type spec of
               HACLOG_FT_LONG_DOUBLE \<Rightarrow> sizeof_long_double
             | _ \<Rightarrow> sizeof_placeholder);
          param_size =
            (if sp_width spec = HACLOG_PRINTF_SPEC_DYNAMIC
             then param_size + sizeof_placeholder else param_size);
          param_size =
            (if sp_precision spec = HACLOG_PRINTF_SPEC_DYNAMIC
             then param_size + sizeof_placeholder else param_size)
      in param_size)"

fun gen_param_size :: "int \<Rightarrow> printf_spec list \<Rightarrow> int" where
  "gen_param_size param_size [] = param_size"
| "gen_param_size param_size (spec # specs) =
     gen_param_size (c_u32 (param_size + haclog_printf_spec_param_size spec)) specs"

definition haclog_printf_primitive_gen ::
  "unit option \<Rightarrow> unit option \<Rightarrow> string \<Rightarrow> printf_loc option \<Rightarrow> proc \<Rightarrow> proc \<times> printf_primitive option"
  where
  "haclog_printf_primitive_gen malloc1 malloc2 fmt loc s =
     (case haclog_printf_num_params fmt of
        (ret, num_params, num_args) \<Rightarrow>
          if ret \<noteq> HACLOG_ERR_OK then (set_err ret s, None)
          else
            (case haclog_printf_primitive_allocate malloc1 malloc2 fmt num_params num_args s of
               (s, None) \<Rightarrow> (s, None)
             | (s, Some primitive) \<Rightarrow>
                 (case haclog_printf_spec_fillup fmt num_params of
                    (ret, specs) \<Rightarrow>
                      if ret \<noteq> HACLOG_ERR_OK
                      then (haclog_printf_primitive_clean (Some True) s, None)
                      else
                        (case loc of
                           None \<Rightarrow>
                             (set_err HACLOG_ERR_ARGUMENTS
                                (haclog_printf_primitive_clean (Some True) s), None)
                         | Some loc \<Rightarrow>
                             (s, Some (primitive\<lparr>pr_specs := specs, pr_loc := loc,
                                  pr_param_size := gen_param_size 0 specs\<rparr>))))))"

section \<open>The two walks agree\<close>

lemma num_params_loop_mono:
  "num_params_loop fmt n a = (e, n', a') \<Longrightarrow> n \<le> n' \<and> a + (n' - n) \<le> a'"
proof (induction fmt n a rule: num_params_loop.induct)
  case (2 c fmt n a)
  then show ?case
    by (simp split: if_splits prod.splits sum.splits) fastforce+
qed simp

lemma spec_fillup_conv_of_num_params:
  assumes "num_params_conv fmt = (k, Inr rest)"
  obtains spec where "spec_fillup_conv base (CHR ''%'' # fmt) = Inr (spec, rest)"
  using assms spec_fillup_conv_agrees [of fmt base]
  by (cases "spec_fillup_conv base (CHR ''%'' # fmt)") auto

lemma spec_fillup_loop_agrees:
  "num_params_loop fmt n a = (HACLOG_ERR_OK, n', a') \<Longrightarrow> n = length specs \<Longrightarrow>
   \<exists>specs'. spec_fillup_loop base n' fmt specs = (HACLOG_ERR_OK, specs') \<and> length specs' = n'"
proof (induction fmt n a arbitrary: specs rule: num_params_loop.induct)
  case (2 c fmt n a)
  show ?case
  proof (cases "c = CHR ''%'' \<and> deref fmt \<noteq> CHR ''%''")
    case False
    with 2 show ?thesis by auto
  next
    case True
    obtain k r where kr: "num_params_conv fmt = (k, r)" by fastforce
    show ?thesis
    proof (cases r)
      case (Inl e)
      with True kr "2.prems" show ?thesis
        by (auto dest: num_params_conv_error)
    next
      case (Inr rest)
      with kr obtain spec where spec: "spec_fillup_conv base (CHR ''%'' # fmt) = Inr (spec, rest)"
        using spec_fillup_conv_of_num_params by blast
      from True kr Inr "2.prems"
      have step: "num_params_loop rest (n + 1) (a + k + 1) = (HACLOG_ERR_OK, n', a')" by simp
      then have "n < n'" using num_params_loop_mono by fastforce
      have "\<exists>specs'. spec_fillup_loop base n' rest (specs @ [spec]) = (HACLOG_ERR_OK, specs') \<and>
          length specs' = n'"
        using True kr Inr step "2.prems" by (intro "2.IH"(3)) auto
      with True spec \<open>n < n'\<close> "2.prems" show ?thesis by simp
    qed
  qed
qed simp

section \<open>Where the specifiers are\<close>

text \<open>Text with no conversion in it: plain characters and \<open>%%\<close>.\<close>

definition no_conv :: "string \<Rightarrow> bool" where
  "no_conv s \<longleftrightarrow> haclog_printf_num_params s = (HACLOG_ERR_OK, 0, 0)"

lemma num_params_loop_literal:
  "num_params_loop gap n a = (HACLOG_ERR_OK, n, a) \<Longrightarrow>
   num_params_loop (gap @ s) n a = num_params_loop s n a"
proof (induction gap n a rule: num_params_loop.induct)
  case (2 c fmt n a)
  show ?case
  proof (cases "c = CHR ''%'' \<and> deref fmt \<noteq> CHR ''%''")
    case True
    with "2.prems" obtain k rest where "num_params_loop rest (n + 1) (a + k + 1) = (HACLOG_ERR_OK, n, a)"
      by (auto split: prod.splits sum.splits dest: num_params_conv_error)
    from num_params_loop_mono [OF this] show ?thesis by simp
  next
    case False
    with 2 show ?thesis by (cases fmt) (auto simp: NUL_def split: if_splits)
  qed
qed simp

lemma num_params_loop_shift:
  "num_params_loop fmt n a = (e, n', a') \<Longrightarrow>
   num_params_loop fmt (n + i) (a + j) = (e, n' + i, a' + j)"
proof (induction fmt n a rule: num_params_loop.induct)
  case (2 c fmt n a)
  then show ?case
    by (simp split: if_splits prod.splits sum.splits)
      (metis (no_types, lifting) add.commute add.left_commute add_Suc_right)+
qed simp

lemma no_conv_append: "no_conv s \<Longrightarrow> no_conv (s @ t) \<longleftrightarrow> no_conv t"
  by (simp add: no_conv_def haclog_printf_num_params_def num_params_loop_literal)

lemma no_conv_simps [simp]:
  "no_conv []" "c \<noteq> CHR ''%'' \<Longrightarrow> no_conv [c]" "no_conv [CHR ''%'', CHR ''%'']"
  by (simp_all add: no_conv_def haclog_printf_num_params_def)

text \<open>
  A table covers a format from a position on when its specifiers lie in the format in order, without
  overlap, each starting at a \<open>%\<close> and ending behind its conversion character, and what lies
  between two of them, and behind the last, has no conversion in it.
\<close>

fun specs_cover :: "string \<Rightarrow> nat \<Rightarrow> printf_spec list \<Rightarrow> bool" where
  "specs_cover fmt pos [] \<longleftrightarrow> pos \<le> length fmt \<and> no_conv (drop pos fmt)"
| "specs_cover fmt pos (spec # specs) \<longleftrightarrow>
     (let b = nat (sp_pos_begin spec); e = nat (sp_pos_end spec)
      in pos \<le> b \<and> b + 1 < e \<and> e \<le> length fmt \<and> sp_pos_begin spec \<ge> 0 \<and> sp_pos_end spec \<ge> 0 \<and>
         no_conv (take (b - pos) (drop pos fmt)) \<and>
         fmt ! b = CHR ''%'' \<and> fmt ! (e - 1) = sp_type spec \<and>
         haclog_printf_is_type (sp_type spec) \<and> specs_cover fmt e specs)"

lemma get_num_digits_suffix: "get_num_digits ret fmt = (n, rest) \<Longrightarrow> \<exists>ds. fmt = ds @ rest"
proof (induction ret fmt rule: get_num_digits.induct)
  case (2 ret c cs)
  show ?case
  proof (cases "haclog_printf_is_digit c")
    case True
    with 2 have "\<exists>ds. cs = ds @ rest" by simp
    then show ?thesis by (metis append_Cons)
  next
    case False
    with "2.prems" show ?thesis by simp
  qed
qed simp

lemma get_num_suffix:
  assumes "haclog_printf_get_num fmt = (n, rest)"
  shows "\<exists>ds. fmt = ds @ rest"
proof (cases "deref fmt = CHR ''*''")
  case True
  with assms have "fmt = [CHR ''*''] @ rest"
    by (cases fmt) (auto simp: haclog_printf_get_num_def NUL_def)
  then show ?thesis ..
next
  case False
  with assms show ?thesis by (auto simp: haclog_printf_get_num_def dest: get_num_digits_suffix)
qed

lemma num_params_length_suffix: "num_params_length len fmt = Inr rest \<Longrightarrow> \<exists>ds. fmt = ds @ rest"
proof (induction len fmt rule: num_params_length.induct)
  case (2 len c cs)
  show ?case
  proof (cases "haclog_printf_is_length c \<and> \<not> len > push_bit 8 1")
    case True
    with 2 have "\<exists>ds. cs = ds @ rest" by auto
    then show ?thesis by (metis append_Cons)
  next
    case False
    with "2.prems" show ?thesis by (auto split: if_splits)
  qed
qed simp

text \<open>Where the walk over one conversion ends, and what it records of its place.\<close>

lemma spec_fillup_conv_place:
  assumes "spec_fillup_conv base (CHR ''%'' # fmt) = Inr (spec, rest)"
  obtains ds where "fmt = ds @ sp_type spec # rest" "haclog_printf_is_type (sp_type spec)"
    "sp_pos_begin spec = c_u16 (int (length base) - int (length (CHR ''%'' # fmt)))"
    "sp_pos_end spec = c_u16 (int (length base) - int (length rest))"
proof -
  let ?f1 = "dropWhile haclog_printf_is_flags fmt"
  obtain fl where fl: "spec_fillup_flags 0 fmt = (fl, ?f1)"
    using spec_fillup_flags_rest [of 0 fmt] by (metis prod.collapse)
  obtain wd f2 where f2: "haclog_printf_get_num ?f1 = (wd, f2)" by fastforce
  obtain pr f3 where f3: "haclog_printf_get_num (tl f2) = (pr, f3)" by fastforce
  let ?f4 = "if deref f2 = CHR ''.'' then f3 else f2"
  obtain d1 where d1: "fmt = d1 @ ?f1" by (metis takeWhile_dropWhile_id)
  obtain d2 where d2: "?f1 = d2 @ f2" using get_num_suffix [OF f2] by blast
  obtain d3 where d3: "tl f2 = d3 @ f3" using get_num_suffix [OF f3] by blast
  have "\<exists>d4. f2 = d4 @ ?f4"
  proof (cases "deref f2 = CHR ''.''")
    case True
    with d3 have "f2 = (CHR ''.'' # d3) @ f3" by (cases f2) (simp_all add: NUL_def)
    with True show ?thesis by metis
  qed simp
  then obtain d4 where d4: "f2 = d4 @ ?f4" ..
  note conv = spec_fillup_conv_eq [OF fl f2 f3]
  from assms obtain len f5 where f5: "spec_fillup_length 0 ?f4 = Inr (len, f5)"
    and ty: "haclog_printf_is_type (deref f5)" and rest: "rest = tl f5"
    and sty: "sp_type spec = deref f5"
    and b: "sp_pos_begin spec = c_u16 (int (length base) - int (length (CHR ''%'' # fmt)))"
    and e: "sp_pos_end spec = c_u16 (int (length base) - int (length rest))"
    unfolding conv by (auto split: sum.splits if_splits)
  from f5 have "num_params_length 0 ?f4 = Inr f5" by (simp add: spec_fillup_length_agrees)
  then obtain d5 where d5: "?f4 = d5 @ f5" using num_params_length_suffix by blast
  have ds: "fmt = (d1 @ d2 @ d4 @ d5) @ f5"
    by (subst d1, subst d2, subst d4, subst d5) simp
  from ty rest have "f5 = sp_type spec # rest" by (cases f5) (simp_all add: sty)
  with ds have "fmt = (d1 @ d2 @ d4 @ d5) @ sp_type spec # rest" by simp
  then show ?thesis using ty b e unfolding sty [symmetric] by (rule that)
qed

lemma nth_before: "0 < k \<Longrightarrow> (xs @ [y]) = take k zs \<Longrightarrow> k \<le> length zs \<Longrightarrow> zs ! (k - 1) = y"
  by (metis append_take_drop_id length_append_singleton length_take min.absorb2 diff_Suc_1
      nth_append_length nth_take diff_less zero_less_one)

text \<open>
  The format is shorter than the 16-bit positions can tell. \<open>pre\<close> is what the table covers already,
  \<open>gap\<close> the text without conversions read since.
\<close>

lemma spec_fillup_loop_cover:
  "spec_fillup_loop base N fmt specs = (HACLOG_ERR_OK, specs') \<Longrightarrow>
   num_params_loop fmt (length specs) a = (HACLOG_ERR_OK, N, a') \<Longrightarrow>
   base = pre @ gap @ fmt \<Longrightarrow> no_conv gap \<Longrightarrow> length base < 65536 \<Longrightarrow>
   \<exists>new. specs' = specs @ new \<and> specs_cover base (length pre) new"
proof (induction base N fmt specs arbitrary: pre gap a rule: spec_fillup_loop.induct)
  case (1 base N specs)
  then show ?case by simp
next
  case (2 base N c fmt specs)
  consider (plain) "c \<noteq> CHR ''%''" | (percents) "c = CHR ''%''" "deref fmt = CHR ''%''"
    | (conv) "c = CHR ''%''" "deref fmt \<noteq> CHR ''%''" by blast
  then show ?case
  proof cases
    case plain
    with "2.prems" show ?thesis
      by (intro "2.IH"(1) [of a pre "gap @ [c]"]) (simp_all add: no_conv_append)
  next
    case percents
    then have "fmt = CHR ''%'' # tl fmt" by (cases fmt) (auto simp: NUL_def)
    with percents "2.prems" show ?thesis
      by (intro "2.IH"(2) [of a pre "gap @ [CHR ''%'', CHR ''%'']"])
        (auto simp: no_conv_append)
  next
    case conv
    obtain k r where kr: "num_params_conv fmt = (k, r)" by fastforce
    with conv "2.prems" obtain rest where r: "r = Inr rest"
      by (cases r) (auto dest: num_params_conv_error)
    with conv kr "2.prems"
    have step: "num_params_loop rest (length specs + 1) (a + k + 1) = (HACLOG_ERR_OK, N, a')" by simp
    then have N: "\<not> length specs \<ge> N" using num_params_loop_mono by fastforce
    from kr r obtain spec where spec: "spec_fillup_conv base (CHR ''%'' # fmt) = Inr (spec, rest)"
      using spec_fillup_conv_of_num_params by blast
    from spec obtain ds where ds: "fmt = ds @ sp_type spec # rest"
      and ty: "haclog_printf_is_type (sp_type spec)"
      and b: "sp_pos_begin spec = c_u16 (int (length base) - int (length (CHR ''%'' # fmt)))"
      and e: "sp_pos_end spec = c_u16 (int (length base) - int (length rest))"
      by (rule spec_fillup_conv_place)
    let ?pre = "pre @ gap @ CHR ''%'' # ds @ [sp_type spec]"
    have base: "base = ?pre @ [] @ rest" using "2.prems" conv ds by simp
    have "\<exists>new. specs' = (specs @ [spec]) @ new \<and> specs_cover base (length ?pre) new"
      using "2.prems" conv N spec step base by (intro "2.IH"(3) [of _ _ _ "a + k + 1" ?pre "[]"]) auto
    then obtain new where new: "specs' = specs @ spec # new" "specs_cover base (length ?pre) new"
      by auto
    have b': "sp_pos_begin spec = int (length (pre @ gap))"
      and e': "sp_pos_end spec = int (length ?pre)"
      unfolding b e using "2.prems" conv ds by (simp_all add: c_u16_id)
    have "specs_cover base (length pre) (spec # new)"
      using new(2) ty "2.prems"(4) unfolding specs_cover.simps b' e' Let_def nat_int
      by (simp add: base nth_append)
    with new(1) show ?thesis by blast
  qed
qed

lemma spec_fillup_of_num_params:
  assumes "haclog_printf_num_params fmt = (HACLOG_ERR_OK, n, a)"
  obtains specs where "haclog_printf_spec_fillup fmt n = (HACLOG_ERR_OK, specs)" "length specs = n"
  using assms spec_fillup_loop_agrees [of fmt 0 0 n a "[]" fmt]
  by (auto simp: haclog_printf_num_params_def haclog_printf_spec_fillup_def)

lemma fillup_covers:
  assumes "haclog_printf_num_params fmt = (HACLOG_ERR_OK, n, a)" and "length fmt < 65536"
  shows "\<exists>specs. haclog_printf_spec_fillup fmt n = (HACLOG_ERR_OK, specs) \<and> length specs = n \<and>
    specs_cover fmt 0 specs"
proof -
  from assms(1) obtain specs where specs: "haclog_printf_spec_fillup fmt n = (HACLOG_ERR_OK, specs)"
    "length specs = n" by (rule spec_fillup_of_num_params)
  then have "\<exists>new. specs = [] @ new \<and> specs_cover fmt (length ([] :: string)) new"
    using assms
    by (intro spec_fillup_loop_cover [where N = n and a = 0 and a' = a and gap = "[]" and fmt = fmt])
      (simp_all add: haclog_printf_spec_fillup_def haclog_printf_num_params_def)
  with specs show ?thesis by simp
qed

section \<open>Parameter sizes\<close>

definition spec_dynamics :: "printf_spec \<Rightarrow> nat" where
  "spec_dynamics spec =
     (if sp_width spec = HACLOG_PRINTF_SPEC_DYNAMIC then 1 else 0) +
     (if sp_precision spec = HACLOG_PRINTF_SPEC_DYNAMIC then 1 else 0)"

lemma param_size_eq:
  "haclog_printf_spec_param_size spec =
     8 * (1 + int (spec_dynamics spec) + (if sp_fmt_type spec = HACLOG_FT_LONG_DOUBLE then 1 else 0))"
  by (cases "sp_fmt_type spec")
    (simp_all add: haclog_printf_spec_param_size_def spec_dynamics_def sizeof_placeholder_def
      sizeof_long_double_def)

lemma param_size_bounds:
  "8 \<le> haclog_printf_spec_param_size spec \<and> haclog_printf_spec_param_size spec \<le> 32"
  by (simp add: param_size_eq spec_dynamics_def)

lemma param_sizes_bounds:
  "8 * int (length specs) \<le> sum_list (map haclog_printf_spec_param_size specs) \<and>
   sum_list (map haclog_printf_spec_param_size specs) \<le> 32 * int (length specs)"
proof (induction specs)
  case (Cons sp specs)
  with param_size_bounds [of sp] show ?case by simp
qed simp

lemma gen_param_size_sum:
  "0 \<le> acc \<Longrightarrow> acc + 32 * int (length specs) < 4294967296 \<Longrightarrow>
   gen_param_size acc specs = acc + sum_list (map haclog_printf_spec_param_size specs)"
proof (induction acc specs rule: gen_param_size.induct)
  case (2 acc sp specs)
  from param_size_bounds [of sp] "2.prems"
  have "c_u32 (acc + haclog_printf_spec_param_size sp) = acc + haclog_printf_spec_param_size sp"
    by (simp add: c_u32_id)
  with "2.IH" "2.prems" param_size_bounds [of sp] show ?case by simp
qed simp

lemma primitive_gen_cases:
  "haclog_printf_primitive_gen m1 m2 fmt loc s =
     (case haclog_printf_num_params fmt of
        (e, n, a) \<Rightarrow>
          if e \<noteq> HACLOG_ERR_OK then (s\<lparr>last_err := e\<rparr>, None)
          else if m1 = None \<or> m2 = None then (s\<lparr>last_err := HACLOG_ERR_ALLOC_MEM\<rparr>, None)
          else
            (case loc of
               None \<Rightarrow> (s\<lparr>last_err := HACLOG_ERR_ARGUMENTS\<rparr>, None)
             | Some l \<Rightarrow>
                 (s\<lparr>live_blocks := live_blocks s + 2\<rparr>,
                  Some \<lparr>pr_fmt = fmt, pr_fmt_len = c_u32 (int (length fmt)), pr_num_params = n,
                    pr_num_args = a, pr_loc = l, pr_specs = snd (haclog_printf_spec_fillup fmt n),
                    pr_param_size = gen_param_size 0 (snd (haclog_printf_spec_fillup fmt n))\<rparr>)))"
proof -
  obtain e n a where num: "haclog_printf_num_params fmt = (e, n, a)" by (metis prod.collapse)
  show ?thesis
  proof (cases "e = HACLOG_ERR_OK")
    case False
    then show ?thesis
      by (simp add: haclog_printf_primitive_gen_def num set_err_def haclog_set_error_def)
  next
    case True
    with num obtain specs where "haclog_printf_spec_fillup fmt n = (HACLOG_ERR_OK, specs)"
      using spec_fillup_of_num_params by blast
    with True num show ?thesis
      by (simp add: haclog_printf_primitive_gen_def haclog_printf_primitive_allocate_def c_malloc_def
          haclog_printf_primitive_clean_def c_free_def set_err_def haclog_set_error_def
          split: option.splits)
  qed
qed

section \<open>Properties\<close>

text \<open>
  C13: when the counting walk accepts a format shorter than 65536 characters, the filling walk accepts
  it too, fills exactly as many entries as were counted, and the entries locate the conversions of
  the format: in order, disjoint, each from its percent sign to behind its conversion character, with
  nothing but plain text and doubled percent signs between them.
\<close>

theorem table_covers_format:
  assumes "haclog_printf_num_params fmt = (HACLOG_ERR_OK, n, a)" and "length fmt < 65536"
  shows "\<exists>specs. haclog_printf_spec_fillup fmt n = (HACLOG_ERR_OK, specs) \<and> length specs = n \<and>
    specs_cover fmt 0 specs"
  using assms by (rule fillup_covers)

lemma table_covers_format_witness:
  "\<exists>specs. haclog_printf_spec_fillup ''a%% %-5hd|%.*s'' 2 = (HACLOG_ERR_OK, specs) \<and> length specs = 2 \<and>
    specs_cover ''a%% %-5hd|%.*s'' 0 specs"
  by (rule table_covers_format [where a = 3])
    (simp_all add: haclog_printf_num_params_def num_params_conv_def printf_eval)

text \<open>
  C14: what generating a primitive does, on every path. A malformed format, a failed allocation and a
  missing location each set their error, return NULL and leave the heap as it was; otherwise the
  primitive holds the format, its counts and its filled table, two heap blocks are in use and the
  error is untouched. The path where the table cannot be filled is never taken.
\<close>

theorem primitive_gen_behaviour:
  "haclog_printf_primitive_gen m1 m2 fmt loc s =
     (case haclog_printf_num_params fmt of
        (e, n, a) \<Rightarrow>
          if e \<noteq> HACLOG_ERR_OK then (s\<lparr>last_err := e\<rparr>, None)
          else if m1 = None \<or> m2 = None then (s\<lparr>last_err := HACLOG_ERR_ALLOC_MEM\<rparr>, None)
          else
            (case loc of
               None \<Rightarrow> (s\<lparr>last_err := HACLOG_ERR_ARGUMENTS\<rparr>, None)
             | Some l \<Rightarrow>
                 (s\<lparr>live_blocks := live_blocks s + 2\<rparr>,
                  Some \<lparr>pr_fmt = fmt, pr_fmt_len = c_u32 (int (length fmt)), pr_num_params = n,
                    pr_num_args = a, pr_loc = l, pr_specs = snd (haclog_printf_spec_fillup fmt n),
                    pr_param_size = gen_param_size 0 (snd (haclog_printf_spec_fillup fmt n))\<rparr>)))"
  by (rule primitive_gen_cases)

text \<open>
  C15: the parameter size a primitive reserves is the sum over its table of 8 bytes for a value, 8 more
  for a long double and 8 for each dynamic width or precision; it is a multiple of 8 between 8 and 32
  bytes for each conversion.
\<close>

theorem primitive_param_size:
  assumes gen: "haclog_printf_primitive_gen m1 m2 fmt loc s = (s', Some p)"
    and small: "pr_num_params p < 134217728"
  shows "pr_param_size p =
      8 * (\<Sum>sp\<leftarrow>pr_specs p. 1 + int (spec_dynamics sp) +
        (if sp_fmt_type sp = HACLOG_FT_LONG_DOUBLE then 1 else 0)) \<and>
    pr_param_size p mod 8 = 0 \<and>
    8 * int (pr_num_params p) \<le> pr_param_size p \<and> pr_param_size p \<le> 32 * int (pr_num_params p)"
proof -
  obtain e n a where num: "haclog_printf_num_params fmt = (e, n, a)" by (metis prod.collapse)
  with gen have e: "e = HACLOG_ERR_OK" and n: "pr_num_params p = n"
    and specs: "pr_specs p = snd (haclog_printf_spec_fillup fmt n)"
    and size: "pr_param_size p = gen_param_size 0 (pr_specs p)"
    by (auto simp: primitive_gen_cases split: if_splits option.splits)
  from num e have len: "length (pr_specs p) = n"
    by (metis spec_fillup_of_num_params specs snd_conv)
  have sum: "pr_param_size p = (\<Sum>sp\<leftarrow>pr_specs p. haclog_printf_spec_param_size sp)"
    using gen_param_size_sum [of 0 "pr_specs p"] small n len size by simp
  also have "\<dots> = 8 * (\<Sum>sp\<leftarrow>pr_specs p. 1 + int (spec_dynamics sp) +
        (if sp_fmt_type sp = HACLOG_FT_LONG_DOUBLE then 1 else 0))"
    unfolding param_size_eq by (rule sum_list_const_mult)
  finally show ?thesis using param_sizes_bounds [of "pr_specs p"] sum len n by simp
qed

lemma primitive_param_size_witness:
  "\<exists>p. snd (haclog_printf_primitive_gen (Some ()) (Some ()) ''%*.*Lf'' (Some loc_zero)
        \<lparr>last_err = HACLOG_ERR_OK, live_blocks = 0\<rparr>) = Some p \<and> pr_param_size p = 32 \<and>
     pr_param_size p mod 8 = 0"
proof -
  let ?g = "haclog_printf_primitive_gen (Some ()) (Some ()) ''%*.*Lf'' (Some loc_zero)
    \<lparr>last_err = HACLOG_ERR_OK, live_blocks = 0\<rparr>"
  have ok: "snd ?g \<noteq> None" "pr_num_params (the (snd ?g)) = 1" "pr_param_size (the (snd ?g)) = 32"
    by (simp_all add: primitive_gen_cases haclog_printf_num_params_def num_params_conv_def
        haclog_printf_spec_fillup_def spec_fillup_conv_def spec_zero_def param_size_eq
        spec_dynamics_def printf_eval)
  then have "?g = (fst ?g, Some (the (snd ?g)))" by simp
  from primitive_param_size [OF this] ok show ?thesis by auto
qed

end
