(* ===== verification/Haclog_Format_Grammar.thy ===== *)
theory Haclog_Format_Grammar
  imports Haclog_Primitive
begin

text \<open>
  The format strings the parser is written for, as a grammar with a printer: what
  \<open>haclog_printf_num_params\<close> and \<open>haclog_printf_spec_fillup\<close> read back from a printed format is what
  was printed. The grammar is the prototype quoted in \<open>haclog_vsprintf.h\<close>,
  \<open>%[flags][width][.precision][length]specifier\<close>, and the type table the comment above
  \<open>haclog_spec_type_output\<close>.
\<close>

section \<open>Grammar\<close>

datatype fmt_num = No_num | Num nat | Star

datatype fmt_item =
    Lit char
  | Percents
  | Conv string fmt_num "fmt_num option" string char

fun num_text :: "fmt_num \<Rightarrow> string" where
  "num_text No_num = []"
| "num_text (Num n) = dec n"
| "num_text Star = ''*''"

fun num_val :: "fmt_num \<Rightarrow> int" where
  "num_val No_num = 0"
| "num_val (Num n) = int n"
| "num_val Star = - 1"

fun prec_text :: "fmt_num option \<Rightarrow> string" where
  "prec_text None = []"
| "prec_text (Some q) = CHR ''.'' # num_text q"

fun item_text :: "fmt_item \<Rightarrow> string" where
  "item_text (Lit c) = [c]"
| "item_text Percents = ''%%''"
| "item_text (Conv fl w p l t) = CHR ''%'' # fl @ num_text w @ prec_text p @ l @ [t]"

definition fmt_text :: "fmt_item list \<Rightarrow> string" where
  "fmt_text items = concat (map item_text items)"

definition length_table :: "(string \<times> int) list" where
  "length_table = [('''', 0), (''hh'', 0x6868), (''h'', 0x68), (''l'', 0x6C), (''ll'', 0x6C6C),
     (''j'', 0x6A), (''z'', 0x7A), (''t'', 0x74), (''L'', 0x4C)]"

text \<open>A width has no leading zero, which would be a flag; both numbers fit their 16-bit fields.\<close>

fun item_ok :: "fmt_item \<Rightarrow> bool" where
  "item_ok (Lit c) \<longleftrightarrow> c \<noteq> CHR ''%''"
| "item_ok Percents \<longleftrightarrow> True"
| "item_ok (Conv fl w p l t) \<longleftrightarrow>
     (\<forall>c\<in>set fl. haclog_printf_is_flags c) \<and> w \<noteq> Num 0 \<and> num_val w < 32768 \<and>
     (case p of None \<Rightarrow> True | Some q \<Rightarrow> num_val q < 32768) \<and>
     l \<in> fst ` set length_table \<and> haclog_printf_is_type t"

section \<open>What the table must hold\<close>

definition signed_types :: "string \<rightharpoonup> format_type" where
  "signed_types = map_of [('''', HACLOG_FT_INT), (''hh'', HACLOG_FT_CHAR), (''h'', HACLOG_FT_SHORT),
     (''l'', HACLOG_FT_LONG), (''ll'', HACLOG_FT_LONGLONG), (''j'', HACLOG_FT_LONGLONG),
     (''z'', HACLOG_FT_SIZE), (''t'', HACLOG_FT_PTRDIFF)]"

definition unsigned_types :: "string \<rightharpoonup> format_type" where
  "unsigned_types = map_of [('''', HACLOG_FT_UINT), (''hh'', HACLOG_FT_UCHAR), (''h'', HACLOG_FT_USHORT),
     (''l'', HACLOG_FT_ULONG), (''ll'', HACLOG_FT_ULONGLONG), (''j'', HACLOG_FT_ULONGLONG),
     (''z'', HACLOG_FT_SIZE), (''t'', HACLOG_FT_PTRDIFF)]"

definition float_types :: "string \<rightharpoonup> format_type" where
  "float_types = map_of [('''', HACLOG_FT_DOUBLE), (''L'', HACLOG_FT_LONG_DOUBLE)]"

definition conv_types :: "char \<Rightarrow> string \<rightharpoonup> format_type" where
  "conv_types t =
     (if t \<in> set ''di'' then signed_types
      else if t \<in> set ''uoxX'' then unsigned_types
      else if t \<in> set ''fFeEgGaA'' then float_types
      else if t = CHR ''c'' then [[] \<mapsto> HACLOG_FT_CHAR]
      else if t = CHR ''s'' then [[] \<mapsto> HACLOG_FT_STR]
      else if t = CHR ''p'' then [[] \<mapsto> HACLOG_FT_PTR]
      else Map.empty)"

definition conv_type :: "char \<Rightarrow> string \<Rightarrow> format_type" where
  "conv_type t l = (case conv_types t l of None \<Rightarrow> HACLOG_FT_NONE | Some ft \<Rightarrow> ft)"

definition flag_mask :: "char set \<Rightarrow> int" where
  "flag_mask S =
     (if CHR ''-'' \<in> S then 0x01 else 0) OR (if CHR ''+'' \<in> S then 0x02 else 0) OR
     (if CHR '' '' \<in> S then 0x04 else 0) OR (if CHR ''#'' \<in> S then 0x08 else 0) OR
     (if CHR ''0'' \<in> S then 0x10 else 0)"

fun item_specs :: "nat \<Rightarrow> fmt_item list \<Rightarrow> printf_spec list" where
  "item_specs pos [] = []"
| "item_specs pos (Conv fl w p l t # items) =
     (let end = pos + length (item_text (Conv fl w p l t))
      in \<lparr>sp_pos_begin = int pos, sp_pos_end = int end, sp_width = num_val w,
          sp_precision = (case p of None \<Rightarrow> 0 | Some q \<Rightarrow> num_val q),
          sp_length = the (map_of length_table l), sp_flags = flag_mask (set fl), sp_type = t,
          sp_fmt_type = conv_type t l\<rparr> # item_specs end items)"
| "item_specs pos (item # items) = item_specs (pos + length (item_text item)) items"

fun num_stars :: "fmt_num \<Rightarrow> fmt_num option \<Rightarrow> nat" where
  "num_stars w p = (if w = Star then 1 else 0) + (if p = Some Star then 1 else 0)"

fun item_args :: "fmt_item \<Rightarrow> nat" where
  "item_args (Conv fl w p l t) =
     num_stars w p + 1"
| "item_args _ = 0"

fun is_conv :: "fmt_item \<Rightarrow> bool" where
  "is_conv (Conv fl w p l t) = True"
| "is_conv _ = False"

section \<open>Reading the parts back\<close>

lemma below_10: "k < 10 \<Longrightarrow> k \<in> {0, 1, 2, 3, 4, 5, 6, 7, 8, 9 :: nat}"
  by auto

lemma digit_char_cases:
  "k < 10 \<Longrightarrow>
   (of_char (digit k) :: int) = 48 + int k \<and>
   haclog_printf_is_digit (digit k) \<and> digit k \<noteq> CHR ''*'' \<and> digit k \<noteq> CHR ''%'' \<and>
   (0 < k \<longrightarrow> \<not> haclog_printf_is_flags (digit k))"
  by (drule below_10)
    (elim insertE emptyE; simp add: digit_def haclog_printf_is_digit_def haclog_printf_is_flags_def)

lemmas digit_char [simp] = conjunct1 [OF digit_char_cases]
lemmas is_digit_char [simp] = conjunct1 [OF conjunct2 [OF digit_char_cases]]

lemma get_num_digits_dec:
  "n < 2147483648 \<Longrightarrow> get_num_digits 0 (dec n @ rest) = get_num_digits (int n) rest"
proof (induction n arbitrary: rest rule: dec.induct)
  case (1 n)
  show ?case
  proof (cases "n < 10")
    case True
    then show ?thesis by (simp add: dec.simps [of n] is_digit_char digit_char c_int_id)
  next
    case False
    with 1 have "get_num_digits 0 (dec n @ rest) =
        get_num_digits (int (n div 10)) (digit (n mod 10) # rest)"
      by (simp add: dec.simps [of n])
    also have "\<dots> = get_num_digits (c_int (10 * int (n div 10) + int (n mod 10))) rest"
      by (simp add: is_digit_char digit_char)
    also have "10 * int (n div 10) + int (n mod 10) = int n"
      by (simp add: zdiv_int zmod_int)
    finally show ?thesis using "1.prems" by (simp add: c_int_id)
  qed
qed

lemma dec_head: "\<exists>d ds. dec n = digit d # ds \<and> d < 10 \<and> (0 < n \<longrightarrow> 0 < d)"
proof (induction n rule: dec.induct)
  case (1 n)
  show ?case
  proof (cases "n < 10")
    case True
    then show ?thesis by (intro exI [of _ n]) (simp add: dec.simps [of n])
  next
    case False
    with 1 obtain d :: nat and ds where "dec (n div 10) = digit d # ds" "d < 10" "0 < n div 10 \<longrightarrow> 0 < d"
      by auto
    moreover from False have "0 < n div 10" by simp
    ultimately show ?thesis using False by (subst dec.simps) auto
  qed
qed

text \<open>The character behind a number.\<close>

definition ends_number :: "string \<Rightarrow> bool" where
  "ends_number s \<longleftrightarrow> \<not> haclog_printf_is_digit (deref s) \<and> deref s \<noteq> CHR ''*'' \<and>
     \<not> haclog_printf_is_flags (deref s)"

lemma get_num_text:
  assumes "num_val w < 32768" "ends_number rest"
  shows "haclog_printf_get_num (num_text w @ rest) = (num_val w, rest)"
proof (cases w)
  case No_num
  have "get_num_digits 0 rest = (0, rest)" using assms(2) by (cases rest) (auto simp: ends_number_def)
  with No_num assms(2) show ?thesis by (simp add: haclog_printf_get_num_def ends_number_def)
next
  case (Num n)
  obtain d :: nat and ds where "dec n = digit d # ds" "d < 10" using dec_head by blast
  then have "deref (dec n @ rest) \<noteq> CHR ''*''" using digit_char_cases [of d] by simp
  moreover have "get_num_digits (int n) rest = (int n, rest)"
    using assms(2) by (cases rest) (auto simp: ends_number_def)
  ultimately show ?thesis using Num assms(1) by (simp add: haclog_printf_get_num_def get_num_digits_dec)
next
  case Star
  then show ?thesis by (simp add: haclog_printf_get_num_def HACLOG_PRINTF_SPEC_DYNAMIC_def)
qed

lemma num_text_no_flag:
  assumes "w \<noteq> Num 0" "ends_number rest"
  shows "\<not> haclog_printf_is_flags (deref (num_text w @ rest))"
proof (cases w)
  case (Num n)
  with assms have "0 < n" by auto
  then obtain d :: nat and ds where "dec n = digit d # ds" "d < 10" "0 < d"
    using dec_head by blast
  with Num digit_char_cases [of d] show ?thesis by simp
qed (use assms in \<open>auto simp: ends_number_def haclog_printf_is_flags_def\<close>)

lemma dropWhile_flags:
  "(\<forall>c\<in>set fl. haclog_printf_is_flags c) \<Longrightarrow> \<not> haclog_printf_is_flags (deref rest) \<Longrightarrow>
   dropWhile haclog_printf_is_flags (fl @ rest) = rest"
  by (cases rest) auto

lemma flag_mask_insert:
  "flag_mask (insert (CHR ''-'') S) = flag_mask S OR 0x01"
  "flag_mask (insert (CHR ''+'') S) = flag_mask S OR 0x02"
  "flag_mask (insert (CHR '' '') S) = flag_mask S OR 0x04"
  "flag_mask (insert (CHR ''#'') S) = flag_mask S OR 0x08"
  "flag_mask (insert (CHR ''0'') S) = flag_mask S OR 0x10"
  by (simp_all add: flag_mask_def)

lemma spec_fillup_flags_mask:
  "(\<forall>c\<in>set fl. haclog_printf_is_flags c) \<Longrightarrow> \<not> haclog_printf_is_flags (deref rest) \<Longrightarrow>
   spec_fillup_flags (flag_mask S) (fl @ rest) = (flag_mask (S \<union> set fl), rest)"
proof (induction fl arbitrary: S)
  case Nil
  then show ?case by (cases rest) auto
next
  case (Cons c fl)
  have c: "c = CHR ''-'' \<or> c = CHR ''+'' \<or> c = CHR '' '' \<or> c = CHR ''#'' \<or> c = CHR ''0''"
    using Cons.prems by (auto simp: haclog_printf_is_flags_def)
  have "spec_fillup_flags (flag_mask S) ((c # fl) @ rest) =
      spec_fillup_flags (flag_mask (insert c S)) (fl @ rest)"
    using c
    by (elim disjE)
      (simp_all add: haclog_printf_is_flags_def flag_mask_insert HACLOG_PRINTF_FLAGS_LEFT_def
        HACLOG_PRINTF_FLAGS_PLUS_def HACLOG_PRINTF_FLAGS_SPACE_def HACLOG_PRINTF_FLAGS_SPECIAL_def
        HACLOG_PRINTF_FLAGS_ZEROPAD_def)
  with Cons show ?case by simp
qed

lemma type_no_length: "haclog_printf_is_type t \<Longrightarrow> \<not> haclog_printf_is_length t"
  by (auto simp: haclog_printf_is_type_def haclog_printf_is_length_def)

lemma length_table_cases:
  "l \<in> fst ` set length_table \<Longrightarrow>
   l \<in> {[], ''hh'', ''h'', ''l'', ''ll'', ''j'', ''z'', ''t'', ''L''}"
  by (simp add: length_table_def)

lemma spec_fillup_length_text:
  assumes "l \<in> fst ` set length_table" "haclog_printf_is_type t"
  shows "spec_fillup_length 0 (l @ t # rest) = Inr (the (map_of length_table l), t # rest)"
  using length_table_cases [OF assms(1)] type_no_length [OF assms(2)]
  by (elim insertE emptyE;
      simp add: length_table_def haclog_printf_is_length_def c_u16_id push_bit_eq_mult)

lemma num_params_length_text:
  assumes "l \<in> fst ` set length_table" "haclog_printf_is_type t"
  shows "num_params_length 0 (l @ t # rest) = Inr (t # rest)"
  using spec_fillup_length_text [OF assms] by (simp add: spec_fillup_length_agrees)

lemma num_params_length_stops:
  "l \<in> fst ` set length_table \<Longrightarrow> \<not> haclog_printf_is_length (deref rest) \<Longrightarrow>
   num_params_length 0 (l @ rest) = Inr rest"
  by (drule length_table_cases, cases rest; elim insertE emptyE;
      simp add: haclog_printf_is_length_def push_bit_eq_mult)

lemma three_lengths:
  assumes "haclog_printf_is_length l1" "haclog_printf_is_length l2" "haclog_printf_is_length l3"
  shows "num_params_length 0 (l1 # l2 # l3 # rest) = Inl HACLOG_ERR_PRINTF_SPEC_LENGTH"
proof -
  let ?a = "of_char l1 :: int" and ?b = "push_bit 8 (of_char l2) :: int"
  have a: "0 < ?a" "?a < 128" and b: "256 < (of_char l2 :: int) * 256" "0 < (of_char l2 :: int)"
    using assms(1,2) by (auto simp: haclog_printf_is_length_def)
  have "?b \<le> (?a OR ?b)"
    using a or_greater_eq [of ?a ?b] by (simp add: or.commute)
  then have "256 < (?a OR ?b)" using b by (simp add: push_bit_eq_mult)
  then show ?thesis using assms a by simp
qed

lemma fillup_conv_type:
  assumes "l \<in> fst ` set length_table" "sp_length sp = the (map_of length_table l)"
    "sp_fmt_type sp = HACLOG_FT_NONE" "haclog_printf_is_type (sp_type sp)"
  shows "sp_fmt_type (snd (haclog_printf_spec_fillup_ext sp)) = conv_type (sp_type sp) l"
proof -
  note types = haclog_printf_spec_fillup_ft_dt_def haclog_printf_spec_fillup_ft_uoxX_def
    haclog_printf_spec_fillup_ft_fFeEgGaA_def haclog_printf_spec_fillup_ft_c_def
    haclog_printf_spec_fillup_ft_s_def haclog_printf_spec_fillup_ft_p_def
    signed_types_def unsigned_types_def float_types_def length_codes
  consider "sp_type sp \<in> set ''di''" | "sp_type sp \<in> set ''uoxX''" | "sp_type sp \<in> set ''fFeEgGaA''"
    | "sp_type sp = CHR ''c''" | "sp_type sp = CHR ''s''" | "sp_type sp = CHR ''p''"
    | "sp_type sp = CHR ''n''"
    using assms(4) by (auto simp: haclog_printf_is_type_def)
  then show ?thesis
    using length_table_cases [OF assms(1)] assms(2,3)
    by cases (elim insertE emptyE; simp add: haclog_printf_spec_fillup_ext_def
        haclog_printf_spec_fillup_ft_def types conv_type_def conv_types_def length_table_def)+
qed

text \<open>One printed conversion, read by both walks.\<close>

lemma tail_ends_number:
  assumes "l \<in> fst ` set length_table" "haclog_printf_is_type t"
  shows "ends_number (l @ t # rest)" "deref (l @ t # rest) \<noteq> CHR ''.''" "deref (l @ t # rest) \<noteq> CHR ''%''"
proof -
  have "haclog_printf_is_length (deref (l @ t # rest)) \<or> haclog_printf_is_type (deref (l @ t # rest))"
    using length_table_cases [OF assms(1)] assms(2) by (auto simp: haclog_printf_is_length_def)
  then show "ends_number (l @ t # rest)" "deref (l @ t # rest) \<noteq> CHR ''.''"
    "deref (l @ t # rest) \<noteq> CHR ''%''"
    by (auto simp: haclog_printf_is_length_def haclog_printf_is_type_def ends_number_def
        haclog_printf_is_digit_def haclog_printf_is_flags_def)
qed

lemma prec_ends_number: "ends_number x \<Longrightarrow> ends_number (prec_text p @ x)"
  by (cases p) (simp_all add: ends_number_def haclog_printf_is_digit_def haclog_printf_is_flags_def)

definition front_ok :: "string \<Rightarrow> fmt_num \<Rightarrow> fmt_num option \<Rightarrow> bool" where
  "front_ok fl w p \<longleftrightarrow>
     (\<forall>c\<in>set fl. haclog_printf_is_flags c) \<and> w \<noteq> Num 0 \<and> num_val w < 32768 \<and>
     (case p of None \<Rightarrow> True | Some q \<Rightarrow> num_val q < 32768)"

lemma conv_text_walk:
  fixes x
  assumes ok: "front_ok fl w p" and tail: "ends_number x" "deref x \<noteq> CHR ''.''"
  defines "fmt \<equiv> fl @ num_text w @ prec_text p @ x" and "f2 \<equiv> prec_text p @ x"
  obtains pr f3 where
    "haclog_printf_get_num (dropWhile haclog_printf_is_flags fmt) = (num_val w, f2)"
    "spec_fillup_flags 0 fmt = (flag_mask (set fl), num_text w @ f2)"
    "haclog_printf_get_num (num_text w @ f2) = (num_val w, f2)"
    "haclog_printf_get_num (tl f2) = (pr, f3)"
    "deref f2 = CHR ''.'' \<longleftrightarrow> p \<noteq> None"
    "(if deref f2 = CHR ''.'' then f3 else f2) = x"
    "(if deref f2 = CHR ''.'' then pr else 0) = (case p of None \<Rightarrow> 0 | Some q \<Rightarrow> num_val q)"
proof -
  from ok have fl: "\<forall>c\<in>set fl. haclog_printf_is_flags c" and w: "w \<noteq> Num 0" "num_val w < 32768"
    and p: "case p of None \<Rightarrow> True | Some q \<Rightarrow> num_val q < 32768" by (simp_all add: front_ok_def)
  have noflag: "\<not> haclog_printf_is_flags (deref (num_text w @ f2))"
    unfolding f2_def by (rule num_text_no_flag [OF w(1) prec_ends_number [OF tail(1)]])
  have num: "haclog_printf_get_num (num_text w @ f2) = (num_val w, f2)"
    unfolding f2_def by (rule get_num_text [OF w(2) prec_ends_number [OF tail(1)]])
  with dropWhile_flags [OF fl noflag]
  have drop: "haclog_printf_get_num (dropWhile haclog_printf_is_flags fmt) = (num_val w, f2)"
    by (simp add: fmt_def f2_def)
  have "flag_mask {} = 0" by (simp add: flag_mask_def)
  with spec_fillup_flags_mask [OF fl noflag, of "{}"]
  have flags: "spec_fillup_flags 0 fmt = (flag_mask (set fl), num_text w @ f2)"
    by (simp add: fmt_def f2_def)
  obtain pr f3 where f3: "haclog_printf_get_num (tl f2) = (pr, f3)" by fastforce
  have dot: "deref f2 = CHR ''.'' \<longleftrightarrow> p \<noteq> None"
    using tail(2) by (cases p) (simp_all add: f2_def)
  have "p = Some q \<Longrightarrow> pr = num_val q \<and> f3 = x" for q
    using f3 get_num_text [OF _ tail(1), of q] p by (simp add: f2_def)
  then have "(if deref f2 = CHR ''.'' then f3 else f2) = x"
    "(if deref f2 = CHR ''.'' then pr else 0) = (case p of None \<Rightarrow> 0 | Some q \<Rightarrow> num_val q)"
    using dot by (auto simp: f2_def split: option.split)
  from that [OF drop flags num f3 dot this] show ?thesis .
qed

lemma num_val_dynamic [simp]: "num_val w = - 1 \<longleftrightarrow> w = Star"
  by (cases w) simp_all

lemma num_val_lower: "- 1 \<le> num_val w"
  by (cases w) simp_all

lemma c_s16_num_val: "num_val w < 32768 \<Longrightarrow> c_s16 (num_val w) = num_val w"
  using num_val_lower [of w] by (simp add: c_s16_id)

lemma num_params_conv_front:
  assumes "front_ok fl w p" and tail: "ends_number x" "deref x \<noteq> CHR ''.''"
  shows "num_params_conv (fl @ num_text w @ prec_text p @ x) =
    (num_stars w p,
     case num_params_length 0 x of
       Inl e \<Rightarrow> Inl e
     | Inr f5 \<Rightarrow> if haclog_printf_is_type (deref f5) then Inr (tl f5) else Inl HACLOG_ERR_PRINTF_TYPE)"
  using assms
proof (rule conv_text_walk)
  fix pr f3
  assume num: "haclog_printf_get_num (dropWhile haclog_printf_is_flags
      (fl @ num_text w @ prec_text p @ x)) = (num_val w, prec_text p @ x)"
    and f3: "haclog_printf_get_num (tl (prec_text p @ x)) = (pr, f3)"
    and dot: "deref (prec_text p @ x) = CHR ''.'' \<longleftrightarrow> p \<noteq> None"
    and rest: "(if deref (prec_text p @ x) = CHR ''.'' then f3 else prec_text p @ x) = x"
    and prec: "(if deref (prec_text p @ x) = CHR ''.'' then pr else 0) =
      (case p of None \<Rightarrow> 0 | Some q \<Rightarrow> num_val q)"
  show ?thesis
    unfolding num_params_conv_eq [OF num f3] rest
    using dot prec by (auto simp: HACLOG_PRINTF_SPEC_DYNAMIC_def split: option.splits)
qed

lemma num_params_conv_text:
  assumes ok: "item_ok (Conv fl w p l t)"
  shows "num_params_conv (fl @ num_text w @ prec_text p @ l @ t # rest) = (num_stars w p, Inr rest)"
proof -
  from ok have l: "l \<in> fst ` set length_table" and t: "haclog_printf_is_type t"
    and front: "front_ok fl w p" by (simp_all add: front_ok_def)
  from num_params_conv_front [OF front tail_ends_number(1,2) [OF l t], of rest]
  show ?thesis using t by (simp add: num_params_length_text [OF l t])
qed

lemma spec_fillup_conv_text:
  assumes ok: "item_ok (Conv fl w p l t)" and base: "base = pre @ item_text (Conv fl w p l t) @ rest"
    and short: "length base < 65536"
  shows "spec_fillup_conv base (CHR ''%'' # fl @ num_text w @ prec_text p @ l @ t # rest) =
    Inr (hd (item_specs (length pre) [Conv fl w p l t]), rest)"
proof -
  from ok have l: "l \<in> fst ` set length_table" and t: "haclog_printf_is_type t"
    and w: "num_val w < 32768" and p: "case p of None \<Rightarrow> True | Some q \<Rightarrow> num_val q < 32768"
    and front: "front_ok fl w p" by (simp_all add: front_ok_def)
  from front tail_ends_number(1,2) [OF l t, of rest] obtain pr f3 where walk:
    "spec_fillup_flags 0 (fl @ num_text w @ prec_text p @ l @ t # rest) =
       (flag_mask (set fl), num_text w @ prec_text p @ l @ t # rest)"
    "haclog_printf_get_num (num_text w @ prec_text p @ l @ t # rest) = (num_val w, prec_text p @ l @ t # rest)"
    "haclog_printf_get_num (tl (prec_text p @ l @ t # rest)) = (pr, f3)"
    "deref (prec_text p @ l @ t # rest) = CHR ''.'' \<longleftrightarrow> p \<noteq> None"
    "(if deref (prec_text p @ l @ t # rest) = CHR ''.'' then f3 else prec_text p @ l @ t # rest) = l @ t # rest"
    "(if deref (prec_text p @ l @ t # rest) = CHR ''.'' then pr else 0) =
       (case p of None \<Rightarrow> 0 | Some q \<Rightarrow> num_val q)"
    by (rule conv_text_walk)
  have prec: "(if deref (prec_text p @ l @ t # rest) = CHR ''.'' then c_s16 pr else 0) =
      (case p of None \<Rightarrow> 0 | Some q \<Rightarrow> num_val q)"
    using walk(4,6) p by (auto simp: c_s16_num_val split: option.splits)
  have begin_pos: "c_u16 (int (length base) -
      int (length (CHR ''%'' # fl @ num_text w @ prec_text p @ l @ t # rest))) = int (length pre)"
    using base short by (simp add: c_u16_id)
  have end_pos: "c_u16 (int (length base) - int (length (tl (t # rest)))) =
      int (length pre + length (item_text (Conv fl w p l t)))"
    using base short by (simp add: c_u16_id)
  have width: "c_s16 (num_val w) = num_val w" using w by (rule c_s16_num_val)
  let ?sp = "\<lparr>sp_pos_begin = int (length pre),
      sp_pos_end = int (length pre + length (item_text (Conv fl w p l t))), sp_width = num_val w,
      sp_precision = (case p of None \<Rightarrow> 0 | Some q \<Rightarrow> num_val q),
      sp_length = the (map_of length_table l), sp_flags = flag_mask (set fl), sp_type = t,
      sp_fmt_type = HACLOG_FT_NONE\<rparr>"
  have "sp_fmt_type (snd (haclog_printf_spec_fillup_ext ?sp)) = conv_type t l"
    using fillup_conv_type [OF l, of ?sp] t by simp
  then have ext: "snd (haclog_printf_spec_fillup_ext ?sp) =
      hd (item_specs (length pre) [Conv fl w p l t])"
    by (subst fillup_ext_keeps) (simp add: Let_def)
  show ?thesis
    unfolding spec_fillup_conv_eq [OF walk(1-3)] walk(5) prec begin_pos width
      spec_fillup_length_text [OF l t] sum.case prod.case end_pos
    using t ext by simp
qed

section \<open>Whole formats\<close>

lemma conv_text_Cons:
  "fmt_text (Conv fl w p l t # items) =
   CHR ''%'' # fl @ num_text w @ prec_text p @ l @ t # fmt_text items"
  by (simp add: fmt_text_def)

lemma front_no_percent:
  assumes "front_ok fl w p" "deref x \<noteq> CHR ''%''"
  shows "deref (fl @ num_text w @ prec_text p @ x) \<noteq> CHR ''%''"
proof (cases fl)
  case Nil
  show ?thesis
  proof (cases w)
    case No_num
    with Nil assms show ?thesis by (cases p) simp_all
  next
    case (Num n)
    obtain d ds where "dec n = digit d # ds" "d < 10" using dec_head by blast
    with Num Nil digit_char_cases [of d] show ?thesis by simp
  qed (simp add: Nil)
next
  case (Cons c cs)
  with assms show ?thesis by (auto simp: front_ok_def haclog_printf_is_flags_def)
qed

lemma conv_no_percent:
  assumes "item_ok (Conv fl w p l t)"
  shows "deref (fl @ num_text w @ prec_text p @ l @ t # rest) \<noteq> CHR ''%''"
  using assms by (intro front_no_percent tail_ends_number(3)) (simp_all add: front_ok_def)

lemma num_params_loop_text:
  "\<forall>it\<in>set items. item_ok it \<Longrightarrow>
   num_params_loop (fmt_text items) n a =
     (HACLOG_ERR_OK, n + length (filter is_conv items), a + sum_list (map item_args items))"
proof (induction items arbitrary: n a)
  case Nil
  show ?case by (simp add: fmt_text_def)
next
  case (Cons it items)
  show ?case
  proof (cases it)
    case (Lit c)
    with Cons show ?thesis by (simp add: fmt_text_def)
  next
    case Percents
    with Cons show ?thesis by (simp add: fmt_text_def)
  next
    case (Conv fl w p l t)
    with Cons.prems have ok: "item_ok (Conv fl w p l t)" by simp
    have "num_params_loop (fmt_text (it # items)) n a =
        num_params_loop (fmt_text items) (n + 1) (a + num_stars w p + 1)"
      unfolding Conv conv_text_Cons num_params_loop.simps num_params_conv_text [OF ok]
      using conv_no_percent [OF ok] by simp
    with Cons Conv show ?thesis by simp
  qed
qed

lemma spec_fillup_loop_text:
  "\<forall>it\<in>set items. item_ok it \<Longrightarrow> base = pre @ fmt_text items \<Longrightarrow> length base < 65536 \<Longrightarrow>
   N = length specs + length (filter is_conv items) \<Longrightarrow>
   spec_fillup_loop base N (fmt_text items) specs =
     (HACLOG_ERR_OK, specs @ item_specs (length pre) items)"
proof (induction items arbitrary: pre specs)
  case Nil
  then show ?case by (simp add: fmt_text_def)
next
  case (Cons it items)
  have ok: "\<forall>it\<in>set items. item_ok it" using Cons.prems by simp
  have base: "base = (pre @ item_text it) @ fmt_text items" using Cons.prems by (simp add: fmt_text_def)
  note IH = Cons.IH [OF ok base Cons.prems(3)]
  show ?case
  proof (cases it)
    case (Lit c)
    with Cons.prems IH [of specs] show ?thesis by (simp add: fmt_text_def)
  next
    case Percents
    with Cons.prems IH [of specs] show ?thesis by (simp add: fmt_text_def)
  next
    case (Conv fl w p l t)
    with Cons.prems have ok: "item_ok (Conv fl w p l t)" by simp
    let ?sp = "hd (item_specs (length pre) [Conv fl w p l t])"
    have conv: "spec_fillup_conv base (CHR ''%'' # fl @ num_text w @ prec_text p @ l @ t # fmt_text items) =
        Inr (?sp, fmt_text items)"
      by (rule spec_fillup_conv_text [OF ok]) (use base Conv Cons.prems in \<open>simp_all\<close>)
    have "spec_fillup_loop base N (fmt_text (it # items)) specs =
        spec_fillup_loop base N (fmt_text items) (specs @ [?sp])"
      unfolding Conv conv_text_Cons spec_fillup_loop.simps conv
      using conv_no_percent [OF ok] Cons.prems(4) Conv by simp
    also have "\<dots> = (HACLOG_ERR_OK, specs @ item_specs (length pre) (it # items))"
      using IH [of "specs @ [?sp]"] Cons.prems(4) Conv by (simp add: Let_def)
    finally show ?thesis .
  qed
qed

text \<open>
  C16: reading a printed format gives back what was printed. For every sequence of literal characters,
  doubled percent signs and conversions built by the documented grammar, the counting walk finds as many
  parameters as there are conversions and one more argument for each star, and the filling walk
  writes for each conversion its place, width, precision, length code, flags, conversion character
  and the format type of the documented table.
\<close>

theorem parse_print:
  assumes "\<forall>it\<in>set items. item_ok it" and "length (fmt_text items) < 65536"
  shows "haclog_printf_num_params (fmt_text items) =
      (HACLOG_ERR_OK, length (filter is_conv items), sum_list (map item_args items)) \<and>
    haclog_printf_spec_fillup (fmt_text items) (length (filter is_conv items)) =
      (HACLOG_ERR_OK, item_specs 0 items)"
  using num_params_loop_text [OF assms(1), of 0 0]
    spec_fillup_loop_text [OF assms(1), of "fmt_text items" "[]" _ "[]"] assms(2)
  by (simp add: haclog_printf_num_params_def haclog_printf_spec_fillup_def)

lemma parse_print_witness:
  "haclog_printf_num_params
      (fmt_text [Lit (CHR ''x''), Percents, Conv ''-0'' (Num 12) (Some Star) ''ll'' (CHR ''d'')]) =
    (HACLOG_ERR_OK, 1, 2) \<and>
   fmt_text [Lit (CHR ''x''), Percents, Conv ''-0'' (Num 12) (Some Star) ''ll'' (CHR ''d'')] =
     ''x%%%-012.*lld''"
  using parse_print [of "[Lit (CHR ''x''), Percents, Conv ''-0'' (Num 12) (Some Star) ''ll'' (CHR ''d'')]"]
  by (simp add: fmt_text_def dec.simps digit_def length_table_def haclog_printf_is_flags_def
      haclog_printf_is_type_def)

text \<open>A conversion that breaks off, behind any well-formed text.\<close>

lemma num_params_loop_text_append:
  "\<forall>it\<in>set items. item_ok it \<Longrightarrow>
   num_params_loop (fmt_text items @ y) n a =
     num_params_loop y (n + length (filter is_conv items)) (a + sum_list (map item_args items))"
proof (induction items arbitrary: n a)
  case Nil
  show ?case by (simp add: fmt_text_def)
next
  case (Cons it items)
  show ?case
  proof (cases it)
    case (Conv fl w p l t)
    with Cons.prems have ok: "item_ok (Conv fl w p l t)" by simp
    have "num_params_loop (fmt_text (it # items) @ y) n a =
        num_params_loop (fmt_text items @ y) (n + 1) (a + num_stars w p + 1)"
      unfolding Conv conv_text_Cons append_Cons append_assoc num_params_loop.simps
        num_params_conv_text [OF ok]
      using conv_no_percent [OF ok] by simp
    with Cons Conv show ?thesis by simp
  qed (use Cons in \<open>simp_all add: fmt_text_def\<close>)
qed

lemma num_params_broken:
  assumes "\<forall>it\<in>set items. item_ok it" and front: "front_ok fl w p"
    and x: "ends_number x" "deref x \<noteq> CHR ''.''" "deref x \<noteq> CHR ''%''"
    and e: "(case num_params_length 0 x of
        Inl e \<Rightarrow> Inl e
      | Inr f5 \<Rightarrow> if haclog_printf_is_type (deref f5) then Inr (tl f5) else Inl HACLOG_ERR_PRINTF_TYPE)
      = Inl e"
  shows "haclog_printf_num_params (fmt_text items @ CHR ''%'' # fl @ num_text w @ prec_text p @ x) =
    (e, length (filter is_conv items), sum_list (map item_args items) + num_stars w p)"
proof -
  have "deref (fl @ num_text w @ prec_text p @ x) \<noteq> CHR ''%''"
    using front x(3) by (rule front_no_percent)
  then show ?thesis
    unfolding haclog_printf_num_params_def num_params_loop_text_append [OF assms(1)]
      num_params_loop.simps num_params_conv_front [OF front x(1,2)] e
    by simp
qed

lemma rejected_length:
  assumes "\<forall>it\<in>set items. item_ok it" and "front_ok fl w p"
    and l: "haclog_printf_is_length l1" "haclog_printf_is_length l2" "haclog_printf_is_length l3"
  shows "fst (haclog_printf_num_params
      (fmt_text items @ CHR ''%'' # fl @ num_text w @ prec_text p @ l1 # l2 # l3 # rest)) =
    HACLOG_ERR_PRINTF_SPEC_LENGTH"
proof -
  have "num_params_length 0 (l1 # l2 # l3 # rest) = Inl HACLOG_ERR_PRINTF_SPEC_LENGTH"
    using l by (rule three_lengths)
  moreover have "ends_number (l1 # l2 # l3 # rest)" "l1 \<noteq> CHR ''.''" "l1 \<noteq> CHR ''%''"
    using l(1) by (auto simp: haclog_printf_is_length_def ends_number_def haclog_printf_is_digit_def
        haclog_printf_is_flags_def)
  ultimately show ?thesis
    using num_params_broken [OF assms(1,2), of "l1 # l2 # l3 # rest"] by simp
qed

lemma rejected_type:
  assumes "\<forall>it\<in>set items. item_ok it" and "front_ok fl w p"
    and l: "l \<in> fst ` set length_table" and rest: "\<not> haclog_printf_is_type (deref rest)"
      "\<not> haclog_printf_is_length (deref rest)" "ends_number rest" "deref rest \<notin> {CHR ''.'', CHR ''%''}"
  shows "fst (haclog_printf_num_params
      (fmt_text items @ CHR ''%'' # fl @ num_text w @ prec_text p @ l @ rest)) = HACLOG_ERR_PRINTF_TYPE"
proof -
  have len: "num_params_length 0 (l @ rest) = Inr rest"
    using l rest(2) by (rule num_params_length_stops)
  have "ends_number (l @ rest)" "deref (l @ rest) \<noteq> CHR ''.''" "deref (l @ rest) \<noteq> CHR ''%''"
    using length_table_cases [OF l] rest
    by (auto simp: ends_number_def haclog_printf_is_digit_def haclog_printf_is_flags_def)
  then show ?thesis
    using num_params_broken [OF assms(1,2), of "l @ rest"] len rest(1) by simp
qed



end
