(* ===== verification/Haclog_Serialize.thy ===== *)
theory Haclog_Serialize
  imports Haclog_Primitive Haclog_Ring
begin

text \<open>
  \<open>haclog_printf_primitive_serialize\<close> of \<open>haclog_vsprintf.c\<close>: a log statement's arguments copied into
  the byte ring as one record of header, parameter slots, strings and a cache line of distance. The
  values the thread observes when it loads \<open>r\<close>, the clock and the variadic arguments are inputs; what
  the function does to the buffer, the thread-local \<open>r\<close> and the last error is its result.
\<close>

section \<open>Slots\<close>

type_synonym slot = "nat \<times> char list"

text \<open>
  \<open>HACLOG_SERIALIZE\<close>: the value's bytes in a slot of \<open>sizeof(haclog_serialize_placeholder)\<close>; a long
  double takes its own size. The value is converted to the type of its case before.
\<close>

definition ser_value :: "format_type \<Rightarrow> carg \<Rightarrow> slot option" where
  "ser_value ft v =
     (case (ft, v) of
        (HACLOG_FT_DOUBLE, C_double x) \<Rightarrow> Some (8, le_enc 8 x)
      | (HACLOG_FT_LONG_DOUBLE, C_long_double x) \<Rightarrow> Some (16, le_enc 16 x)
      | (HACLOG_FT_SIZE, C_long x) \<Rightarrow> Some (8, le_enc 8 x)
      | (HACLOG_FT_PTR, C_ptr x) \<Rightarrow> Some (8, le_enc 8 x)
      | (HACLOG_FT_PTRDIFF, C_long x) \<Rightarrow> Some (8, le_enc 8 x)
      | (HACLOG_FT_CHAR, C_int x) \<Rightarrow> Some (8, le_enc 1 x)
      | (HACLOG_FT_BYTE, C_int x) \<Rightarrow> Some (8, le_enc 1 x)
      | (HACLOG_FT_UCHAR, C_int x) \<Rightarrow> Some (8, le_enc 1 x)
      | (HACLOG_FT_UBYTE, C_int x) \<Rightarrow> Some (8, le_enc 1 x)
      | (HACLOG_FT_SHORT, C_int x) \<Rightarrow> Some (8, le_enc 2 x)
      | (HACLOG_FT_USHORT, C_int x) \<Rightarrow> Some (8, le_enc 2 x)
      | (HACLOG_FT_INT, C_int x) \<Rightarrow> Some (8, le_enc 4 x)
      | (HACLOG_FT_UINT, C_int x) \<Rightarrow> Some (8, le_enc 4 x)
      | (HACLOG_FT_LONG, C_long x) \<Rightarrow> Some (8, le_enc 8 x)
      | (HACLOG_FT_ULONG, C_long x) \<Rightarrow> Some (8, le_enc 8 x)
      | (HACLOG_FT_LONGLONG, C_long x) \<Rightarrow> Some (8, le_enc 8 x)
      | (HACLOG_FT_ULONGLONG, C_long x) \<Rightarrow> Some (8, le_enc 8 x)
      | _ \<Rightarrow> None)"

section \<open>Parameters\<close>

record str_cache =
  sc_s :: string
  sc_slen :: int
  sc_copy_slen :: int

definition HACLOG_MAX_STR_CACHE :: nat where
  "HACLOG_MAX_STR_CACHE = 128"

text \<open>
  What the loop over the parameters keeps: the arguments still to take, the entries of \<open>str_cache\<close>
  below \<open>n_str_idx\<close> and the extra one behind them, the number of strings and their total length.
\<close>

record arg_state =
  as_args :: "carg list"
  as_cache :: "str_cache list"
  as_full :: "str_cache option"
  as_n_str :: nat
  as_extra_len :: int

definition arg_start :: "carg list \<Rightarrow> arg_state" where
  "arg_start args = \<lparr>as_args = args, as_cache = [], as_full = None, as_n_str = 0, as_extra_len = 0\<rparr>"

definition round8 :: "int \<Rightarrow> int" where
  "round8 x = uint (haclog_round_to_2powx (word_of_int x :: 64 word) 8)"

lemma round8_eq:
  assumes "0 \<le> x" "x < 9223372036854775808"
  shows "round8 x = (x + 7) div 8 * 8"
proof -
  have "uint (word_of_int (x + 7) :: 64 word) = x + 7"
    using assms by (simp only: uint_word_of_int) simp
  then show ?thesis
    using uint_and_not_7 [of "word_of_int (x + 7)"] by (simp add: round8_def haclog_round_to_2powx_def)
qed

definition str_cache_full_text :: string where
  "str_cache_full_text = ''(haclog str cache full)''"

text \<open>The loop that measures a string up to the precision.\<close>

fun str_copy_len :: "string \<Rightarrow> int \<Rightarrow> int \<Rightarrow> int" where
  "str_copy_len [] precision copy_slen = copy_slen"
| "str_copy_len (c # s) precision copy_slen =
     (if copy_slen \<ge> precision then copy_slen else str_copy_len s precision (c_u64 (copy_slen + 1)))"

definition ser_str :: "printf_spec \<Rightarrow> int \<Rightarrow> arg_state \<Rightarrow> (slot list \<times> arg_state) option" where
  "ser_str spec precision s =
     (if length (as_cache s) = HACLOG_MAX_STR_CACHE then
        (let copy_slen = int (length str_cache_full_text);
             slen = c_u32 (round8 (copy_slen + 1))
         in Some ([(8, le_enc 8 (as_extra_len s))],
              s\<lparr>as_full := Some \<lparr>sc_s = str_cache_full_text, sc_slen = slen, sc_copy_slen = copy_slen\<rparr>,
                as_extra_len := c_u64 (as_extra_len s + slen), as_n_str := as_n_str s + 1\<rparr>))
      else
        (case as_args s of
           C_str str # args \<Rightarrow>
             (let copy_slen =
                    (if sp_precision spec = 0 then int (length str) else str_copy_len str precision 0);
                  slen = round8 (c_u64 (copy_slen + 1))
              in Some ([(8, le_enc 8 (as_extra_len s))],
                   s\<lparr>as_args := args,
                     as_cache := as_cache s @
                       [\<lparr>sc_s = str, sc_slen = c_u32 slen, sc_copy_slen = c_u32 copy_slen\<rparr>],
                     as_extra_len := c_u64 (as_extra_len s + slen), as_n_str := as_n_str s + 1\<rparr>))
         | _ \<Rightarrow> None))"

text \<open>One round of the loop: the slots it writes at \<open>p\<close>, in order. \<open>None\<close> is undefined behaviour.\<close>

definition ser_width :: "printf_spec \<Rightarrow> arg_state \<Rightarrow> (slot list \<times> arg_state) option" where
  "ser_width spec s =
     (if sp_width spec = HACLOG_PRINTF_SPEC_DYNAMIC then
        (case as_args s of
           C_int width # args \<Rightarrow> Some ([(8, le_enc 4 width)], s\<lparr>as_args := args\<rparr>)
         | _ \<Rightarrow> None)
      else Some ([], s))"

definition ser_precision :: "printf_spec \<Rightarrow> arg_state \<Rightarrow> (slot list \<times> int \<times> arg_state) option" where
  "ser_precision spec s =
     (if sp_precision spec = HACLOG_PRINTF_SPEC_DYNAMIC then
        (case as_args s of
           C_int x # args \<Rightarrow>
             (let precision = c_u64 (c_int x)
              in Some ([(8, le_enc 8 precision)], precision, s\<lparr>as_args := args\<rparr>))
         | _ \<Rightarrow> None)
      else Some ([], c_u64 (sp_precision spec), s))"

definition ser_arg :: "printf_spec \<Rightarrow> int \<Rightarrow> arg_state \<Rightarrow> (slot list \<times> arg_state) option" where
  "ser_arg spec precision s =
     (case sp_fmt_type spec of
        HACLOG_FT_STR \<Rightarrow> ser_str spec precision s
      | HACLOG_FT_NONE \<Rightarrow> Some ([], s)
      | ft \<Rightarrow>
          (case as_args s of
             [] \<Rightarrow> None
           | v # args \<Rightarrow>
               (case ser_value ft v of
                  None \<Rightarrow> None
                | Some slot \<Rightarrow> Some ([slot], s\<lparr>as_args := args\<rparr>))))"

definition ser_param :: "printf_spec \<Rightarrow> arg_state \<Rightarrow> (slot list \<times> arg_state) option" where
  "ser_param spec s =
     (case ser_width spec s of
        None \<Rightarrow> None
      | Some (ws, s) \<Rightarrow>
          (case ser_precision spec s of
             None \<Rightarrow> None
           | Some (ps, precision, s) \<Rightarrow>
               (case ser_arg spec precision s of
                  None \<Rightarrow> None
                | Some (vs, s) \<Rightarrow> Some (ws @ ps @ vs, s))))"

text \<open>Writing slots through \<open>p\<close>, which is NULL when it was taken at the very end of the block.\<close>

definition put_at :: "block \<Rightarrow> nat option \<Rightarrow> slot list \<Rightarrow> (block \<times> nat option) option" where
  "put_at m p slots =
     (case p of
        None \<Rightarrow> if slots = [] then Some (m, None) else None
      | Some a \<Rightarrow>
          (case put_slots mem_write m a slots of
             None \<Rightarrow> None
           | Some m \<Rightarrow> Some (m, Some (a + slots_len slots))))"

fun ser_params :: "printf_spec list \<Rightarrow> block \<Rightarrow> nat option \<Rightarrow> arg_state \<Rightarrow> (block \<times> arg_state) option" where
  "ser_params [] m p s = Some (m, s)"
| "ser_params (spec # specs) m p s =
     (case ser_param spec s of
        None \<Rightarrow> None
      | Some (slots, s) \<Rightarrow>
          (case put_at m p slots of
             None \<Rightarrow> None
           | Some (m, p) \<Rightarrow> ser_params specs m p s))"

section \<open>Strings and header\<close>

text \<open>\<open>memcpy\<close> of the string, its NUL, and the step to the next one.\<close>

definition str_slots :: "str_cache \<Rightarrow> slot list" where
  "str_slots c =
     [(nat (sc_copy_slen c), take (nat (sc_copy_slen c)) (sc_s c)),
      (nat (sc_slen c) - nat (sc_copy_slen c), [NUL])]"

text \<open>The strings in the order of the two loops: the cached ones, then the marker once for each other.\<close>

definition str_copies :: "arg_state \<Rightarrow> str_cache list" where
  "str_copies s =
     as_cache s @
     (case as_full s of
        None \<Rightarrow> []
      | Some full \<Rightarrow> replicate (as_n_str s - length (as_cache s)) full)"

definition ser_strings :: "block \<Rightarrow> nat option \<Rightarrow> arg_state \<Rightarrow> block option" where
  "ser_strings m p s = map_option fst (put_at m p (concat (map str_slots (str_copies s))))"

definition hdr_slots :: "int \<times> int \<Rightarrow> int \<Rightarrow> int \<Rightarrow> int \<Rightarrow> int \<Rightarrow> int \<Rightarrow> slot list" where
  "hdr_slots ts pos_const pos_str extra_len pos_end primitive =
     [(8, le_enc 8 (fst ts)), (8, le_enc 8 (snd ts)), (4, le_enc 4 pos_const), (4, le_enc 4 pos_str),
      (8, le_enc 8 extra_len), (8, le_enc 8 pos_end), (8, le_enc 8 primitive)]"

section \<open>The function\<close>

text \<open>
  The state it works on, and how it can end: with a value and the next state, by returning early,
  still waiting for room when the observations end, or with undefined behaviour.
\<close>

record ser_state =
  ss_bb :: bytes_buffer
  ss_r :: int
  ss_loads :: "int list"
  ss_proc :: proc

datatype 'a ser =
    Continue 'a ser_state
  | Returned ser_state
  | Waiting ser_state
  | Undefined

fun ser_bind :: "'a ser \<Rightarrow> ('a \<Rightarrow> ser_state \<Rightarrow> 'b ser) \<Rightarrow> 'b ser" where
  "ser_bind (Continue x s) f = f x s"
| "ser_bind (Returned s) f = Returned s"
| "ser_bind (Waiting s) f = Waiting s"
| "ser_bind Undefined f = Undefined"

text \<open>\<open>HACLOG_FETCH_W\<close>; each round that must wait loads \<open>r\<close> again.\<close>

fun fetch_loop :: "bytes_buffer \<Rightarrow> int \<Rightarrow> int \<Rightarrow> int \<Rightarrow> int list \<Rightarrow> proc \<Rightarrow> int ser" where
  "fetch_loop bytes_buf num_bytes w r loads p =
     (case haclog_bytes_buffer_w_fc bytes_buf num_bytes r w p of
        (p, ret) \<Rightarrow>
          (let s = \<lparr>ss_bb = bytes_buf, ss_r = r, ss_loads = loads, ss_proc = p\<rparr>
           in if ret \<ge> 0 then Continue ret s
              else if ret = - 1 then Returned s
              else
                (case loads of
                   [] \<Rightarrow> Waiting s
                 | r' # loads' \<Rightarrow> fetch_loop bytes_buf num_bytes w r' loads' p)))"

declare fetch_loop.simps [simp del]

definition HACLOG_FETCH_W :: "int \<Rightarrow> int \<Rightarrow> ser_state \<Rightarrow> int ser" where
  "HACLOG_FETCH_W num_bytes w s = fetch_loop (ss_bb s) num_bytes w (ss_r s) (ss_loads s) (ss_proc s)"

definition ser_get :: "int \<Rightarrow> ser_state \<Rightarrow> nat option ser" where
  "ser_get pos s =
     (case haclog_bytes_buffer_get (ss_bb s) pos (ss_proc s) of
        (p, a) \<Rightarrow> Continue a (s\<lparr>ss_proc := p\<rparr>))"

text \<open>A step that may be undefined, on the block.\<close>

definition ser_mem :: "(block \<Rightarrow> (block \<times> 'a) option) \<Rightarrow> ser_state \<Rightarrow> 'a ser" where
  "ser_mem f s =
     (case f (bb_buffer (ss_bb s)) of
        None \<Rightarrow> Undefined
      | Some (m, x) \<Rightarrow> Continue x (s\<lparr>ss_bb := (ss_bb s)\<lparr>bb_buffer := m\<rparr>\<rparr>))"

definition haclog_printf_primitive_serialize ::
  "int \<Rightarrow> printf_primitive \<Rightarrow> carg list \<Rightarrow> int \<times> int \<Rightarrow> ser_state \<Rightarrow> unit ser" where
  "haclog_printf_primitive_serialize primitive_ptr primitive args ts s =
     (let hdr_size = sizeof_serialize_hdr;
          w = bb_w (ss_bb s)
      in ser_bind (HACLOG_FETCH_W hdr_size w s) (\<lambda>w_hdr s.
         let w = c_int (w_hdr + hdr_size)
         in ser_bind (HACLOG_FETCH_W (c_int (pr_param_size primitive)) w s) (\<lambda>w_const_args s.
         let w = c_int (w_const_args + pr_param_size primitive)
         in ser_bind (ser_get w_const_args s) (\<lambda>p s.
         ser_bind (ser_mem (\<lambda>m. ser_params (take (pr_num_params primitive) (pr_specs primitive)) m p
                      (arg_start args)) s) (\<lambda>st s.
         ser_bind (HACLOG_FETCH_W (c_int (as_extra_len st)) w s) (\<lambda>w_str s.
         let w = c_int (w_str + as_extra_len st)
         in ser_bind (ser_get w_str s) (\<lambda>p s.
         ser_bind (ser_mem (\<lambda>m. map_option (\<lambda>m. (m, ())) (ser_strings m p st)) s) (\<lambda>_ s.
         ser_bind (HACLOG_FETCH_W HACLOG_CACHE_INTERVAL w s) (\<lambda>w_cache_line s.
         let w = c_int (w_cache_line + HACLOG_CACHE_INTERVAL)
         in ser_bind (ser_get w_hdr s) (\<lambda>hdr s.
         ser_bind (ser_mem (\<lambda>m. put_at m hdr
                      (hdr_slots ts w_const_args w_str (as_extra_len st) (c_u64 w) primitive_ptr)) s) (\<lambda>_ s.
         case haclog_bytes_buffer_w_move (ss_bb s) w (ss_proc s) of
           (p, b, ret) \<Rightarrow> Continue () (s\<lparr>ss_bb := b, ss_proc := p\<rparr>))))))))))))"

end
