(* ===== verification/Haclog_Format.thy ===== *)
theory Haclog_Format
  imports Haclog_Serialize
begin

text \<open>
  \<open>haclog_printf_primitive_format\<close> of \<open>haclog_vsprintf.c\<close>: the backend reads one record back from the
  byte ring and prints it. What \<open>snprintf\<close> makes of one conversion is the parameter \<open>expand\<close>, from
  the conversion's text and the arguments passed to the text produced; how much of it \<open>snprintf\<close>
  stores, and what it returns, is modelled.
\<close>

section \<open>snprintf\<close>

type_synonym expander = "string \<Rightarrow> carg list \<Rightarrow> string"

text \<open>
  \<open>snprintf(buf + a, n, ...)\<close> for a text: at most \<open>n - 1\<close> characters and a NUL, nothing for \<open>n = 0\<close>;
  the length of the whole text is returned, or -1 when an \<open>int\<close> cannot hold it.
\<close>

definition c_snprintf :: "block \<Rightarrow> int \<Rightarrow> int \<Rightarrow> string \<Rightarrow> (block \<times> int) option" where
  "c_snprintf buf a n txt =
     (let ret = (if int (length txt) < 2147483648 then int (length txt) else - 1)
      in if c_u64 n = 0 then Some (buf, ret)
         else if a < 0 then None
         else map_option (\<lambda>buf. (buf, ret))
                (mem_write buf (nat a) (take (nat (c_u64 n) - 1) txt @ [NUL])))"

definition HACLOG_MAX_FMT_ITEM :: int where
  "HACLOG_MAX_FMT_ITEM = 128"

text \<open>
  \<open>haclog_printf_primitive_format_str\<close> and the functions \<open>HACLOG_FORMAT_VAL_FUNC\<close> generates: a copy of
  the conversion's text, and the dynamic width and precision passed only when they are positive.
\<close>

definition fmt_str_of :: "string \<Rightarrow> printf_spec \<Rightarrow> string" where
  "fmt_str_of fmt spec =
     (let len = sp_pos_end spec - sp_pos_begin spec;
          len = (if len \<ge> HACLOG_MAX_FMT_ITEM then HACLOG_MAX_FMT_ITEM - 1 else len)
      in take (nat len) (drop (nat (sp_pos_begin spec)) fmt))"

definition haclog_printf_primitive_format_val ::
  "expander \<Rightarrow> string \<Rightarrow> printf_spec \<Rightarrow> int \<Rightarrow> int \<Rightarrow> carg \<Rightarrow> block \<Rightarrow> int \<Rightarrow> int \<Rightarrow> (block \<times> int) option" where
  "haclog_printf_primitive_format_val expand fmt spec width precision v buf a buf_remain =
     (let fmt_str = fmt_str_of fmt spec
      in if width > 0 then
           (if precision > 0
            then c_snprintf buf a buf_remain (expand fmt_str [C_int width, C_int precision, v])
            else c_snprintf buf a buf_remain (expand fmt_str [C_int width, v]))
         else
           (if precision > 0
            then c_snprintf buf a buf_remain (expand fmt_str [C_int precision, v])
            else c_snprintf buf a buf_remain (expand fmt_str [v])))"

section \<open>Reading parameters\<close>

text \<open>\<open>HACLOG_DESERIALIZE\<close>: the first bytes of the slot at \<open>p\<close>, and the step to the next slot.\<close>

definition get_at :: "block \<Rightarrow> nat option \<Rightarrow> nat \<Rightarrow> nat \<Rightarrow> (char list \<times> nat option) option" where
  "get_at m p n stride =
     (case p of
        None \<Rightarrow> None
      | Some a \<Rightarrow> map_option (\<lambda>bs. (bs, Some (a + stride))) (mem_read m a n))"

text \<open>The value a \<open>case\<close> reads: its size in memory, and what it is passed to \<open>snprintf\<close> as.\<close>

fun val_size :: "format_type \<Rightarrow> nat" where
  "val_size HACLOG_FT_LONG_DOUBLE = 16"
| "val_size HACLOG_FT_CHAR = 1"
| "val_size HACLOG_FT_BYTE = 1"
| "val_size HACLOG_FT_UCHAR = 1"
| "val_size HACLOG_FT_UBYTE = 1"
| "val_size HACLOG_FT_SHORT = 2"
| "val_size HACLOG_FT_USHORT = 2"
| "val_size HACLOG_FT_INT = 4"
| "val_size HACLOG_FT_UINT = 4"
| "val_size _ = 8"

definition val_stride :: "format_type \<Rightarrow> nat" where
  "val_stride ft = (if ft = HACLOG_FT_LONG_DOUBLE then 16 else 8)"

fun val_read :: "format_type \<Rightarrow> int \<Rightarrow> carg" where
  "val_read HACLOG_FT_DOUBLE x = C_double x"
| "val_read HACLOG_FT_LONG_DOUBLE x = C_long_double x"
| "val_read HACLOG_FT_SIZE x = C_long x"
| "val_read HACLOG_FT_PTR x = C_ptr x"
| "val_read HACLOG_FT_PTRDIFF x = C_long (c_s64 x)"
| "val_read HACLOG_FT_CHAR x = C_int (c_s8 x)"
| "val_read HACLOG_FT_BYTE x = C_int (c_s8 x)"
| "val_read HACLOG_FT_UCHAR x = C_int x"
| "val_read HACLOG_FT_UBYTE x = C_int x"
| "val_read HACLOG_FT_SHORT x = C_int (c_s16 x)"
| "val_read HACLOG_FT_USHORT x = C_int x"
| "val_read HACLOG_FT_INT x = C_int (c_int x)"
| "val_read HACLOG_FT_UINT x = C_int x"
| "val_read HACLOG_FT_LONG x = C_long (c_s64 x)"
| "val_read HACLOG_FT_ULONG x = C_long x"
| "val_read HACLOG_FT_LONGLONG x = C_long (c_s64 x)"
| "val_read HACLOG_FT_ULONGLONG x = C_long x"
| "val_read _ x = C_long x"

text \<open>
  What one round of the loop reads: width, precision, the value if its type has one, and where the
  next round reads. \<open>haclog_bytes_buffer_get\<close> may set the last error.
\<close>

definition fmt_dynamic :: "bool \<Rightarrow> block \<Rightarrow> nat option \<Rightarrow> (int \<times> nat option) option" where
  "fmt_dynamic dynamic m p =
     (if dynamic then map_option (\<lambda>(bs, p). (c_int (le_dec bs), p)) (get_at m p 4 8) else Some (0, p))"

definition fmt_value ::
  "format_type \<Rightarrow> bytes_buffer \<Rightarrow> int \<Rightarrow> nat option \<Rightarrow> proc \<Rightarrow> (carg option \<times> nat option \<times> proc) option" where
  "fmt_value ft b pos_str p s =
     (case ft of
        HACLOG_FT_NONE \<Rightarrow> Some (None, p, s)
      | HACLOG_FT_STR \<Rightarrow>
          (case get_at (bb_buffer b) p 8 8 of
             None \<Rightarrow> None
           | Some (bs, p) \<Rightarrow>
               (case haclog_bytes_buffer_get b (c_int (pos_str + le_dec bs)) s of
                  (s, None) \<Rightarrow> None
                | (s, Some a) \<Rightarrow>
                    map_option (\<lambda>str. (Some (C_str str), p, s)) (cstr_at (bb_buffer b) a)))
      | _ \<Rightarrow>
          map_option (\<lambda>(bs, p). (Some (val_read ft (le_dec bs)), p, s))
            (get_at (bb_buffer b) p (val_size ft) (val_stride ft)))"

definition fmt_read ::
  "printf_spec \<Rightarrow> bytes_buffer \<Rightarrow> int \<Rightarrow> nat option \<Rightarrow> proc \<Rightarrow>
   (int \<times> int \<times> carg option \<times> nat option \<times> proc) option" where
  "fmt_read spec b pos_str p s =
     (case fmt_dynamic (sp_width spec = HACLOG_PRINTF_SPEC_DYNAMIC) (bb_buffer b) p of
        None \<Rightarrow> None
      | Some (width, p) \<Rightarrow>
          (case fmt_dynamic (sp_precision spec = HACLOG_PRINTF_SPEC_DYNAMIC) (bb_buffer b) p of
             None \<Rightarrow> None
           | Some (precision, p) \<Rightarrow>
               map_option (\<lambda>(v, p, s). (width, precision, v, p, s))
                 (fmt_value (sp_fmt_type spec) b pos_str p s)))"

section \<open>The loop over the conversions\<close>

record fmt_state =
  fs_buf :: block
  fs_total :: int
  fs_remain :: int
  fs_pos :: int
  fs_p :: "nat option"
  fs_proc :: proc

text \<open>\<open>memcpy(buf + total_bytes, primitive->fmt + fmt_pos, n)\<close> after n is cut to what remains.\<close>

definition fmt_copy :: "string \<Rightarrow> int \<Rightarrow> fmt_state \<Rightarrow> fmt_state option" where
  "fmt_copy fmt n s =
     (let n = (if n > fs_remain s then fs_remain s else n)
      in if n < 0 \<or> fs_total s < 0 \<or> nat (fs_pos s) + nat n > length fmt then None
         else
           map_option (\<lambda>buf. s\<lparr>fs_buf := buf, fs_total := fs_total s + n, fs_remain := fs_remain s - n\<rparr>)
             (mem_write (fs_buf s) (nat (fs_total s)) (take (nat n) (drop (nat (fs_pos s)) fmt))))"

definition fmt_gap :: "string \<Rightarrow> int \<Rightarrow> fmt_state \<Rightarrow> fmt_state option" where
  "fmt_gap fmt pos_begin s =
     (if pos_begin > fs_pos s then
        (let n = pos_begin - fs_pos s;
             n = (if n > fs_remain s then fs_remain s else n)
         in if n > 0 then fmt_copy fmt n s else Some s)
      else Some s)"

text \<open>One round; \<open>True\<close> when the loop goes on.\<close>

definition fmt_conv ::
  "expander \<Rightarrow> string \<Rightarrow> bytes_buffer \<Rightarrow> int \<Rightarrow> printf_spec \<Rightarrow> fmt_state \<Rightarrow> (bool \<times> fmt_state) option" where
  "fmt_conv expand fmt b pos_str spec s =
     (case fmt_gap fmt (sp_pos_begin spec) s of
        None \<Rightarrow> None
      | Some s \<Rightarrow>
          (let s = s\<lparr>fs_pos := sp_pos_end spec\<rparr>
           in (case fmt_read spec b pos_str (fs_p s) (fs_proc s) of
                 None \<Rightarrow> None
               | Some (width, precision, v, p, proc) \<Rightarrow>
                   (let s = s\<lparr>fs_p := p, fs_proc := proc\<rparr>
                    in (case (case v of
                                None \<Rightarrow> Some (fs_buf s, 0)
                              | Some v \<Rightarrow>
                                  haclog_printf_primitive_format_val expand fmt spec width precision v
                                    (fs_buf s) (fs_total s) (fs_remain s)) of
                          None \<Rightarrow> None
                        | Some (buf, n) \<Rightarrow>
                            (let n = (if n > fs_remain s then fs_remain s else n);
                                 s = s\<lparr>fs_buf := buf, fs_total := fs_total s + n,
                                       fs_remain := fs_remain s - n\<rparr>
                             in Some (\<not> fs_remain s \<le> 0, s)))))))"

fun fmt_convs ::
  "expander \<Rightarrow> string \<Rightarrow> bytes_buffer \<Rightarrow> int \<Rightarrow> printf_spec list \<Rightarrow> fmt_state \<Rightarrow> fmt_state option" where
  "fmt_convs expand fmt b pos_str [] s = Some s"
| "fmt_convs expand fmt b pos_str (spec # specs) s =
     (case fmt_conv expand fmt b pos_str spec s of
        None \<Rightarrow> None
      | Some (again, s) \<Rightarrow> if again then fmt_convs expand fmt b pos_str specs s else Some s)"

section \<open>The function\<close>

record serialize_hdr =
  h_ts :: "int \<times> int"
  h_pos_const :: int
  h_pos_str :: int
  h_extra_len :: int
  h_pos_end :: int
  h_primitive :: int

definition hdr_read :: "block \<Rightarrow> nat \<Rightarrow> serialize_hdr option" where
  "hdr_read m a =
     map_option (\<lambda>bs. \<lparr>h_ts = (c_s64 (le_dec (take 8 bs)), c_s64 (le_dec (take 8 (drop 8 bs)))),
       h_pos_const = c_int (le_dec (take 4 (drop 16 bs))),
       h_pos_str = c_int (le_dec (take 4 (drop 20 bs))),
       h_extra_len = le_dec (take 8 (drop 24 bs)),
       h_pos_end = le_dec (take 8 (drop 32 bs)),
       h_primitive = le_dec (take 8 (drop 40 bs))\<rparr>) (mem_read m a 48)"

text \<open>What a call returns: the value, the buffer the message is in, the meta information filled in.\<close>

record fmt_result =
  fr_ret :: int
  fr_buf :: block
  fr_meta :: "(printf_loc \<times> int \<times> int) option"
  fr_bb :: bytes_buffer
  fr_proc :: proc

text \<open>\<open>prims\<close> is the memory the records' primitive pointers point into. \<open>None\<close> is undefined behaviour.\<close>

definition haclog_printf_primitive_format ::
  "expander \<Rightarrow> (int \<rightharpoonup> printf_primitive) \<Rightarrow> bytes_buffer \<Rightarrow> int \<Rightarrow> block \<Rightarrow> int \<Rightarrow> proc \<Rightarrow> fmt_result option" where
  "haclog_printf_primitive_format expand prims b w buf bufsize s =
     (if bufsize < 1 then
        Some \<lparr>fr_ret = - 1, fr_buf = buf, fr_meta = None, fr_bb = b,
              fr_proc = set_err HACLOG_ERR_ARGUMENTS s\<rparr>
      else if bb_r b = w then
        Some \<lparr>fr_ret = - 2, fr_buf = buf, fr_meta = None, fr_bb = b, fr_proc = s\<rparr>
      else
        (let b = (if bb_capacity b - bb_r b < sizeof_serialize_hdr then b\<lparr>bb_r := 0\<rparr> else b)
         in (case haclog_bytes_buffer_get b (bb_r b) s of
               (s, None) \<Rightarrow> None
             | (s, Some a) \<Rightarrow>
                 (case hdr_read (bb_buffer b) a of
                    None \<Rightarrow> None
                  | Some hdr \<Rightarrow>
                      (case haclog_bytes_buffer_get b (h_pos_const hdr) s of
                         (s, p) \<Rightarrow>
                           (case prims (h_primitive hdr) of
                              None \<Rightarrow> None
                            | Some primitive \<Rightarrow>
                                (case fmt_convs expand (pr_fmt primitive) b (h_pos_str hdr)
                                        (take (pr_num_params primitive) (pr_specs primitive))
                                        \<lparr>fs_buf = buf, fs_total = 0, fs_remain = c_int bufsize - 1,
                                         fs_pos = 0, fs_p = p, fs_proc = s\<rparr> of
                                   None \<Rightarrow> None
                                 | Some st \<Rightarrow>
                                     (case (if fs_pos st \<noteq> pr_fmt_len primitive
                                            then fmt_copy (pr_fmt primitive)
                                                   (c_int (pr_fmt_len primitive - fs_pos st)) st
                                            else Some st) of
                                        None \<Rightarrow> None
                                      | Some st \<Rightarrow>
                                          (if fs_total st < 0 then None
                                           else
                                             (case mem_write (fs_buf st) (nat (fs_total st)) [NUL] of
                                                None \<Rightarrow> None
                                              | Some buf \<Rightarrow>
                                                  (case haclog_bytes_buffer_r_move b
                                                          (c_int (h_pos_end hdr)) (fs_proc st) of
                                                     (s, b, ret) \<Rightarrow>
                                                       Some \<lparr>fr_ret = fs_total st, fr_buf = buf,
                                                         fr_meta = Some (pr_loc primitive, h_ts hdr),
                                                         fr_bb = b, fr_proc = s\<rparr>)))))))))))"

end
