(* ===== verification/Haclog_Roundtrip.thy ===== *)
theory Haclog_Roundtrip
  imports Haclog_Format
begin

text \<open>
  From the arguments of a log statement through the byte ring to the formatted text: what the
  serializer puts into the slots is what the formatter reads from them, and what the formatter
  prints is the text \<open>printf\<close> would have produced.
\<close>

section \<open>Values\<close>

text \<open>The conversion an argument undergoes on its way: the one to the type its conversion names.\<close>

fun c_convert :: "format_type \<Rightarrow> carg \<Rightarrow> carg" where
  "c_convert ft (C_int x) =
     C_int (case ft of
       HACLOG_FT_CHAR \<Rightarrow> c_s8 x | HACLOG_FT_BYTE \<Rightarrow> c_s8 x
     | HACLOG_FT_UCHAR \<Rightarrow> c_u8 x | HACLOG_FT_UBYTE \<Rightarrow> c_u8 x
     | HACLOG_FT_SHORT \<Rightarrow> c_s16 x | HACLOG_FT_USHORT \<Rightarrow> c_u16 x
     | HACLOG_FT_UINT \<Rightarrow> c_u32 x | _ \<Rightarrow> c_int x)"
| "c_convert ft (C_long x) =
     C_long (if ft \<in> {HACLOG_FT_SIZE, HACLOG_FT_ULONG, HACLOG_FT_ULONGLONG} then c_u64 x else c_s64 x)"
| "c_convert ft (C_ptr x) = C_ptr (c_u64 x)"
| "c_convert ft (C_double x) = C_double (c_u64 x)"
| "c_convert ft (C_long_double x) = C_long_double (c_u128 x)"
| "c_convert ft (C_str s) = C_str s"

lemma take_bit_mod: "take_bit n (x :: int) = x mod 2 ^ n"
  by (simp add: take_bit_eq_mod)

lemma le_enc_conversions:
  "le_dec (le_enc 1 x) = c_u8 x" "le_dec (le_enc 2 x) = c_u16 x" "le_dec (le_enc 4 x) = c_u32 x"
  "le_dec (le_enc 8 x) = c_u64 x" "le_dec (le_enc 16 x) = c_u128 x"
  by (simp_all add: le_dec_enc c_u8_def c_u16_def c_u32_def c_u64_def c_u128_def take_bit_mod)

lemma signed_of_unsigned:
  "c_s8 (c_u8 x) = c_s8 x" "c_s16 (c_u16 x) = c_s16 x" "c_int (c_u32 x) = c_int x"
  "c_s64 (c_u64 x) = c_s64 x"
  by (simp_all add: c_s8_def c_u8_def c_s16_def c_u16_def c_int_def c_u32_def c_s64_def c_u64_def
      signed_take_bit_take_bit)

lemma c_u8_mod: "x mod 256 = c_u8 x"
  by (simp add: c_u8_def take_bit_mod)

lemma value_read_back:
  assumes "ser_value ft v = Some (k, bs)"
  shows "k = val_stride ft \<and> length bs = val_size ft \<and> val_read ft (le_dec bs) = c_convert ft v \<and>
    ft \<noteq> HACLOG_FT_NONE \<and> ft \<noteq> HACLOG_FT_STR"
  using assms
  by (cases ft; cases v) (auto simp: ser_value_def val_stride_def c_u8_mod le_enc_conversions signed_of_unsigned)

section \<open>Strings\<close>

lemma str_copy_len_eq:
  "0 \<le> n \<Longrightarrow> n + int (length s) < 9223372036854775808 \<Longrightarrow>
   str_copy_len s precision n = (if n \<ge> precision then n else min (n + int (length s)) precision)"
proof (induction s precision n rule: str_copy_len.induct)
  case (2 c s precision n)
  then show ?case by (auto simp: c_u64_id)
qed simp

text \<open>The part of a string its conversion needs: all of it without a precision.\<close>

definition str_stored :: "printf_spec \<Rightarrow> int \<Rightarrow> string \<Rightarrow> string" where
  "str_stored spec precision s =
     (if sp_precision spec = 0 \<or> precision < 0 then s else take (nat precision) s)"

lemma copy_len_stored:
  assumes "- 2147483648 \<le> precision" "precision < 2147483648" "int (length s) < 2147483648"
  shows "(if sp_precision spec = 0 then int (length s) else str_copy_len s (c_u64 precision) 0) =
    int (length (str_stored spec precision s))"
proof (cases "precision < 0")
  case True
  have "precision mod 18446744073709551616 = (precision + 18446744073709551616) mod 18446744073709551616"
    by simp
  also have "\<dots> = precision + 18446744073709551616"
    using True assms(1) by (intro mod_pos_pos_trivial) simp_all
  finally have "c_u64 precision = precision + 18446744073709551616"
    by (simp add: c_u64_def take_bit_mod)
  then show ?thesis using assms True by (simp add: str_copy_len_eq str_stored_def)
next
  case False
  then have "c_u64 precision = precision" using assms(2) by (simp add: c_u64_id)
  then show ?thesis using assms False by (auto simp: str_copy_len_eq str_stored_def min_def)
qed

definition entry_ok :: "str_cache \<Rightarrow> bool" where
  "entry_ok c \<longleftrightarrow> 0 \<le> sc_copy_slen c \<and> sc_copy_slen c \<le> int (length (sc_s c)) \<and>
     sc_copy_slen c + 1 \<le> sc_slen c \<and> sc_slen c mod 8 = 0 \<and> is_cstring (sc_s c)"

definition entry_text :: "str_cache \<Rightarrow> string" where
  "entry_text c = take (nat (sc_copy_slen c)) (sc_s c)"

lemma str_slots_len: "entry_ok c \<Longrightarrow> int (slots_len (str_slots c)) = sc_slen c"
  by (simp add: str_slots_def entry_ok_def flip: nat_diff_distrib)

lemma str_slots_ok: "entry_ok c \<Longrightarrow> slots_ok (str_slots c)"
  by (auto simp: str_slots_def entry_ok_def)

lemma slots_at_append:
  "slots_at rd m p (ss @ ts) \<longleftrightarrow> slots_at rd m p ss \<and> slots_at rd m (p + slots_len ss) ts"
  by (induction ss arbitrary: p rule: slots_ok.induct) (auto simp: add.assoc)

lemma takeWhile_NUL: "is_cstring s \<Longrightarrow> takeWhile (\<lambda>c. c \<noteq> NUL) (s @ NUL # rest) = s"
  by (induction s) (auto simp: is_cstring_def)

lemma slots_cstr_at:
  assumes "entry_ok c" "slots_at mem_read m a (str_slots c)"
  shows "cstr_at m a = Some (entry_text c)"
proof -
  let ?n = "nat (sc_copy_slen c)"
  have len: "length (entry_text c) = ?n" and s: "is_cstring (entry_text c)"
    using assms(1) by (auto simp: entry_ok_def entry_text_def is_cstring_def dest: in_set_takeD)
  have bytes: "mem_read m a (length (entry_text c)) = Some (entry_text c)"
    and nul: "mem_read m (a + ?n) 1 = Some [NUL]"
    using assms(2) by (simp_all add: str_slots_def entry_text_def)
  from bytes have 1: "take ?n (drop a m) = entry_text c" by (simp add: mem_read_Some len)
  from nul have 2: "a + ?n < length m" "m ! (a + ?n) = NUL"
    by (auto simp: mem_read_Some take_Suc hd_drop_conv_nth split: list.splits)
  have "drop a m = entry_text c @ NUL # drop (a + ?n + 1) m"
    using 1 2 by (metis append_take_drop_id drop_drop add.commute Cons_nth_drop_Suc Suc_eq_plus1)
  then show ?thesis by (simp add: cstr_at_def takeWhile_NUL [OF s])
qed

section \<open>One conversion\<close>

text \<open>
  What the arguments mean, with no memory in between: the dynamic width and precision of a conversion
  (0 when it has none), its value, and the arguments left.
\<close>

definition ref_dynamic :: "bool \<Rightarrow> carg list \<Rightarrow> (int \<times> carg list) option" where
  "ref_dynamic dynamic args =
     (if dynamic then (case args of C_int x # rest \<Rightarrow> Some (c_int x, rest) | _ \<Rightarrow> None)
      else Some (0, args))"

definition ref_conv :: "printf_spec \<Rightarrow> carg list \<Rightarrow> ((int \<times> int \<times> carg) \<times> carg list) option" where
  "ref_conv spec args =
     (case ref_dynamic (sp_width spec = HACLOG_PRINTF_SPEC_DYNAMIC) args of
        None \<Rightarrow> None
      | Some (width, args) \<Rightarrow>
          (case ref_dynamic (sp_precision spec = HACLOG_PRINTF_SPEC_DYNAMIC) args of
             None \<Rightarrow> None
           | Some (precision, args) \<Rightarrow>
               (case args of
                  [] \<Rightarrow> None
                | v # rest \<Rightarrow>
                    (if sp_fmt_type spec = HACLOG_FT_STR then
                       (case v of
                          C_str s \<Rightarrow>
                            Some ((width, precision, C_str (str_stored spec
                              (if sp_precision spec = HACLOG_PRINTF_SPEC_DYNAMIC then precision
                               else sp_precision spec) s)), rest)
                        | _ \<Rightarrow> None)
                     else if ser_value (sp_fmt_type spec) v = None then None
                     else Some ((width, precision, c_convert (sp_fmt_type spec) v), rest)))))"

fun ref_convs :: "printf_spec list \<Rightarrow> carg list \<Rightarrow> ((int \<times> int \<times> carg) list \<times> carg list) option" where
  "ref_convs [] args = Some ([], args)"
| "ref_convs (spec # specs) args =
     (case ref_conv spec args of
        None \<Rightarrow> None
      | Some (v, args) \<Rightarrow> map_option (\<lambda>(vs, args). (v # vs, args)) (ref_convs specs args))"

text \<open>A string argument is the characters before its NUL.\<close>

fun carg_ok :: "carg \<Rightarrow> bool" where
  "carg_ok (C_str s) \<longleftrightarrow> is_cstring s"
| "carg_ok _ \<longleftrightarrow> True"

text \<open>The room the strings of a statement need, at most.\<close>

fun carg_room :: "carg \<Rightarrow> int" where
  "carg_room (C_str s) = int (length s) + 8"
| "carg_room _ = 0"

definition args_room :: "carg list \<Rightarrow> int" where
  "args_room args = sum_list (map carg_room args)"

lemma args_room_simps [simp]:
  "args_room [] = 0" "args_room (a # args) = carg_room a + args_room args"
  by (simp_all add: args_room_def)

lemma carg_room_nonneg: "0 \<le> carg_room a"
  by (cases a) simp_all

lemma args_room_nonneg: "0 \<le> args_room args"
  by (induction args) (simp_all add: carg_room_nonneg)

definition cache_len :: "str_cache list \<Rightarrow> int" where
  "cache_len cs = sum_list (map sc_slen cs)"

text \<open>The loop's state while there is still room for every string's entry.\<close>

definition as_inv :: "arg_state \<Rightarrow> bool" where
  "as_inv st \<longleftrightarrow>
     (\<forall>c\<in>set (as_cache st). entry_ok c) \<and> as_full st = None \<and>
     as_n_str st = length (as_cache st) \<and> as_extra_len st = cache_len (as_cache st) \<and>
     as_extra_len st + args_room (as_args st) < 2147483648 \<and> (\<forall>a\<in>set (as_args st). carg_ok a)"

definition is_str_spec :: "printf_spec \<Rightarrow> bool" where
  "is_str_spec spec \<longleftrightarrow> sp_fmt_type spec = HACLOG_FT_STR"

lemma cache_len_nonneg: "(\<forall>c\<in>set cs. entry_ok c) \<Longrightarrow> 0 \<le> cache_len cs"
  by (induction cs) (auto simp: cache_len_def entry_ok_def)

lemma as_inv_args: "as_inv st \<Longrightarrow> as_args st = a # args \<Longrightarrow> as_inv (st\<lparr>as_args := args\<rparr>)"
  using carg_room_nonneg [of a] by (auto simp: as_inv_def)

definition dynamic_reads :: "bool \<Rightarrow> slot list \<Rightarrow> int \<Rightarrow> bool" where
  "dynamic_reads dynamic ss w \<longleftrightarrow>
     (\<forall>m a rest. slots_at mem_read m a (ss @ rest) \<longrightarrow>
        fmt_dynamic dynamic m (Some a) = Some (w, Some (a + slots_len ss)))"

lemma dynamic_readsD:
  "dynamic_reads dynamic ss w \<Longrightarrow> slots_at mem_read m a (ss @ rest) \<Longrightarrow>
   fmt_dynamic dynamic m (Some a) = Some (w, Some (a + slots_len ss))"
  unfolding dynamic_reads_def by blast

lemma ser_width_ref:
  assumes "ser_width spec st = Some (ws, st')" "as_inv st"
  obtains w where "ref_dynamic (sp_width spec = HACLOG_PRINTF_SPEC_DYNAMIC) (as_args st) = Some (w, as_args st')"
    "as_inv st'" "as_cache st' = as_cache st" "slots_ok ws"
    "dynamic_reads (sp_width spec = HACLOG_PRINTF_SPEC_DYNAMIC) ws w"
proof (cases "sp_width spec = HACLOG_PRINTF_SPEC_DYNAMIC")
  case True
  with assms(1) obtain x args where st: "as_args st = C_int x # args" "ws = [(8, le_enc 4 x)]"
    "st' = st\<lparr>as_args := args\<rparr>"
    by (auto simp: ser_width_def split: list.splits carg.splits)
  from as_inv_args [OF assms(2) st(1)] show ?thesis
    by (intro that [of "c_int x"])
      (simp_all add: True st ref_dynamic_def dynamic_reads_def fmt_dynamic_def get_at_def le_enc_conversions signed_of_unsigned)
next
  case False
  with assms that [of 0] show ?thesis by (simp add: ser_width_def ref_dynamic_def dynamic_reads_def fmt_dynamic_def)
qed

lemma take_le_enc: "k \<le> n \<Longrightarrow> take k (le_enc n x) = le_enc k x"
proof (induction k arbitrary: n x)
  case (Suc k)
  then show ?case by (cases n) simp_all
qed simp

lemma low_int_of_u64: "c_int (c_u32 (c_u64 (c_int x))) = c_int x"
  by (simp add: c_int_def c_u32_def c_u64_def signed_take_bit_take_bit)

lemma ser_precision_ref:
  assumes "ser_precision spec st = Some (ps, prec, st')" "as_inv st"
  obtains q where "ref_dynamic (sp_precision spec = HACLOG_PRINTF_SPEC_DYNAMIC) (as_args st) = Some (q, as_args st')"
    "as_inv st'" "as_cache st' = as_cache st" "slots_ok ps"
    "prec = c_u64 (if sp_precision spec = HACLOG_PRINTF_SPEC_DYNAMIC then q else sp_precision spec)"
    "- 2147483648 \<le> q" "q < 2147483648"
    "dynamic_reads (sp_precision spec = HACLOG_PRINTF_SPEC_DYNAMIC) ps q"
proof (cases "sp_precision spec = HACLOG_PRINTF_SPEC_DYNAMIC")
  case True
  with assms(1) obtain v args where va: "as_args st = v # args"
    by (cases "as_args st") (simp_all add: ser_precision_def)
  with True assms(1) obtain x where "v = C_int x"
    by (cases v) (simp_all add: ser_precision_def)
  with True assms(1) va have st: "as_args st = C_int x # args"
    "ps = [(8, le_enc 8 (c_u64 (c_int x)))]" "prec = c_u64 (c_int x)" "st' = st\<lparr>as_args := args\<rparr>"
    by (auto simp: ser_precision_def Let_def)
  have "mem_read m a 8 = Some (le_enc 8 (c_u64 (c_int x))) \<Longrightarrow>
      mem_read m a 4 = Some (le_enc 4 (c_u64 (c_int x)))" for m a
    using heap.rd_sub [of m a 8 _ 0 4] by (simp add: take_le_enc)
  with as_inv_args [OF assms(2) st(1)] c_int_range [of x] show ?thesis
    by (intro that [of "c_int x"])
      (simp_all add: True st ref_dynamic_def dynamic_reads_def fmt_dynamic_def get_at_def le_enc_conversions low_int_of_u64)
next
  case False
  with assms that [of 0] show ?thesis
    by (simp add: ser_precision_def ref_dynamic_def dynamic_reads_def fmt_dynamic_def)
qed

text \<open>The strings of a record lie behind its parameters at \<open>pos_str\<close>, in the order of the cache.\<close>

definition strings_at :: "block \<Rightarrow> nat \<Rightarrow> str_cache list \<Rightarrow> bool" where
  "strings_at m a cs \<longleftrightarrow> (\<forall>c\<in>set cs. entry_ok c) \<and> slots_at mem_read m a (concat (map str_slots cs))"

lemma slots_len_strings:
  "(\<forall>c\<in>set cs. entry_ok c) \<Longrightarrow> int (slots_len (concat (map str_slots cs))) = cache_len cs"
  by (induction cs) (simp_all add: cache_len_def str_slots_len)

lemma strings_at_nth:
  assumes "strings_at m a (cs @ c # ds)"
  shows "cstr_at m (a + nat (cache_len cs)) = Some (entry_text c)"
proof -
  have "(\<forall>c\<in>set cs. entry_ok c)" and c: "entry_ok c" using assms by (auto simp: strings_at_def)
  then have "slots_len (concat (map str_slots cs)) = nat (cache_len cs)"
    using slots_len_strings by fastforce
  with assms have "slots_at mem_read m (a + nat (cache_len cs)) (str_slots c)"
    by (simp add: strings_at_def slots_at_append)
  with c show ?thesis by (rule slots_cstr_at)
qed

lemma new_entry:
  assumes "0 \<le> k" "k \<le> int (length s)" "int (length s) + 8 < 2147483648" "is_cstring s"
  defines "c \<equiv> \<lparr>sc_s = s, sc_slen = c_u32 (round8 (c_u64 (k + 1))), sc_copy_slen = c_u32 k\<rparr>"
  shows "entry_ok c" "entry_text c = take (nat k) s" "sc_slen c = round8 (c_u64 (k + 1))"
    "sc_slen c \<le> int (length s) + 8"
proof -
  have r: "round8 (c_u64 (k + 1)) = (k + 8) div 8 * 8" using assms by (simp add: c_u64_id round8_eq)
  have b: "k + 1 \<le> (k + 8) div 8 * 8" "(k + 8) div 8 * 8 \<le> k + 8" "0 \<le> (k + 8) div 8 * 8"
    using assms(1) by linarith+
  show "sc_slen c = round8 (c_u64 (k + 1))" "entry_text c = take (nat k) s"
    "entry_ok c" "sc_slen c \<le> int (length s) + 8"
    using assms b by (simp_all add: r c_u32_id entry_text_def entry_ok_def)
qed

text \<open>What the formatter reads of a value, given its slot and, for a string, the strings of the record.\<close>

lemma ser_str_ref:
  assumes str: "sp_fmt_type spec = HACLOG_FT_STR"
    and ser: "ser_arg spec (c_u64 prec) st = Some (vs, st')" and inv: "as_inv st"
    and room: "length (as_cache st) < HACLOG_MAX_STR_CACHE"
    and prec: "- 2147483648 \<le> prec" "prec < 2147483648"
  obtains s args c where "as_args st = C_str s # args" "as_args st' = args" "as_inv st'"
    "vs = [(8, le_enc 8 (as_extra_len st))]"
    "as_cache st' = as_cache st @ [c]" "entry_ok c" "entry_text c = str_stored spec prec s"
    "as_extra_len st' + args_room (as_args st') \<le> as_extra_len st + args_room (as_args st)"
proof -
  from ser str room obtain v args where va: "as_args st = v # args"
    by (cases "as_args st") (simp_all add: ser_arg_def ser_str_def)
  with ser str room obtain s where args: "as_args st = C_str s # args"
    by (cases v) (simp_all add: ser_arg_def ser_str_def)
  define k where "k = int (length (str_stored spec prec s))"
  have nonneg: "0 \<le> as_extra_len st" using inv cache_len_nonneg by (auto simp: as_inv_def)
  have bound: "as_extra_len st + (int (length s) + 8 + args_room args) < 2147483648" "is_cstring s"
    using inv args by (simp_all add: as_inv_def)
  note len = args_room_nonneg [of args]
  have k: "0 \<le> k" "k \<le> int (length s)" by (simp_all add: k_def str_stored_def)
  have copy: "(if sp_precision spec = 0 then int (length s) else str_copy_len s (c_u64 prec) 0) = k"
    unfolding k_def using prec bound(1) nonneg len by (intro copy_len_stored) simp_all
  define c where "c = \<lparr>sc_s = s, sc_slen = c_u32 (round8 (c_u64 (k + 1))), sc_copy_slen = c_u32 k\<rparr>"
  have c: "entry_ok c" "entry_text c = take (nat k) s" "sc_slen c = round8 (c_u64 (k + 1))"
    "sc_slen c \<le> int (length s) + 8"
    unfolding c_def using new_entry [OF k _ bound(2)] bound(1) nonneg len by simp_all
  have pos: "0 < sc_slen c" using c(1) by (simp add: entry_ok_def)
  have extra: "c_u64 (as_extra_len st + round8 (c_u64 (k + 1))) = as_extra_len st + sc_slen c"
    unfolding c(3) [symmetric] using nonneg pos c(4) bound(1) len by (intro c_u64_id) linarith+
  have "ser_str spec (c_u64 prec) st = Some ([(8, le_enc 8 (as_extra_len st))],
      st\<lparr>as_args := args, as_cache := as_cache st @ [c],
        as_extra_len := as_extra_len st + sc_slen c, as_n_str := as_n_str st + 1\<rparr>)"
    using room args by (simp add: ser_str_def Let_def copy extra c_def [symmetric])
  with ser str have vs: "vs = [(8, le_enc 8 (as_extra_len st))]"
    and st': "st' = st\<lparr>as_args := args, as_cache := as_cache st @ [c],
      as_extra_len := as_extra_len st + sc_slen c, as_n_str := as_n_str st + 1\<rparr>"
    by (simp_all add: ser_arg_def)
  have "as_inv st'" using inv c(1,4) args by (auto simp: as_inv_def st' cache_len_def)
  moreover have "entry_text c = str_stored spec prec s"
    unfolding c(2) k_def by (auto simp: str_stored_def min_def)
  ultimately show ?thesis using args vs st' c(1,4) by (intro that) simp_all
qed

lemma fmt_value_str:
  assumes "sp_fmt_type spec = HACLOG_FT_STR" and cap: "bb_capacity b < 2147483648"
    and slot: "slots_at mem_read (bb_buffer b) a [(8, le_enc 8 (cache_len cs))]"
    and strs: "strings_at (bb_buffer b) pos_str (cs @ c # ds)"
    and room: "int pos_str + cache_len cs < bb_capacity b"
  shows "fmt_value (sp_fmt_type spec) b (int pos_str) (Some a) s =
    Some (Some (C_str (entry_text c)), Some (a + 8), s)"
proof -
  have nonneg: "0 \<le> cache_len cs"
    using strs by (intro cache_len_nonneg) (simp add: strings_at_def)
  have "le_dec (le_enc 8 (cache_len cs)) = cache_len cs"
    using nonneg room cap by (simp add: le_enc_conversions c_u64_id)
  moreover have "c_int (int pos_str + cache_len cs) = int pos_str + cache_len cs"
    using nonneg room cap by (simp add: c_int_id)
  moreover have "nat (int pos_str + cache_len cs) = pos_str + nat (cache_len cs)"
    using nonneg by simp
  ultimately show ?thesis
    using assms(1) slot nonneg room strings_at_nth [OF strs]
    by (simp add: fmt_value_def get_at_def haclog_bytes_buffer_get_def)
qed

lemma fmt_value_plain:
  assumes "ser_value (sp_fmt_type spec) v = Some slot"
    and "slots_at mem_read (bb_buffer b) a [slot]"
  shows "fmt_value (sp_fmt_type spec) b pos_str (Some a) s =
    Some (Some (c_convert (sp_fmt_type spec) v), Some (a + fst slot), s)"
proof -
  obtain k bs where slot: "slot = (k, bs)" by fastforce
  from value_read_back [OF assms(1) [unfolded slot]] have facts: "k = val_stride (sp_fmt_type spec)"
    "length bs = val_size (sp_fmt_type spec)" "val_read (sp_fmt_type spec) (le_dec bs) = c_convert (sp_fmt_type spec) v"
    "sp_fmt_type spec \<noteq> HACLOG_FT_NONE" "sp_fmt_type spec \<noteq> HACLOG_FT_STR" by simp_all
  from assms(2) slot facts have "get_at (bb_buffer b) (Some a) (val_size (sp_fmt_type spec))
      (val_stride (sp_fmt_type spec)) = Some (bs, Some (a + k))"
    by (simp add: get_at_def)
  with facts slot show ?thesis
    by (cases "sp_fmt_type spec") (simp_all add: fmt_value_def)
qed

lemma ser_arg_plain:
  "sp_fmt_type spec \<noteq> HACLOG_FT_STR \<Longrightarrow> sp_fmt_type spec \<noteq> HACLOG_FT_NONE \<Longrightarrow>
   ser_arg spec prec st =
     (case as_args st of
        [] \<Rightarrow> None
      | v # args \<Rightarrow>
          (case ser_value (sp_fmt_type spec) v of
             None \<Rightarrow> None
           | Some slot \<Rightarrow> Some ([slot], st\<lparr>as_args := args\<rparr>)))"
  by (cases "as_args st"; cases "sp_fmt_type spec") (simp_all add: ser_arg_def)

lemma ser_plain_ref:
  assumes "ser_arg spec prec st = Some (vs, st')" "sp_fmt_type spec \<noteq> HACLOG_FT_STR"
    "sp_fmt_type spec \<noteq> HACLOG_FT_NONE"
  obtains v args slot where "as_args st = v # args" "st' = st\<lparr>as_args := args\<rparr>" "vs = [slot]"
    "ser_value (sp_fmt_type spec) v = Some slot"
  using assms(1) unfolding ser_arg_plain [OF assms(2,3)]
  by (auto split: list.splits option.splits)

lemma value_slot_ok:
  assumes "ser_value ft v = Some slot"
  shows "slots_ok [slot]" "fst slot = val_stride ft"
proof -
  obtain k bs where slot: "slot = (k, bs)" by fastforce
  from value_read_back [OF assms [unfolded slot]] slot
  show "slots_ok [slot]" "fst slot = val_stride ft"
    by (cases ft; simp add: val_stride_def)+
qed

text \<open>One round of the serializer, and what the formatter's round reads of it later.\<close>

definition spec_reads ::
  "printf_spec \<Rightarrow> slot list \<Rightarrow> str_cache list \<Rightarrow> str_cache list \<Rightarrow> int \<times> int \<times> carg \<Rightarrow> bool" where
  "spec_reads spec slots cs new val \<longleftrightarrow>
     (\<forall>b a pos_str more s.
        bb_capacity b < 2147483648 \<longrightarrow> slots_at mem_read (bb_buffer b) a slots \<longrightarrow>
        strings_at (bb_buffer b) pos_str (cs @ new @ more) \<longrightarrow>
        int pos_str + cache_len (cs @ new @ more) \<le> bb_capacity b \<longrightarrow>
        fmt_read spec b (int pos_str) (Some a) s =
          Some (fst val, fst (snd val), Some (snd (snd val)), Some (a + slots_len slots), s))"

lemma spec_readsI:
  assumes "\<And>b a pos_str more s. bb_capacity b < 2147483648 \<Longrightarrow> slots_at mem_read (bb_buffer b) a slots \<Longrightarrow>
    strings_at (bb_buffer b) pos_str (cs @ new @ more) \<Longrightarrow>
    int pos_str + cache_len (cs @ new @ more) \<le> bb_capacity b \<Longrightarrow>
    fmt_read spec b (int pos_str) (Some a) s =
      Some (w, q, Some v, Some (a + slots_len slots), s)"
  shows "spec_reads spec slots cs new (w, q, v)"
  unfolding spec_reads_def using assms by simp

lemma cache_len_simps [simp]:
  "cache_len [] = 0" "cache_len (c # cs) = sc_slen c + cache_len cs"
  "cache_len (cs @ ds) = cache_len cs + cache_len ds"
  by (simp_all add: cache_len_def)

lemma fmt_read_parts:
  assumes "ser_width spec st = Some (ws, st1)" "as_inv st"
    and "ser_precision spec st1 = Some (ps, prec, st2)"
  obtains w q where
    "ref_dynamic (sp_width spec = HACLOG_PRINTF_SPEC_DYNAMIC) (as_args st) = Some (w, as_args st1)"
    "ref_dynamic (sp_precision spec = HACLOG_PRINTF_SPEC_DYNAMIC) (as_args st1) = Some (q, as_args st2)"
    "as_inv st2" "as_cache st2 = as_cache st" "slots_ok (ws @ ps)" "- 2147483648 \<le> q" "q < 2147483648"
    "prec = c_u64 (if sp_precision spec = HACLOG_PRINTF_SPEC_DYNAMIC then q else sp_precision spec)"
    "\<forall>b a vs pos_str s. slots_at mem_read (bb_buffer b) a (ws @ ps @ vs) \<longrightarrow>
       fmt_read spec b pos_str (Some a) s =
         map_option (\<lambda>(v, p, s). (w, q, v, p, s))
           (fmt_value (sp_fmt_type spec) b pos_str (Some (a + slots_len (ws @ ps))) s)"
proof -
  from assms(1,2) obtain w where w: "ref_dynamic (sp_width spec = HACLOG_PRINTF_SPEC_DYNAMIC)
      (as_args st) = Some (w, as_args st1)" "as_inv st1" "as_cache st1 = as_cache st" "slots_ok ws"
    "dynamic_reads (sp_width spec = HACLOG_PRINTF_SPEC_DYNAMIC) ws w"
    by (rule ser_width_ref)
  from assms(3) w(2) obtain q where q: "ref_dynamic (sp_precision spec = HACLOG_PRINTF_SPEC_DYNAMIC)
      (as_args st1) = Some (q, as_args st2)" "as_inv st2" "as_cache st2 = as_cache st1" "slots_ok ps"
    "prec = c_u64 (if sp_precision spec = HACLOG_PRINTF_SPEC_DYNAMIC then q else sp_precision spec)"
    "- 2147483648 \<le> q" "q < 2147483648"
    "dynamic_reads (sp_precision spec = HACLOG_PRINTF_SPEC_DYNAMIC) ps q"
    by (rule ser_precision_ref)
  have "fmt_read spec b pos_str (Some a) s =
      map_option (\<lambda>(v, p, s). (w, q, v, p, s))
        (fmt_value (sp_fmt_type spec) b pos_str (Some (a + slots_len (ws @ ps))) s)"
    if "slots_at mem_read (bb_buffer b) a (ws @ ps @ vs)" for b a vs pos_str s
  proof -
    from that have "slots_at mem_read (bb_buffer b) (a + slots_len ws) (ps @ vs)"
      by (simp add: slots_at_append)
    with dynamic_readsD [OF w(5) that] dynamic_readsD [OF q(8) this]
    show ?thesis by (simp add: fmt_read_def add.assoc)
  qed
  with w q that show ?thesis by auto
qed

lemma ser_width_len:
  "ser_width spec st = Some (ws, st') \<Longrightarrow>
   slots_len ws = (if sp_width spec = HACLOG_PRINTF_SPEC_DYNAMIC then 8 else 0)"
  by (auto simp: ser_width_def split: if_splits list.splits carg.splits)

lemma ser_precision_len:
  "ser_precision spec st = Some (ps, prec, st') \<Longrightarrow>
   slots_len ps = (if sp_precision spec = HACLOG_PRINTF_SPEC_DYNAMIC then 8 else 0)"
  by (auto simp: ser_precision_def Let_def split: if_splits list.splits carg.splits)

lemma ser_width_left:
  "ser_width spec st = Some (ws, st') \<Longrightarrow>
   as_extra_len st' + args_room (as_args st') \<le> as_extra_len st + args_room (as_args st)"
  by (auto simp: ser_width_def split: if_splits list.splits carg.splits)

lemma ser_precision_left:
  "ser_precision spec st = Some (ps, prec, st') \<Longrightarrow>
   as_extra_len st' + args_room (as_args st') \<le> as_extra_len st + args_room (as_args st)"
  by (auto simp: ser_precision_def Let_def split: if_splits list.splits carg.splits)

lemma ser_param_ref:
  assumes ser: "ser_param spec st = Some (slots, st')" and inv: "as_inv st"
    and typed: "sp_fmt_type spec \<noteq> HACLOG_FT_NONE"
    and room: "is_str_spec spec \<Longrightarrow> length (as_cache st) < HACLOG_MAX_STR_CACHE"
    and width: "- 2147483648 \<le> sp_precision spec" "sp_precision spec < 2147483648"
  obtains val new where "ref_conv spec (as_args st) = Some (val, as_args st')" "as_inv st'"
    "as_cache st' = as_cache st @ new" "length new = (if is_str_spec spec then 1 else 0)"
    "slots_ok slots" "int (slots_len slots) = haclog_printf_spec_param_size spec"
    "spec_reads spec slots (as_cache st) new val"
    "as_extra_len st' + args_room (as_args st') \<le> as_extra_len st + args_room (as_args st)"
proof -
  from ser obtain ws st1 ps prec st2 vs where w: "ser_width spec st = Some (ws, st1)"
    and p: "ser_precision spec st1 = Some (ps, prec, st2)"
    and a: "ser_arg spec prec st2 = Some (vs, st')" and slots: "slots = ws @ ps @ vs"
    by (auto simp: ser_param_def split: option.splits)
  from w inv p obtain wd q where parts:
    "ref_dynamic (sp_width spec = HACLOG_PRINTF_SPEC_DYNAMIC) (as_args st) = Some (wd, as_args st1)"
    "ref_dynamic (sp_precision spec = HACLOG_PRINTF_SPEC_DYNAMIC) (as_args st1) = Some (q, as_args st2)"
    "as_inv st2" "as_cache st2 = as_cache st" "slots_ok (ws @ ps)" "- 2147483648 \<le> q" "q < 2147483648"
    "prec = c_u64 (if sp_precision spec = HACLOG_PRINTF_SPEC_DYNAMIC then q else sp_precision spec)"
    "\<forall>b a vs pos_str s. slots_at mem_read (bb_buffer b) a (ws @ ps @ vs) \<longrightarrow>
       fmt_read spec b pos_str (Some a) s =
         map_option (\<lambda>(v, p, s). (wd, q, v, p, s))
           (fmt_value (sp_fmt_type spec) b pos_str (Some (a + slots_len (ws @ ps))) s)"
    by (rule fmt_read_parts)
  have left: "as_extra_len st2 + args_room (as_args st2) \<le> as_extra_len st + args_room (as_args st)"
    using ser_width_left [OF w] ser_precision_left [OF p] by simp
  have size: "int (slots_len (ws @ ps)) = haclog_printf_spec_param_size spec - int (val_stride (sp_fmt_type spec))"
    using ser_width_len [OF w] ser_precision_len [OF p]
    by (simp add: param_size_eq spec_dynamics_def val_stride_def)
  show ?thesis
  proof (cases "sp_fmt_type spec = HACLOG_FT_STR")
    case False
    with a typed obtain v args slot where v: "as_args st2 = v # args" "st' = st2\<lparr>as_args := args\<rparr>"
      "vs = [slot]" "ser_value (sp_fmt_type spec) v = Some slot" using ser_plain_ref by blast
    note slot = value_slot_ok [OF v(4)]
    have reads: "spec_reads spec slots (as_cache st) [] (wd, q, c_convert (sp_fmt_type spec) v)"
    proof (rule spec_readsI)
      fix b :: bytes_buffer and a pos_str more s
      assume at: "slots_at mem_read (bb_buffer b) a slots"
      then have "slots_at mem_read (bb_buffer b) (a + slots_len (ws @ ps)) [slot]"
        by (simp add: slots v(3) slots_at_append add.assoc)
      from fmt_value_plain [OF v(4) this] parts(9) [rule_format, OF at [unfolded slots]]
      show "fmt_read spec b (int pos_str) (Some a) s =
          Some (wd, q, Some (c_convert (sp_fmt_type spec) v), Some (a + slots_len slots), s)"
        by (simp add: slots v(3) add.assoc)
    qed
    show ?thesis
      by (rule that [OF _ _ _ _ _ _ reads])
        (use False parts(1-5) v as_inv_args [OF parts(3) v(1)] slot size carg_room_nonneg [of v] left in
          \<open>simp_all add: ref_conv_def is_str_spec_def slots\<close>)
  next
    case True
    let ?prec = "if sp_precision spec = HACLOG_PRINTF_SPEC_DYNAMIC then q else sp_precision spec"
    have room': "length (as_cache st2) < HACLOG_MAX_STR_CACHE"
      using room True parts(4) by (simp add: is_str_spec_def)
    from True a [unfolded parts(8)] parts(3) room' obtain str args c where c:
      "as_args st2 = C_str str # args" "as_args st' = args" "as_inv st'"
      "vs = [(8, le_enc 8 (as_extra_len st2))]" "as_cache st' = as_cache st2 @ [c]" "entry_ok c"
      "entry_text c = str_stored spec ?prec str"
      "as_extra_len st' + args_room (as_args st') \<le> as_extra_len st2 + args_room (as_args st2)"
      by (rule ser_str_ref) (use parts(6,7) width in simp_all)
    have extra: "as_extra_len st2 = cache_len (as_cache st)" using parts(3,4) by (simp add: as_inv_def)
    have reads: "spec_reads spec slots (as_cache st) [c] (wd, q, C_str (entry_text c))"
    proof (rule spec_readsI)
      fix b :: bytes_buffer and a pos_str more s
      assume cap: "bb_capacity b < 2147483648" and at: "slots_at mem_read (bb_buffer b) a slots"
        and strs: "strings_at (bb_buffer b) pos_str (as_cache st @ [c] @ more)"
        and fits: "int pos_str + cache_len (as_cache st @ [c] @ more) \<le> bb_capacity b"
      have "slots_at mem_read (bb_buffer b) (a + slots_len (ws @ ps)) [(8, le_enc 8 (cache_len (as_cache st)))]"
        using at by (simp add: slots c(4) extra slots_at_append add.assoc)
      moreover have "strings_at (bb_buffer b) pos_str (as_cache st @ c # more)" using strs by simp
      moreover have "int pos_str + cache_len (as_cache st) < bb_capacity b"
        using fits strs cache_len_nonneg [of more] by (auto simp: strings_at_def entry_ok_def)
      ultimately have "fmt_value (sp_fmt_type spec) b (int pos_str) (Some (a + slots_len (ws @ ps))) s =
          Some (Some (C_str (entry_text c)), Some (a + slots_len (ws @ ps) + 8), s)"
        by (rule fmt_value_str [OF True cap])
      with parts(9) [rule_format, OF at [unfolded slots]]
      show "fmt_read spec b (int pos_str) (Some a) s =
          Some (wd, q, Some (C_str (entry_text c)), Some (a + slots_len slots), s)"
        by (simp add: slots c(4) add.assoc)
    qed
    show ?thesis
      by (rule that [OF _ _ _ _ _ _ reads])
        (use True parts(1-5) c size left in
          \<open>simp_all add: ref_conv_def is_str_spec_def slots val_stride_def\<close>)
  qed
qed

section \<open>All conversions\<close>

definition spec_typed :: "printf_spec \<Rightarrow> bool" where
  "spec_typed spec \<longleftrightarrow> sp_fmt_type spec \<noteq> HACLOG_FT_NONE \<and>
     - 2147483648 \<le> sp_precision spec \<and> sp_precision spec < 2147483648"

definition num_strs :: "printf_spec list \<Rightarrow> nat" where
  "num_strs specs = length (filter is_str_spec specs)"

fun reads_all ::
  "printf_spec list \<Rightarrow> bytes_buffer \<Rightarrow> int \<Rightarrow> nat option \<Rightarrow> (int \<times> int \<times> carg) list \<Rightarrow> bool" where
  "reads_all [] b pos_str p vals \<longleftrightarrow> vals = []"
| "reads_all (spec # specs) b pos_str p vals \<longleftrightarrow>
     (\<exists>val vals' p'. vals = val # vals' \<and>
        (\<forall>s. fmt_read spec b pos_str p s = Some (fst val, fst (snd val), Some (snd (snd val)), p', s)) \<and>
        reads_all specs b pos_str p' vals')"

lemma put_slots_append:
  "put_slots wr m p (ss @ ts) =
     (case put_slots wr m p ss of None \<Rightarrow> None | Some m' \<Rightarrow> put_slots wr m' (p + slots_len ss) ts)"
  by (induction ss arbitrary: m p rule: slots_ok.induct) (auto simp: add.assoc split: option.splits)

definition params_read ::
  "printf_spec list \<Rightarrow> nat \<Rightarrow> slot list \<Rightarrow> str_cache list \<Rightarrow> (int \<times> int \<times> carg) list \<Rightarrow> bool" where
  "params_read specs a slots cs vals \<longleftrightarrow>
     (\<forall>b pos_str. bb_capacity b < 2147483648 \<longrightarrow> slots_at mem_read (bb_buffer b) a slots \<longrightarrow>
        strings_at (bb_buffer b) pos_str cs \<longrightarrow> int pos_str + cache_len cs \<le> bb_capacity b \<longrightarrow>
        reads_all specs b (int pos_str) (Some a) vals)"

lemma ser_params_ref:
  assumes "ser_params specs m (Some a) st = Some (m', st')" "as_inv st" "\<forall>spec\<in>set specs. spec_typed spec"
    and "length (as_cache st) + num_strs specs \<le> HACLOG_MAX_STR_CACHE"
  shows "\<exists>slots new vals. put_slots mem_write m a slots = Some m' \<and> slots_ok slots \<and>
    int (slots_len slots) = sum_list (map haclog_printf_spec_param_size specs) \<and>
    as_inv st' \<and> as_cache st' = as_cache st @ new \<and>
    ref_convs specs (as_args st) = Some (vals, as_args st') \<and> params_read specs a slots (as_cache st') vals \<and>
    as_extra_len st' + args_room (as_args st') \<le> as_extra_len st + args_room (as_args st)"
  using assms
proof (induction specs arbitrary: m a st)
  case Nil
  then show ?case by (intro exI [of _ "[]"]) (simp add: params_read_def)
next
  case (Cons spec specs)
  then obtain slots1 st1 m1 where ser: "ser_param spec st = Some (slots1, st1)"
    and put: "put_slots mem_write m a slots1 = Some m1"
    and rest: "ser_params specs m1 (Some (a + slots_len slots1)) st1 = Some (m', st')"
    by (auto simp: put_at_def split: option.splits)
  have typed: "sp_fmt_type spec \<noteq> HACLOG_FT_NONE" "- 2147483648 \<le> sp_precision spec"
    "sp_precision spec < 2147483648" using Cons.prems(3) by (simp_all add: spec_typed_def)
  have room: "is_str_spec spec \<Longrightarrow> length (as_cache st) < HACLOG_MAX_STR_CACHE"
    using Cons.prems(4) by (simp add: num_strs_def)
  from ser Cons.prems(2) typed(1) room typed(2,3) obtain val new1 where one:
    "ref_conv spec (as_args st) = Some (val, as_args st1)" "as_inv st1"
    "as_cache st1 = as_cache st @ new1" "length new1 = (if is_str_spec spec then 1 else 0)"
    "slots_ok slots1" "int (slots_len slots1) = haclog_printf_spec_param_size spec"
    "spec_reads spec slots1 (as_cache st) new1 val"
    "as_extra_len st1 + args_room (as_args st1) \<le> as_extra_len st + args_room (as_args st)"
    by (rule ser_param_ref)
  have "length (as_cache st1) + num_strs specs \<le> HACLOG_MAX_STR_CACHE"
    using Cons.prems(4) one(3,4) by (cases "is_str_spec spec") (simp_all add: num_strs_def)
  with Cons.IH [OF rest one(2)] Cons.prems(3) obtain slots2 new2 vals where more:
    "put_slots mem_write m1 (a + slots_len slots1) slots2 = Some m'" "slots_ok slots2"
    "int (slots_len slots2) = sum_list (map haclog_printf_spec_param_size specs)"
    "as_inv st'" "as_cache st' = as_cache st1 @ new2"
    "ref_convs specs (as_args st1) = Some (vals, as_args st')"
    "params_read specs (a + slots_len slots1) slots2 (as_cache st') vals"
    "as_extra_len st' + args_room (as_args st') \<le> as_extra_len st1 + args_room (as_args st1)"
    by auto
  have "params_read (spec # specs) a (slots1 @ slots2) (as_cache st') (val # vals)"
    unfolding params_read_def
  proof (intro allI impI)
    fix b :: bytes_buffer and pos_str
    assume b: "bb_capacity b < 2147483648" "slots_at mem_read (bb_buffer b) a (slots1 @ slots2)"
      "strings_at (bb_buffer b) pos_str (as_cache st')" "int pos_str + cache_len (as_cache st') \<le> bb_capacity b"
    have "\<forall>s. fmt_read spec b (int pos_str) (Some a) s =
        Some (fst val, fst (snd val), Some (snd (snd val)), Some (a + slots_len slots1), s)"
      using one(7) b more(5) one(3) unfolding spec_reads_def by (simp add: slots_at_append add.assoc)
    moreover have "reads_all specs b (int pos_str) (Some (a + slots_len slots1)) vals"
      using more(7) b unfolding params_read_def by (simp add: slots_at_append)
    ultimately show "reads_all (spec # specs) b (int pos_str) (Some a) (val # vals)" by auto
  qed
  then show ?case
    using put more one
    by (intro exI [of _ "slots1 @ slots2"] exI [of _ "new1 @ new2"] exI [of _ "val # vals"])
      (simp add: put_slots_append)
qed

end
