(* ===== verification/Haclog_Format_Text.thy ===== *)
theory Haclog_Format_Text
  imports Haclog_Roundtrip
begin

text \<open>
  What the formatter leaves in the caller's buffer. \<open>message_text\<close> is the whole text of a message,
  \<open>fmt_inv\<close> how much of it a buffer of \<open>N + 1\<close> bytes holds after each piece: all of it while it is
  shorter than N, its first \<open>N - 1\<close> characters otherwise.
\<close>

section \<open>The whole text\<close>

fun conv_args :: "int \<times> int \<times> carg \<Rightarrow> carg list" where
  "conv_args (width, precision, v) =
     (if width > 0 then [C_int width] else []) @ (if precision > 0 then [C_int precision] else []) @ [v]"

fun message_text :: "expander \<Rightarrow> string \<Rightarrow> printf_spec list \<Rightarrow> (int \<times> int \<times> carg) list \<Rightarrow> nat \<Rightarrow> string" where
  "message_text expand fmt (spec # specs) (val # vals) pos =
     take (nat (sp_pos_begin spec) - pos) (drop pos fmt) @
     expand (fmt_str_of fmt spec) (conv_args val) @
     message_text expand fmt specs vals (nat (sp_pos_end spec))"
| "message_text expand fmt specs vals pos = drop pos fmt"

text \<open>What \<open>printf\<close> can produce: its return value is an \<open>int\<close>.\<close>

definition expander_ok :: "expander \<Rightarrow> bool" where
  "expander_ok expand \<longleftrightarrow> (\<forall>f as. length (expand f as) < 2147483648)"

lemma format_val_eq:
  "haclog_printf_primitive_format_val expand fmt spec width precision v buf a n =
   c_snprintf buf a n (expand (fmt_str_of fmt spec) (conv_args (width, precision, v)))"
  by (simp add: haclog_printf_primitive_format_val_def Let_def)

section \<open>The buffer\<close>

definition fmt_inv :: "nat \<Rightarrow> string \<Rightarrow> fmt_state \<Rightarrow> bool" where
  "fmt_inv N out s \<longleftrightarrow>
     length (fs_buf s) = N + 1 \<and> N < 2147483648 \<and>
     fs_total s = int (min (length out) N) \<and> fs_remain s = int (N - length out) \<and>
     take (min (length out) N - 1) (fs_buf s) = take (min (length out) N - 1) out \<and>
     (length out < N \<longrightarrow> take (length out) (fs_buf s) = out)"

lemma fmt_inv_full: "fmt_inv N out s \<Longrightarrow> N \<le> length out \<Longrightarrow> fmt_inv N (out @ rest) s"
  by (auto simp: fmt_inv_def)

text \<open>Adding a piece of which \<open>k\<close> characters fit, stored with or without a NUL behind it.\<close>

lemma fmt_inv_add:
  assumes inv: "fmt_inv N out s" and short: "length out < N"
    and wr: "mem_write (fs_buf s) (length out) (take k piece @ tail) = Some buf"
    and k: "k = min (length piece) (N - length out) \<or>
      (k = N - length out - 1 \<and> N - length out \<le> length piece)"
  shows "fmt_inv N (out @ piece) (s\<lparr>fs_buf := buf, fs_total := int (min (length (out @ piece)) N),
    fs_remain := int (N - length (out @ piece))\<rparr>)"
proof -
  have old: "take (length out) (fs_buf s) = out" and len: "length (fs_buf s) = N + 1"
    using inv short by (simp_all add: fmt_inv_def)
  have kp: "k \<le> length piece" using k short by auto
  have buf: "buf = (out @ take k piece) @ tail @ drop (length out + length (take k piece @ tail)) (fs_buf s)"
    using wr old by (simp add: mem_write_Some)
  have front: "take n buf = take n (out @ piece)" if "n \<le> length out + k" for n
  proof -
    have "take n buf = take n (out @ take k piece)"
      unfolding buf using that kp by simp
    also have "\<dots> = take n (out @ piece)"
      using that by (simp add: min_absorb1)
    finally show ?thesis .
  qed
  have "length buf = N + 1" using heap.wr_size [OF wr] len by simp
  moreover have "min (length (out @ piece)) N - 1 \<le> length out + k"
    "length (out @ piece) < N \<longrightarrow> length (out @ piece) \<le> length out + k"
    using k short by auto
  moreover have "N < 2147483648" using inv by (simp add: fmt_inv_def)
  ultimately show ?thesis by (simp add: fmt_inv_def front del: length_append) (simp add: front)
qed

lemma fmt_copy_inv:
  assumes inv: "fmt_inv N out s" and n: "nat (fs_pos s) + n \<le> length fmt"
  obtains s' where "fmt_copy fmt (int n) s = Some s'"
    "fmt_inv N (out @ take n (drop (nat (fs_pos s)) fmt)) s'"
    "fs_pos s' = fs_pos s" "fs_p s' = fs_p s" "fs_proc s' = fs_proc s"
proof -
  let ?lit = "take n (drop (nat (fs_pos s)) fmt)"
  have lit: "length ?lit = n" using n by simp
  have rem: "fs_remain s = int (N - length out)" and tot: "fs_total s = int (min (length out) N)"
    and len: "length (fs_buf s) = N + 1" using inv by (simp_all add: fmt_inv_def)
  let ?k = "min n (N - length out)"
  have k: "(if int n > fs_remain s then fs_remain s else int n) = int ?k" by (simp add: rem min_def)
  have lit_k: "take ?k (drop (nat (fs_pos s)) fmt) = take ?k ?lit" by simp
  have "length (take ?k ?lit) = ?k" using lit by simp
  then have "min (length out) N + length (take ?k ?lit) \<le> length (fs_buf s)"
    using len by (simp only:)
  then obtain buf where wr: "mem_write (fs_buf s) (min (length out) N) (take ?k ?lit) = Some buf"
    using heap.wr_Some by blast
  let ?s = "s\<lparr>fs_buf := buf, fs_total := fs_total s + int ?k, fs_remain := fs_remain s - int ?k\<rparr>"
  have copy: "fmt_copy fmt (int n) s = Some ?s"
    unfolding fmt_copy_def Let_def k using n wr by (simp add: tot lit_k del: take_take)
  have "fmt_inv N (out @ ?lit) ?s"
  proof (cases "length out < N")
    case True
    then have add: "mem_write (fs_buf s) (length out) (take ?k ?lit @ []) = Some buf" using wr by simp
    have "?k = min (length ?lit) (N - length out)" using lit by simp
    note fmt_inv_add [OF inv True add disjI1 [OF this]]
    moreover have "int (min (length (out @ ?lit)) N) = fs_total s + int ?k"
      "int (N - length (out @ ?lit)) = fs_remain s - int ?k"
      using True unfolding length_append lit tot rem by (auto simp: min_def)
    ultimately show ?thesis by simp
  next
    case False
    then have "buf = fs_buf s" "?k = 0" using wr by (simp_all add: mem_write_Some)
    then show ?thesis using fmt_inv_full [OF inv, of ?lit] False by simp
  qed
  from that [OF copy this] show ?thesis by simp
qed

lemma c_snprintf_inv:
  assumes inv: "fmt_inv N out s" and e: "length e < 2147483648"
  obtains buf n where "c_snprintf (fs_buf s) (fs_total s) (fs_remain s) e = Some (buf, n)"
    "fmt_inv N (out @ e) (s\<lparr>fs_buf := buf,
       fs_total := fs_total s + (if n > fs_remain s then fs_remain s else n),
       fs_remain := fs_remain s - (if n > fs_remain s then fs_remain s else n)\<rparr>)"
proof -
  have rem: "fs_remain s = int (N - length out)" and tot: "fs_total s = int (min (length out) N)"
    and len: "length (fs_buf s) = N + 1" and N: "N < 2147483648" using inv by (simp_all add: fmt_inv_def)
  have u: "c_u64 (fs_remain s) = fs_remain s" using N by (simp add: rem c_u64_id)
  show ?thesis
  proof (cases "length out < N")
    case False
    then have "c_snprintf (fs_buf s) (fs_total s) (fs_remain s) e = Some (fs_buf s, int (length e))"
      using e by (simp add: c_snprintf_def Let_def rem c_u64_def)
    then show ?thesis using fmt_inv_full [OF inv, of e] False
      by (intro that) (auto simp: fmt_inv_def)
  next
    case True
    let ?k = "min (length e) (N - length out - 1)"
    have "length out + length (take ?k e @ [NUL]) \<le> length (fs_buf s)" using True len by simp
    then obtain buf where wr: "mem_write (fs_buf s) (length out) (take ?k e @ [NUL]) = Some buf"
      using heap.wr_Some by blast
    have take_k: "take (nat (fs_remain s) - 1) e = take ?k e" by (simp add: rem min_def)
    have "c_snprintf (fs_buf s) (fs_total s) (fs_remain s) e = Some (buf, int (length e))"
      unfolding c_snprintf_def u take_k Let_def using True wr e by (simp add: tot rem)
    moreover have "fmt_inv N (out @ e) (s\<lparr>fs_buf := buf, fs_total := int (min (length (out @ e)) N),
        fs_remain := int (N - length (out @ e))\<rparr>)"
      by (rule fmt_inv_add [OF inv True wr]) (use True in auto)
    moreover have "int (min (length (out @ e)) N) =
        fs_total s + (if int (length e) > fs_remain s then fs_remain s else int (length e))"
      "int (N - length (out @ e)) =
        fs_remain s - (if int (length e) > fs_remain s then fs_remain s else int (length e))"
      using True unfolding length_append tot rem by (simp_all add: min_def)
    ultimately show ?thesis by (intro that) simp_all
  qed
qed

section \<open>Rounds of the loop\<close>

lemma fmt_copy_clip:
  "fmt_copy fmt (if n > fs_remain s then fs_remain s else n) s = fmt_copy fmt n s"
  by (cases "n > fs_remain s") (simp_all add: fmt_copy_def)

lemma fmt_inv_other:
  "fmt_inv N out s \<Longrightarrow> fmt_inv N out (s\<lparr>fs_pos := pos, fs_p := p, fs_proc := proc\<rparr>)"
  by (cases s, simp only: fmt_inv_def fmt_state.simps simp_thms, blast)

lemma fmt_gap_inv:
  assumes inv: "fmt_inv N out s" and pos: "0 \<le> fs_pos s" "fs_pos s \<le> b" "nat b \<le> length fmt"
  obtains s' where "fmt_gap fmt b s = Some s'"
    "fmt_inv N (out @ take (nat b - nat (fs_pos s)) (drop (nat (fs_pos s)) fmt)) s'"
    "fs_p s' = fs_p s" "fs_proc s' = fs_proc s"
proof (cases "fs_pos s < b \<and> 0 < fs_remain s")
  case False
  have "N \<le> length out" if "fs_pos s < b" using that False inv by (simp add: fmt_inv_def)
  then have "fmt_inv N (out @ take (nat b - nat (fs_pos s)) (drop (nat (fs_pos s)) fmt)) s"
    using inv pos fmt_inv_full [OF inv] by (cases "fs_pos s < b") auto
  moreover have "fmt_gap fmt b s = Some s" using False by (auto simp: fmt_gap_def)
  ultimately show ?thesis by (intro that) simp_all
next
  case True
  let ?n = "nat b - nat (fs_pos s)"
  have "nat (fs_pos s) \<le> nat b" using pos(2) by (rule nat_mono)
  with pos True have n: "int ?n = b - fs_pos s" "nat (fs_pos s) + ?n \<le> length fmt"
    by (simp_all add: of_nat_diff)
  from inv n(2) obtain s' where s': "fmt_copy fmt (int ?n) s = Some s'"
    "fmt_inv N (out @ take ?n (drop (nat (fs_pos s)) fmt)) s'" "fs_pos s' = fs_pos s"
    "fs_p s' = fs_p s" "fs_proc s' = fs_proc s"
    by (rule fmt_copy_inv)
  have "fmt_copy fmt (if int ?n > fs_remain s then fs_remain s else int ?n) s = fmt_copy fmt (int ?n) s"
    by (rule fmt_copy_clip)
  then have "fmt_gap fmt b s = fmt_copy fmt (int ?n) s"
    using True unfolding fmt_gap_def Let_def n(1) by auto
  with s'(1) have "fmt_gap fmt b s = Some s'" by simp
  from that [OF this s'(2,4,5)] show ?thesis .
qed

lemma fmt_conv_inv:
  assumes inv: "fmt_inv N out s" and pos: "0 \<le> fs_pos s" "fs_pos s \<le> sp_pos_begin spec"
      "nat (sp_pos_begin spec) \<le> length fmt"
    and rd: "\<forall>proc. fmt_read spec b pos_str (fs_p s) proc =
      Some (fst val, fst (snd val), Some (snd (snd val)), p', proc)"
    and expand: "expander_ok expand"
  obtains s' where "fmt_conv expand fmt b pos_str spec s = Some (\<not> fs_remain s' \<le> 0, s')"
    "fmt_inv N (out @ take (nat (sp_pos_begin spec) - nat (fs_pos s)) (drop (nat (fs_pos s)) fmt) @
       expand (fmt_str_of fmt spec) (conv_args val)) s'"
    "fs_pos s' = sp_pos_end spec" "fs_p s' = p'" "fs_proc s' = fs_proc s"
proof -
  let ?gap = "take (nat (sp_pos_begin spec) - nat (fs_pos s)) (drop (nat (fs_pos s)) fmt)"
  let ?e = "expand (fmt_str_of fmt spec) (conv_args val)"
  from inv pos obtain s1 where s1: "fmt_gap fmt (sp_pos_begin spec) s = Some s1"
    "fmt_inv N (out @ ?gap) s1" "fs_p s1 = fs_p s" "fs_proc s1 = fs_proc s"
    by (rule fmt_gap_inv)
  let ?s2 = "s1\<lparr>fs_pos := sp_pos_end spec, fs_p := p', fs_proc := fs_proc s\<rparr>"
  have inv2: "fmt_inv N (out @ ?gap) ?s2" by (rule fmt_inv_other [OF s1(2)])
  have "length ?e < 2147483648" using expand by (simp add: expander_ok_def)
  from inv2 this obtain buf n where sn: "c_snprintf (fs_buf ?s2) (fs_total ?s2) (fs_remain ?s2) ?e = Some (buf, n)"
    "fmt_inv N ((out @ ?gap) @ ?e) (?s2\<lparr>fs_buf := buf,
       fs_total := fs_total ?s2 + (if n > fs_remain ?s2 then fs_remain ?s2 else n),
       fs_remain := fs_remain ?s2 - (if n > fs_remain ?s2 then fs_remain ?s2 else n)\<rparr>)"
    by (rule c_snprintf_inv)
  define s3 where "s3 = ?s2\<lparr>fs_buf := buf,
    fs_total := fs_total ?s2 + (if n > fs_remain ?s2 then fs_remain ?s2 else n),
    fs_remain := fs_remain ?s2 - (if n > fs_remain ?s2 then fs_remain ?s2 else n)\<rparr>"
  have val: "conv_args (fst val, fst (snd val), snd (snd val)) = conv_args val" by simp
  have "fmt_conv expand fmt b pos_str spec s = Some (\<not> fs_remain s3 \<le> 0, s3)"
    using s1 rd sn(1)
    by (simp add: fmt_conv_def format_val_eq val Let_def s3_def del: conv_args.simps)
  moreover have "fmt_inv N (out @ ?gap @ ?e) s3" using sn(2) by (simp only: s3_def append_assoc)
  ultimately show ?thesis by (rule that) (simp_all add: s3_def)
qed

text \<open>
  The loop, and the rest of the format behind it. Where the loop stops early the buffer is full, and
  \<open>fs_pos\<close> is the end of the last conversion it printed.
\<close>

lemma fmt_convs_inv:
  assumes "fmt_inv N out s" "0 \<le> fs_pos s" "nat (fs_pos s) \<le> length fmt"
    and "specs_cover fmt (nat (fs_pos s)) specs" "reads_all specs b pos_str (fs_p s) vals"
    and expand: "expander_ok expand"
  shows "\<exists>s' out'. fmt_convs expand fmt b pos_str specs s = Some s' \<and> fmt_inv N out' s' \<and>
    0 \<le> fs_pos s' \<and> nat (fs_pos s') \<le> length fmt \<and> fs_proc s' = fs_proc s \<and>
    (out' @ drop (nat (fs_pos s')) fmt = out @ message_text expand fmt specs vals (nat (fs_pos s)) \<or>
     (N \<le> length out' \<and> (\<exists>rest. out' @ rest = out @ message_text expand fmt specs vals (nat (fs_pos s)))))"
  using assms(1-5)
proof (induction specs arbitrary: out s vals)
  case Nil
  then show ?case by (intro exI [of _ s] exI [of _ out]) simp
next
  case (Cons spec specs)
  then obtain val vals' p' where vals: "vals = val # vals'"
    and rd: "\<forall>proc. fmt_read spec b pos_str (fs_p s) proc =
      Some (fst val, fst (snd val), Some (snd (snd val)), p', proc)"
    and rest: "reads_all specs b pos_str p' vals'" by auto
  from Cons.prems(4) have cov: "nat (fs_pos s) \<le> nat (sp_pos_begin spec)" "0 \<le> sp_pos_begin spec"
    "nat (sp_pos_begin spec) + 1 < nat (sp_pos_end spec)" "nat (sp_pos_end spec) \<le> length fmt"
    "0 \<le> sp_pos_end spec" "specs_cover fmt (nat (sp_pos_end spec)) specs"
    by (auto simp: Let_def)
  then have "fs_pos s \<le> sp_pos_begin spec" "nat (sp_pos_begin spec) \<le> length fmt"
    using Cons.prems(2) by auto
  from Cons.prems(1,2) this rd expand obtain s1 where s1:
    "fmt_conv expand fmt b pos_str spec s = Some (\<not> fs_remain s1 \<le> 0, s1)"
    "fmt_inv N (out @ take (nat (sp_pos_begin spec) - nat (fs_pos s)) (drop (nat (fs_pos s)) fmt) @
       expand (fmt_str_of fmt spec) (conv_args val)) s1"
    "fs_pos s1 = sp_pos_end spec" "fs_p s1 = p'" "fs_proc s1 = fs_proc s"
    by (rule fmt_conv_inv)
  let ?out1 = "out @ take (nat (sp_pos_begin spec) - nat (fs_pos s)) (drop (nat (fs_pos s)) fmt) @
       expand (fmt_str_of fmt spec) (conv_args val)"
  have whole: "out @ message_text expand fmt (spec # specs) vals (nat (fs_pos s)) =
      ?out1 @ message_text expand fmt specs vals' (nat (fs_pos s1))"
    by (simp add: vals s1(3))
  show ?case
  proof (cases "fs_remain s1 \<le> 0")
    case True
    then have full: "N \<le> length ?out1" using s1(2) by (simp add: fmt_inv_def)
    have "fmt_convs expand fmt b pos_str (spec # specs) s = Some s1"
      using s1(1) True by simp
    with full s1 cov whole show ?thesis by (intro exI [of _ s1] exI [of _ ?out1]) auto
  next
    case False
    have "fmt_convs expand fmt b pos_str (spec # specs) s = fmt_convs expand fmt b pos_str specs s1"
      using s1(1) False by simp
    moreover have "0 \<le> fs_pos s1" "nat (fs_pos s1) \<le> length fmt" "specs_cover fmt (nat (fs_pos s1)) specs"
      "reads_all specs b pos_str (fs_p s1) vals'" using cov rest s1 by simp_all
    from Cons.IH [OF s1(2) this] obtain s' out' where
      "fmt_convs expand fmt b pos_str specs s1 = Some s'" "fmt_inv N out' s'"
      "0 \<le> fs_pos s'" "nat (fs_pos s') \<le> length fmt" "fs_proc s' = fs_proc s1"
      "out' @ drop (nat (fs_pos s')) fmt = ?out1 @ message_text expand fmt specs vals' (nat (fs_pos s1)) \<or>
       (N \<le> length out' \<and> (\<exists>rest. out' @ rest =
          ?out1 @ message_text expand fmt specs vals' (nat (fs_pos s1))))" by blast
    ultimately show ?thesis unfolding whole s1(5) [symmetric]
      by (intro exI [of _ s'] exI [of _ out']) simp
  qed
qed

section \<open>The function\<close>

lemma get_in_range: "0 \<le> pos \<Longrightarrow> pos < bb_capacity b \<Longrightarrow> haclog_bytes_buffer_get b pos s = (s, Some (nat pos))"
  by (simp add: haclog_bytes_buffer_get_def)

definition printed_as :: "string \<Rightarrow> int \<Rightarrow> block \<Rightarrow> int \<Rightarrow> bool" where
  "printed_as out bufsize buf ret \<longleftrightarrow>
     int (length buf) = bufsize \<and> ret = int (min (length out) (nat (bufsize - 1))) \<and>
     buf ! nat ret = NUL \<and> take (nat ret - 1) buf = take (nat ret - 1) out \<and>
     (int (length out) + 1 < bufsize \<longrightarrow> take (nat ret) buf = out)"

lemma fmt_inv_printed:
  assumes inv: "fmt_inv N out st"
  obtains buf where "0 \<le> fs_total st" "mem_write (fs_buf st) (nat (fs_total st)) [NUL] = Some buf"
    "printed_as out (int N + 1) buf (fs_total st)"
proof -
  let ?k = "min (length out) N"
  have tot: "fs_total st = int ?k" and len: "length (fs_buf st) = N + 1"
    and front: "take (?k - 1) (fs_buf st) = take (?k - 1) out"
    and exact: "length out < N \<longrightarrow> take (length out) (fs_buf st) = out"
    using inv by (simp_all add: fmt_inv_def)
  have "?k + length [NUL] \<le> length (fs_buf st)" using len by simp
  then obtain buf where wr: "mem_write (fs_buf st) ?k [NUL] = Some buf" using heap.wr_Some by blast
  then have buf: "buf = take ?k (fs_buf st) @ NUL # drop (?k + 1) (fs_buf st)" by (simp add: mem_write_Some)
  have "length buf = N + 1" using heap.wr_size [OF wr] len by simp
  moreover have "buf ! ?k = NUL" unfolding buf using len by (simp add: nth_append)
  moreover have prefix: "take j buf = take j (fs_buf st)" if "j \<le> ?k" for j
    unfolding buf using that len by simp
  have "take (?k - 1) buf = take (?k - 1) out" using prefix [of "?k - 1"] front by (simp only: diff_le_self)
  moreover have "length out < N \<Longrightarrow> take ?k buf = out" using prefix [of ?k] exact by simp
  ultimately have "printed_as out (int N + 1) buf (fs_total st)"
    unfolding printed_as_def tot nat_int by simp
  with wr tot show ?thesis by (intro that) simp_all
qed

lemma format_message:
  assumes size: "int (length buf) = int N + 1" "N < 2147483647"
    and r: "bb_r b \<noteq> w" "0 \<le> bb_r b" "bb_r b < bb_capacity b"
    and b': "b' = (if bb_capacity b - bb_r b < 48 then b\<lparr>bb_r := 0\<rparr> else b)"
    and hdr: "hdr_read (bb_buffer b) (nat (bb_r b')) = Some hdr"
    and prim: "prims (h_primitive hdr) = Some primitive"
    and prim_ok: "length (pr_specs primitive) = pr_num_params primitive"
      "pr_fmt_len primitive = int (length (pr_fmt primitive))" "length (pr_fmt primitive) < 65536"
      "specs_cover (pr_fmt primitive) 0 (pr_specs primitive)"
    and reads: "reads_all (pr_specs primitive) b' (h_pos_str hdr)
      (snd (haclog_bytes_buffer_get b' (h_pos_const hdr) s)) vals"
    and expand: "expander_ok expand"
    and fin: "0 \<le> h_pos_end hdr" "h_pos_end hdr \<le> bb_capacity b" "bb_capacity b < 2147483648"
  obtains res where "haclog_printf_primitive_format expand prims b w buf (int N + 1) s = Some res"
    "printed_as (message_text expand (pr_fmt primitive) (pr_specs primitive) vals 0) (int N + 1)
       (fr_buf res) (fr_ret res)"
    "fr_meta res = Some (pr_loc primitive, h_ts hdr)"
    "fr_bb res = b\<lparr>bb_r := wrap_pos (bb_capacity b) (h_pos_end hdr)\<rparr>"
proof -
  obtain s1 p where p: "haclog_bytes_buffer_get b' (h_pos_const hdr) s = (s1, p)" by fastforce
  let ?fmt = "pr_fmt primitive" and ?out = "message_text expand (pr_fmt primitive) (pr_specs primitive) vals 0"
  let ?s0 = "\<lparr>fs_buf = buf, fs_total = 0, fs_remain = c_int (int N + 1) - 1, fs_pos = 0, fs_p = p,
    fs_proc = s1\<rparr>"
  have s0: "fmt_inv N [] ?s0" using size by (simp add: fmt_inv_def c_int_id)
  have reads': "reads_all (pr_specs primitive) b' (h_pos_str hdr) (fs_p ?s0) vals" using reads p by simp
  have start: "0 \<le> fs_pos ?s0" "nat (fs_pos ?s0) \<le> length ?fmt"
    "specs_cover ?fmt (nat (fs_pos ?s0)) (pr_specs primitive)" using prim_ok(4) by simp_all
  from fmt_convs_inv [OF s0 start reads' expand] obtain st out' where st:
    "fmt_convs expand ?fmt b' (h_pos_str hdr) (pr_specs primitive) ?s0 = Some st"
    "fmt_inv N out' st" "0 \<le> fs_pos st" "nat (fs_pos st) \<le> length ?fmt"
    "out' @ drop (nat (fs_pos st)) ?fmt = ?out \<or> (N \<le> length out' \<and> (\<exists>rest. out' @ rest = ?out))"
    by auto
  obtain st' where st': "(if fs_pos st \<noteq> pr_fmt_len primitive
      then fmt_copy ?fmt (c_int (pr_fmt_len primitive - fs_pos st)) st else Some st) = Some st'"
    "fmt_inv N ?out st'"
  proof (cases "fs_pos st = pr_fmt_len primitive")
    case True
    then have "drop (nat (fs_pos st)) ?fmt = []" using prim_ok(2) by simp
    then have "fmt_inv N ?out st" using st(2,5) fmt_inv_full [OF st(2)]
      by (metis append_Nil2)
    with True show ?thesis by (intro that) simp_all
  next
    case False
    let ?n = "length ?fmt - nat (fs_pos st)"
    have n: "c_int (pr_fmt_len primitive - fs_pos st) = int ?n" "nat (fs_pos st) + ?n \<le> length ?fmt"
      using st(3,4) prim_ok(2,3) by (simp_all add: c_int_id of_nat_diff)
    from st(2) n(2) obtain s2 where s2: "fmt_copy ?fmt (int ?n) st = Some s2"
      "fmt_inv N (out' @ take ?n (drop (nat (fs_pos st)) ?fmt)) s2"
      "fs_pos s2 = fs_pos st" "fs_p s2 = fs_p st" "fs_proc s2 = fs_proc st"
      by (rule fmt_copy_inv)
    have inv2: "fmt_inv N (out' @ drop (nat (fs_pos st)) ?fmt) s2" using s2(2) by simp
    have "fmt_inv N ?out s2"
    proof (cases "out' @ drop (nat (fs_pos st)) ?fmt = ?out")
      case False
      then obtain rest where "N \<le> length out'" "?out = out' @ rest" using st(5) by metis
      with inv2 show ?thesis by (auto simp: fmt_inv_def)
    qed (use inv2 in simp)
    moreover have "(if fs_pos st \<noteq> pr_fmt_len primitive
      then fmt_copy ?fmt (c_int (pr_fmt_len primitive - fs_pos st)) st else Some st) = Some s2"
      unfolding n(1) using False s2(1) by simp
    ultimately show ?thesis by (intro that)
  qed
  from st'(2) obtain buf' where buf': "0 \<le> fs_total st'"
    "mem_write (fs_buf st') (nat (fs_total st')) [NUL] = Some buf'"
    "printed_as ?out (int N + 1) buf' (fs_total st')" by (rule fmt_inv_printed)
  have get: "haclog_bytes_buffer_get b' (bb_r b') s = (s, Some (nat (bb_r b')))"
    using r b' by (intro get_in_range) (auto split: if_splits)
  have bb: "bb_buffer b' = bb_buffer b" "bb_capacity b' = bb_capacity b" using b' by simp_all
  have pos_end: "c_int (h_pos_end hdr) = h_pos_end hdr" using fin by (simp add: c_int_id)
  obtain s3 ret where mv: "haclog_bytes_buffer_r_move b' (h_pos_end hdr) (fs_proc st') =
      (s3, b\<lparr>bb_r := wrap_pos (bb_capacity b) (h_pos_end hdr)\<rparr>, ret)"
    using fin bb b' by (auto simp: haclog_bytes_buffer_r_move_def wrap_pos_def)
  have "haclog_printf_primitive_format expand prims b w buf (int N + 1) s =
      Some \<lparr>fr_ret = fs_total st', fr_buf = buf', fr_meta = Some (pr_loc primitive, h_ts hdr),
        fr_bb = b\<lparr>bb_r := wrap_pos (bb_capacity b) (h_pos_end hdr)\<rparr>, fr_proc = s3\<rparr>"
    unfolding haclog_printf_primitive_format_def sizeof_serialize_hdr_eq b' [symmetric] Let_def get
    using r size(2) hdr p prim st(1) st'(1) buf'(1,2) mv prim_ok(1)
    by (simp add: bb pos_end)
  from that [OF this] buf'(3) show ?thesis by simp
qed

end
