(* ===== verification/Haclog_Statement.thy ===== *)
theory Haclog_Statement
  imports Haclog_Format_Text Haclog_Ring_Inv
begin

text \<open>
  One log statement from end to end: what \<open>haclog_printf_primitive_serialize\<close> leaves in the byte ring
  when it returns, and that \<open>haclog_printf_primitive_format\<close>, once its reader position has come to the
  record, prints the statement's text from it. The reader positions the serializer loads on the
  way are any the backend can have had (\<open>loads_ok\<close>).
\<close>

section \<open>Room for one part\<close>

text \<open>
  The positions a reader moves through, seen from the logging thread: each one between the last seen
  and the writer position.
\<close>

fun loads_ok :: "int \<Rightarrow> int \<Rightarrow> int \<Rightarrow> int list \<Rightarrow> bool" where
  "loads_ok cap c w [] = True"
| "loads_ok cap c w (r # rs) \<longleftrightarrow>
     0 \<le> r \<and> r < cap \<and> ring_dist cap c r \<le> ring_dist cap c w \<and> loads_ok cap r w rs"

definition ser_inv :: "ser_state \<Rightarrow> int \<Rightarrow> bool" where
  "ser_inv s lw \<longleftrightarrow>
     (let cap = bb_capacity (ss_bb s); w = bb_w (ss_bb s) in
      256 \<le> cap \<and> cap < 2147483648 \<and> int (length (bb_buffer (ss_bb s))) = cap \<and>
      0 \<le> w \<and> w < cap \<and> 0 \<le> ss_r s \<and> ss_r s < cap \<and>
      loads_ok cap (ss_r s) w (ss_loads s) \<and> writer_inv cap (ss_r s) w lw)"

text \<open>A part of n bytes at pos, all of it ahead of the writer's position and behind its next one.\<close>

definition room_at :: "int \<Rightarrow> int \<Rightarrow> int \<Rightarrow> int \<Rightarrow> int \<Rightarrow> bool" where
  "room_at cap w lw pos n \<longleftrightarrow>
     0 \<le> pos \<and> 0 \<le> n \<and> pos + n \<le> cap \<and>
     ring_dist cap w lw \<le> ring_dist cap w (pos + n) \<and>
     (\<forall>x. pos \<le> x \<and> x < pos + n \<longrightarrow>
        ring_dist cap w lw \<le> ring_dist cap w x \<and> ring_dist cap w x < ring_dist cap w (pos + n))"

lemma fetch_loop_room:
  assumes "fetch_loop b n lw r loads p = Continue pos s'" "0 \<le> n"
    and "256 \<le> bb_capacity b" "0 \<le> bb_w b" "bb_w b < bb_capacity b" "0 \<le> r" "r < bb_capacity b"
    and "loads_ok (bb_capacity b) r (bb_w b) loads" "writer_inv (bb_capacity b) r (bb_w b) lw"
  shows "ss_bb s' = b \<and> 0 \<le> ss_r s' \<and> ss_r s' < bb_capacity b \<and>
    loads_ok (bb_capacity b) (ss_r s') (bb_w b) (ss_loads s') \<and>
    writer_inv (bb_capacity b) (ss_r s') (bb_w b) (pos + n) \<and>
    room_at (bb_capacity b) (bb_w b) lw pos n \<and>
    (n = 48 \<longrightarrow> lw = bb_w b \<longrightarrow> pos = hdr_pos (bb_capacity b) lw)"
  using assms
proof (induction b n lw r loads p rule: fetch_loop.induct)
  case (1 b n lw r loads p)
  obtain p1 ret where fc: "haclog_bytes_buffer_w_fc b n r lw p = (p1, ret)" by fastforce
  show ?case
  proof (cases "ret \<ge> 0")
    case True
    with "1.prems"(1) fc have s': "s' = \<lparr>ss_bb = b, ss_r = r, ss_loads = loads, ss_proc = p1\<rparr>" "pos = ret"
      by (simp_all add: fetch_loop.simps)
    have snd: "snd (haclog_bytes_buffer_w_fc b n r lw p) = pos" using fc s' by simp
    have pos: "0 \<le> pos" using True s' by simp
    note alloc = w_fc_alloc [OF snd pos "1.prems"(2,3,6,7,4,5,9)]
    note room = w_fc_room [OF snd pos "1.prems"(2,3,6,7,4,5,9)]
    have "room_at (bb_capacity b) (bb_w b) lw pos n"
      unfolding room_at_def using alloc(2,3) room(2,3) pos "1.prems"(2) by blast
    moreover have "n = 48 \<longrightarrow> lw = bb_w b \<longrightarrow> pos = hdr_pos (bb_capacity b) lw"
      using w_fc_header [of b r lw p pos] snd pos "1.prems" by (auto simp: hdr_pos_def c_arith)
    ultimately show ?thesis using s' alloc(1) "1.prems" by simp
  next
    case False
    with "1.prems"(1) fc obtain r' loads' where ld: "loads = r' # loads'" and ret: "ret \<noteq> - 1"
      and rest: "fetch_loop b n lw r' loads' p1 = Continue pos s'"
      by (auto simp: fetch_loop.simps [of b n lw r] Let_def split: if_splits list.splits)
    from "1.prems"(8) ld have r': "0 \<le> r'" "r' < bb_capacity b"
      "ring_dist (bb_capacity b) r r' \<le> ring_dist (bb_capacity b) r (bb_w b)"
      "loads_ok (bb_capacity b) r' (bb_w b) loads'" by simp_all
    have "writer_inv (bb_capacity b) r' (bb_w b) lw"
      using writer_inv_reload [OF "1.prems"(9) _ _ _ _ r'(1-3)] "1.prems" by simp
    with "1.IH" [OF fc [symmetric] refl False ret ld rest "1.prems"(2-5) r'(1,2,4)]
    show ?thesis by simp
  qed
qed

lemma fetch_w_room:
  assumes "HACLOG_FETCH_W n lw s = Continue pos s'" "0 \<le> n" "ser_inv s lw"
  shows "ser_inv s' (pos + n)" "ss_bb s' = ss_bb s"
    "room_at (bb_capacity (ss_bb s)) (bb_w (ss_bb s)) lw pos n"
    "n = 48 \<Longrightarrow> lw = bb_w (ss_bb s) \<Longrightarrow> pos = hdr_pos (bb_capacity (ss_bb s)) lw"
  using fetch_loop_room [OF assms(1) [unfolded HACLOG_FETCH_W_def] assms(2)] assms(3)
  by (auto simp: ser_inv_def Let_def)

text \<open>Parts fetched one after the other do not overlap.\<close>

definition apart :: "int \<Rightarrow> int \<Rightarrow> int \<Rightarrow> int \<Rightarrow> bool" where
  "apart a n b k \<longleftrightarrow> n = 0 \<or> k = 0 \<or> a + n \<le> b \<or> b + k \<le> a"

lemma rooms_apart:
  assumes "room_at cap w lw a n" "room_at cap w lw' b k"
    and later: "ring_dist cap w (a + n) \<le> ring_dist cap w lw'"
  shows "apart a n b k"
proof (rule ccontr)
  assume "\<not> apart a n b k"
  then have "a \<le> max a b" "max a b < a + n" "b \<le> max a b" "max a b < b + k"
    using assms by (auto simp: apart_def room_at_def)
  with assms have "ring_dist cap w (max a b) < ring_dist cap w (a + n)"
    "ring_dist cap w lw' \<le> ring_dist cap w (max a b)"
    unfolding room_at_def by blast+
  with later show False by simp
qed

text \<open>Writing slots in one part leaves what lies in another.\<close>

lemma put_slots_nothing: "put_slots mem_write m a ss = Some m' \<Longrightarrow> slots_ok ss \<Longrightarrow> slots_len ss = 0 \<Longrightarrow> m' = m"
proof (induction ss arbitrary: m a rule: slots_ok.induct)
  case (2 k bs ss)
  then obtain m1 where m1: "mem_write m a bs = Some m1" "put_slots mem_write m1 (a + k) ss = Some m'"
    by (auto split: option.splits)
  with 2 have "bs = []" by simp
  with m1 have "m1 = m" by (simp add: mem_write_Some)
  with "2.IH" [OF m1(2)] "2.prems" show ?case by simp
qed simp

lemma slots_at_nothing:
  "slots_at mem_read m a ts \<Longrightarrow> slots_ok ts \<Longrightarrow> slots_len ts = 0 \<Longrightarrow> length m' = length m \<Longrightarrow>
   slots_at mem_read m' a ts"
  by (induction ts rule: slots_ok.induct) (auto simp: mem_read_def split: if_splits)

lemma put_slots_keeps:
  assumes put: "put_slots mem_write m b ss = Some m'" and ok: "slots_ok ss" "slots_ok ts"
    and at: "slots_at mem_read m a ts"
    and sep: "apart (int a) (int (slots_len ts)) (int b) (int (slots_len ss))"
  shows "slots_at mem_read m' a ts"
proof -
  consider (none) "slots_len ss = 0" | (empty) "slots_len ts = 0"
    | (apart) "a + slots_len ts \<le> b \<or> b + slots_len ss \<le> a"
    using sep unfolding apart_def by linarith
  then show ?thesis
  proof cases
    case none
    with put_slots_nothing [OF put ok(1)] at show ?thesis by simp
  next
    case empty
    from slots_at_nothing [OF at ok(2) empty] heap.put_slots_size [OF put] show ?thesis by simp
  next
    case apart
    show ?thesis
      by (rule heap.slots_at_cong [OF at ok(2)], rule heap.put_slots_frame [OF put ok(1)])
        (use apart in auto)
  qed
qed

section \<open>What the serializer leaves\<close>

lemma ser_bind_Continue:
  "ser_bind m f = Continue x s' \<longleftrightarrow> (\<exists>y s1. m = Continue y s1 \<and> f y s1 = Continue x s')"
  by (cases m) auto

lemma ser_get_Continue:
  "ser_get pos s = Continue p s1 \<longleftrightarrow>
   p = snd (haclog_bytes_buffer_get (ss_bb s) pos (ss_proc s)) \<and>
   s1 = s\<lparr>ss_proc := fst (haclog_bytes_buffer_get (ss_bb s) pos (ss_proc s))\<rparr>"
  by (auto simp: ser_get_def split: prod.splits)

lemma ser_mem_Continue:
  "ser_mem f s = Continue x s1 \<longleftrightarrow>
   (\<exists>m. f (bb_buffer (ss_bb s)) = Some (m, x) \<and> s1 = s\<lparr>ss_bb := (ss_bb s)\<lparr>bb_buffer := m\<rparr>\<rparr>)"
  by (auto simp: ser_mem_def split: option.splits)

text \<open>The run of a call that returns normally, step by step.\<close>

lemma serialize_steps:
  assumes "haclog_printf_primitive_serialize ptr prim args ts s = Continue () s'"
  obtains w_hdr s1 w_const s2 m1 st w_str s3 m2 w_cl s4 m3 where
    "HACLOG_FETCH_W sizeof_serialize_hdr (bb_w (ss_bb s)) s = Continue w_hdr s1"
    "HACLOG_FETCH_W (c_int (pr_param_size prim)) (c_int (w_hdr + sizeof_serialize_hdr)) s1 = Continue w_const s2"
    "ser_params (take (pr_num_params prim) (pr_specs prim)) (bb_buffer (ss_bb s2))
       (snd (haclog_bytes_buffer_get (ss_bb s2) w_const (ss_proc s2))) (arg_start args) = Some (m1, st)"
    "HACLOG_FETCH_W (c_int (as_extra_len st)) (c_int (w_const + pr_param_size prim))
       (s2\<lparr>ss_proc := fst (haclog_bytes_buffer_get (ss_bb s2) w_const (ss_proc s2)),
           ss_bb := (ss_bb s2)\<lparr>bb_buffer := m1\<rparr>\<rparr>) = Continue w_str s3"
    "ser_strings (bb_buffer (ss_bb s3)) (snd (haclog_bytes_buffer_get (ss_bb s3) w_str (ss_proc s3))) st = Some m2"
    "HACLOG_FETCH_W HACLOG_CACHE_INTERVAL (c_int (w_str + as_extra_len st))
       (s3\<lparr>ss_proc := fst (haclog_bytes_buffer_get (ss_bb s3) w_str (ss_proc s3)),
           ss_bb := (ss_bb s3)\<lparr>bb_buffer := m2\<rparr>\<rparr>) = Continue w_cl s4"
    "map_option fst (put_at (bb_buffer (ss_bb s4)) (snd (haclog_bytes_buffer_get (ss_bb s4) w_hdr (ss_proc s4)))
       (hdr_slots ts w_const w_str (as_extra_len st) (c_u64 (c_int (w_cl + HACLOG_CACHE_INTERVAL))) ptr)) = Some m3"
    "ss_bb s' = fst (snd (haclog_bytes_buffer_w_move ((ss_bb s4)\<lparr>bb_buffer := m3\<rparr>)
       (c_int (w_cl + HACLOG_CACHE_INTERVAL))
       (fst (haclog_bytes_buffer_get (ss_bb s4) w_hdr (ss_proc s4)))))"
    "ss_r s' = ss_r s4"
  using assms unfolding haclog_printf_primitive_serialize_def Let_def
  by (auto simp: ser_bind_Continue ser_get_Continue ser_mem_Continue case_prod_unfold)

lemma ser_inv_mem:
  "ser_inv s lw \<Longrightarrow> length m = length (bb_buffer (ss_bb s)) \<Longrightarrow>
   ser_inv (s\<lparr>ss_proc := p, ss_bb := (ss_bb s)\<lparr>bb_buffer := m\<rparr>\<rparr>) lw"
  by (simp add: ser_inv_def Let_def)

lemma as_inv_start:
  "(\<forall>a\<in>set args. carg_ok a) \<Longrightarrow> args_room args < 2147483648 \<Longrightarrow> as_inv (arg_start args)"
  by (simp add: as_inv_def arg_start_def)

text \<open>Both ways of taking the address of a part: inside the block, and at its very end.\<close>

definition part_ptr :: "int \<Rightarrow> int \<Rightarrow> nat option" where
  "part_ptr cap pos = (if pos < cap then Some (nat pos) else None)"

lemma get_part: "0 \<le> pos \<Longrightarrow> snd (haclog_bytes_buffer_get b pos s) = part_ptr (bb_capacity b) pos"
  by (simp add: haclog_bytes_buffer_get_def part_ptr_def)

lemma put_at_part:
  assumes "put_at m (part_ptr cap pos) ss = Some (m', p')" "0 \<le> pos"
  shows "put_slots mem_write m (nat pos) ss = Some m'"
  using assms by (auto simp: put_at_def part_ptr_def split: if_splits option.splits)

lemma params_stored:
  assumes ser: "ser_params specs m (part_ptr cap pos) (arg_start args) = Some (m1, st)"
    and pos: "0 \<le> pos" "pos + sum_list (map haclog_printf_spec_param_size specs) \<le> cap"
    and specs: "\<forall>spec\<in>set specs. spec_typed spec" "num_strs specs \<le> HACLOG_MAX_STR_CACHE"
    and args: "\<forall>a\<in>set args. carg_ok a" "args_room args < 2147483648"
  obtains slots vals where "put_slots mem_write m (nat pos) slots = Some m1" "slots_ok slots"
    "int (slots_len slots) = sum_list (map haclog_printf_spec_param_size specs)" "as_inv st"
    "ref_convs specs args = Some (vals, as_args st)"
    "\<forall>b pos_str. bb_capacity b < 2147483648 \<longrightarrow> slots_at mem_read (bb_buffer b) (nat pos) slots \<longrightarrow>
       strings_at (bb_buffer b) pos_str (as_cache st) \<longrightarrow>
       int pos_str + cache_len (as_cache st) \<le> bb_capacity b \<longrightarrow>
       reads_all specs b (int pos_str) (part_ptr cap pos) vals"
proof (cases "pos < cap")
  case True
  then have p: "part_ptr cap pos = Some (nat pos)" by (simp add: part_ptr_def)
  have "length (as_cache (arg_start args)) + num_strs specs \<le> HACLOG_MAX_STR_CACHE"
    using specs(2) by (simp add: arg_start_def)
  from ser_params_ref [OF ser [unfolded p] as_inv_start [OF args] specs(1) this]
  show ?thesis using that unfolding p by (auto simp: arg_start_def params_read_def)
next
  case False
  then have "specs = []" using param_sizes_bounds [of specs] pos by (cases specs) auto
  then show ?thesis
    using ser as_inv_start [OF args] by (intro that [of "[]" "[]"]) (auto simp: arg_start_def)
qed

lemma cache_slots:
  "(\<forall>c\<in>set cs. entry_ok c) \<Longrightarrow>
   slots_ok (concat (map str_slots cs)) \<and> int (slots_len (concat (map str_slots cs))) = cache_len cs"
  by (simp add: slots_len_strings, induction cs) (auto simp: str_slots_ok)

lemma strings_stored:
  assumes "ser_strings m (part_ptr cap pos) st = Some m2" "as_inv st" "0 \<le> pos"
  shows "put_slots mem_write m (nat pos) (concat (map str_slots (as_cache st))) = Some m2"
  using assms put_at_part
  by (auto simp: ser_strings_def str_copies_def as_inv_def)

text \<open>The header, read back.\<close>

lemma hdr_slots_ok: "slots_ok (hdr_slots ts pc ps el pe ptr)" "slots_len (hdr_slots ts pc ps el pe ptr) = 48"
  by (simp_all add: hdr_slots_def)

lemma hdr_read_back:
  assumes at: "slots_at mem_read m a (hdr_slots ts pc ps el pe ptr)"
    and pc: "0 \<le> pc" "pc < 2147483648" and ps: "0 \<le> ps" "ps < 2147483648"
  shows "hdr_read m a = Some \<lparr>h_ts = (c_s64 (fst ts), c_s64 (snd ts)), h_pos_const = pc, h_pos_str = ps,
    h_extra_len = c_u64 el, h_pos_end = c_u64 pe, h_primitive = c_u64 ptr\<rparr>"
proof -
  have last: "mem_read m (a + 40) 8 = Some (le_enc 8 ptr)" using at by (simp add: hdr_slots_def add.commute)
  then have "a + 48 \<le> length m" by (simp add: mem_read_Some)
  then obtain bs where bs: "mem_read m a 48 = Some bs" by (simp add: mem_read_def)
  have part: "i + k \<le> 48 \<Longrightarrow> mem_read m (a + i) k = Some (take k (drop i bs))" for i k
    by (rule heap.rd_sub [OF bs])
  have "take 8 bs = le_enc 8 (fst ts)" "take 8 (drop 8 bs) = le_enc 8 (snd ts)"
    "take 4 (drop 16 bs) = le_enc 4 pc" "take 4 (drop 20 bs) = le_enc 4 ps"
    "take 8 (drop 24 bs) = le_enc 8 el" "take 8 (drop 32 bs) = le_enc 8 pe"
    "take 8 (drop 40 bs) = le_enc 8 ptr"
    using at part [of 0 8] part [of 8 8] part [of 16 4] part [of 20 4] part [of 24 8] part [of 32 8]
      part [of 40 8] by (simp_all add: hdr_slots_def add.commute)
  then show ?thesis
    using pc ps by (simp add: hdr_read_def bs le_enc_conversions signed_of_unsigned c_int_id)
qed

text \<open>
  A stored record: the bytes of its header, parameters and strings, where the reader looks for
  them, and where the next record begins.
\<close>

definition record_at ::
  "bytes_buffer \<Rightarrow> int \<Rightarrow> int \<Rightarrow> printf_primitive \<Rightarrow> int \<times> int \<Rightarrow> (int \<times> int \<times> carg) list \<Rightarrow> int \<Rightarrow> bool" where
  "record_at b st ptr prim ts vals fin \<longleftrightarrow>
     0 \<le> fin \<and> fin \<le> bb_capacity b \<and> bb_capacity b < 2147483648 \<and>
     (\<exists>hdr. hdr_read (bb_buffer b) (nat (hdr_pos (bb_capacity b) st)) = Some hdr \<and>
        h_ts hdr = (c_s64 (fst ts), c_s64 (snd ts)) \<and> h_primitive hdr = c_u64 ptr \<and>
        h_pos_end hdr = fin \<and>
        (\<forall>b' s. bb_buffer b' = bb_buffer b \<longrightarrow> bb_capacity b' = bb_capacity b \<longrightarrow>
           reads_all (pr_specs prim) b' (h_pos_str hdr)
             (snd (haclog_bytes_buffer_get b' (h_pos_const hdr) s)) vals))"

text \<open>What the caller passes: a primitive as generated, arguments of its conversions.\<close>

definition primitive_ok :: "printf_primitive \<Rightarrow> bool" where
  "primitive_ok prim \<longleftrightarrow>
     length (pr_specs prim) = pr_num_params prim \<and> (\<forall>spec\<in>set (pr_specs prim). spec_typed spec) \<and>
     num_strs (pr_specs prim) \<le> HACLOG_MAX_STR_CACHE \<and>
     pr_param_size prim = sum_list (map haclog_printf_spec_param_size (pr_specs prim)) \<and>
     pr_param_size prim < 2147483648"

definition args_ok :: "carg list \<Rightarrow> bool" where
  "args_ok args \<longleftrightarrow> (\<forall>a\<in>set args. carg_ok a) \<and> args_room args < 2147483648"

text \<open>Where a normal return has put the four parts, and the writes that filled them.\<close>

definition parts_written ::
  "bytes_buffer \<Rightarrow> int \<Rightarrow> printf_primitive \<Rightarrow> int \<times> int \<Rightarrow> slot list \<Rightarrow> arg_state \<Rightarrow>
   int \<Rightarrow> int \<Rightarrow> int \<Rightarrow> block \<Rightarrow> bool" where
  "parts_written b ptr prim ts slots st w_const w_str fin m \<longleftrightarrow>
     (let w = bb_w b; cap = bb_capacity b; w_hdr = hdr_pos cap w in
      room_at cap w w w_hdr 48 \<and> room_at cap w (w_hdr + 48) w_const (pr_param_size prim) \<and>
      room_at cap w (w_const + pr_param_size prim) w_str (as_extra_len st) \<and>
      room_at cap w (w_str + as_extra_len st) (fin - 128) 128 \<and>
      (\<exists>m1 m2. put_slots mem_write (bb_buffer b) (nat w_const) slots = Some m1 \<and>
         put_slots mem_write m1 (nat w_str) (concat (map str_slots (as_cache st))) = Some m2 \<and>
         put_slots mem_write m2 (nat w_hdr)
           (hdr_slots ts w_const w_str (as_extra_len st) (c_u64 fin) ptr) = Some m))"

text \<open>The same calls as a run: the four fetches in their order, with the writes between them.\<close>

definition parts_run ::
  "ser_state \<Rightarrow> int \<Rightarrow> printf_primitive \<Rightarrow> int \<times> int \<Rightarrow> slot list \<Rightarrow> arg_state \<Rightarrow>
   int \<Rightarrow> int \<Rightarrow> int \<Rightarrow> block \<Rightarrow> int \<Rightarrow> bool" where
  "parts_run s ptr prim ts slots st w_const w_str fin m r' \<longleftrightarrow>
     (let b = ss_bb s; w_hdr = hdr_pos (bb_capacity b) (bb_w b); ps = pr_param_size prim in
      \<exists>s1 s2 s3 s4 p2 p3 m1 m2.
        HACLOG_FETCH_W 48 (bb_w b) s = Continue w_hdr s1 \<and>
        HACLOG_FETCH_W ps (w_hdr + 48) s1 = Continue w_const s2 \<and>
        put_slots mem_write (bb_buffer b) (nat w_const) slots = Some m1 \<and>
        HACLOG_FETCH_W (as_extra_len st) (w_const + ps)
          (s2\<lparr>ss_proc := p2, ss_bb := b\<lparr>bb_buffer := m1\<rparr>\<rparr>) = Continue w_str s3 \<and>
        put_slots mem_write m1 (nat w_str) (concat (map str_slots (as_cache st))) = Some m2 \<and>
        HACLOG_FETCH_W 128 (w_str + as_extra_len st)
          (s3\<lparr>ss_proc := p3, ss_bb := b\<lparr>bb_buffer := m2\<rparr>\<rparr>) = Continue (fin - 128) s4 \<and>
        put_slots mem_write m2 (nat w_hdr)
          (hdr_slots ts w_const w_str (as_extra_len st) (c_u64 fin) ptr) = Some m \<and> r' = ss_r s4)"

lemma serialize_parts:
  assumes ser: "haclog_printf_primitive_serialize ptr prim args ts s = Continue () s'"
    and inv: "ser_inv s (bb_w (ss_bb s))" and prim: "primitive_ok prim" and args: "args_ok args"
  obtains slots st vals w_const w_str fin m where
    "parts_written (ss_bb s) ptr prim ts slots st w_const w_str fin m"
    "slots_ok slots" "int (slots_len slots) = pr_param_size prim" "as_inv st"
    "ref_convs (pr_specs prim) args = Some (vals, as_args st)"
    "\<forall>b pos_str. bb_capacity b < 2147483648 \<longrightarrow> slots_at mem_read (bb_buffer b) (nat w_const) slots \<longrightarrow>
       strings_at (bb_buffer b) pos_str (as_cache st) \<longrightarrow>
       int pos_str + cache_len (as_cache st) \<le> bb_capacity b \<longrightarrow>
       reads_all (pr_specs prim) b (int pos_str) (part_ptr (bb_capacity (ss_bb s)) w_const) vals"
    "ss_bb s' = (ss_bb s)\<lparr>bb_buffer := m, bb_w := wrap_pos (bb_capacity (ss_bb s)) fin\<rparr>"
    "writer_inv (bb_capacity (ss_bb s)) (ss_r s') (bb_w (ss_bb s)) fin"
    "0 \<le> ss_r s'" "ss_r s' < bb_capacity (ss_bb s)"
    "parts_run s ptr prim ts slots st w_const w_str fin m (ss_r s')"
proof -
  let ?b = "ss_bb s" and ?w = "bb_w (ss_bb s)" and ?cap = "bb_capacity (ss_bb s)"
  let ?ps = "pr_param_size prim"
  have cap: "256 \<le> ?cap" "?cap < 2147483648" "0 \<le> ?w" "?w < ?cap"
    using inv by (simp_all add: ser_inv_def Let_def)
  have ps: "c_int ?ps = ?ps" "0 \<le> ?ps" and specs: "take (pr_num_params prim) (pr_specs prim) = pr_specs prim"
    using prim param_sizes_bounds [of "pr_specs prim"] by (simp_all add: primitive_ok_def c_int_id)
  obtain w_hdr s1 w_const s2 m1 st w_str s3 m2 w_cl s4 m3 where
    f1: "HACLOG_FETCH_W sizeof_serialize_hdr ?w s = Continue w_hdr s1" and
    f2: "HACLOG_FETCH_W (c_int ?ps) (c_int (w_hdr + sizeof_serialize_hdr)) s1 = Continue w_const s2" and
    params: "ser_params (take (pr_num_params prim) (pr_specs prim)) (bb_buffer (ss_bb s2))
       (snd (haclog_bytes_buffer_get (ss_bb s2) w_const (ss_proc s2))) (arg_start args) = Some (m1, st)" and
    f3: "HACLOG_FETCH_W (c_int (as_extra_len st)) (c_int (w_const + ?ps))
       (s2\<lparr>ss_proc := fst (haclog_bytes_buffer_get (ss_bb s2) w_const (ss_proc s2)),
           ss_bb := (ss_bb s2)\<lparr>bb_buffer := m1\<rparr>\<rparr>) = Continue w_str s3" and
    strs: "ser_strings (bb_buffer (ss_bb s3))
       (snd (haclog_bytes_buffer_get (ss_bb s3) w_str (ss_proc s3))) st = Some m2" and
    f4: "HACLOG_FETCH_W HACLOG_CACHE_INTERVAL (c_int (w_str + as_extra_len st))
       (s3\<lparr>ss_proc := fst (haclog_bytes_buffer_get (ss_bb s3) w_str (ss_proc s3)),
           ss_bb := (ss_bb s3)\<lparr>bb_buffer := m2\<rparr>\<rparr>) = Continue w_cl s4" and
    hdr: "map_option fst (put_at (bb_buffer (ss_bb s4))
       (snd (haclog_bytes_buffer_get (ss_bb s4) w_hdr (ss_proc s4)))
       (hdr_slots ts w_const w_str (as_extra_len st) (c_u64 (c_int (w_cl + HACLOG_CACHE_INTERVAL))) ptr)) = Some m3" and
    mv: "ss_bb s' = fst (snd (haclog_bytes_buffer_w_move ((ss_bb s4)\<lparr>bb_buffer := m3\<rparr>)
       (c_int (w_cl + HACLOG_CACHE_INTERVAL))
       (fst (haclog_bytes_buffer_get (ss_bb s4) w_hdr (ss_proc s4)))))" and
    r': "ss_r s' = ss_r s4"
    by (rule serialize_steps [OF ser])
  \<comment> \<open>header\<close>
  have n1: "(0::int) \<le> sizeof_serialize_hdr" by (simp add: c_arith)
  note F1 = fetch_w_room [OF f1 n1 inv, unfolded sizeof_serialize_hdr_eq]
  have w_hdr: "w_hdr = hdr_pos ?cap ?w" using F1(4) by simp
  have r1: "0 \<le> w_hdr" "w_hdr + 48 \<le> ?cap" using F1(3) by (simp_all add: room_at_def)
  have e1: "c_int (w_hdr + sizeof_serialize_hdr) = w_hdr + 48" using r1 cap by (simp add: c_int_id c_arith)
  \<comment> \<open>parameters\<close>
  note F2 = fetch_w_room [OF f2 [unfolded ps(1) e1] ps(2) F1(1), unfolded F1(2)]
  have r2: "0 \<le> w_const" "w_const + ?ps \<le> ?cap" using F2(3) by (simp_all add: room_at_def)
  have e2: "c_int (w_const + ?ps) = w_const + ?ps" using r2 ps cap by (simp add: c_int_id)
  have params': "ser_params (pr_specs prim) (bb_buffer ?b) (part_ptr ?cap w_const) (arg_start args) = Some (m1, st)"
    using params by (simp add: specs F2(2) get_part [OF r2(1)])
  obtain slots vals where P: "put_slots mem_write (bb_buffer ?b) (nat w_const) slots = Some m1"
    "slots_ok slots" "int (slots_len slots) = ?ps" "as_inv st"
    "ref_convs (pr_specs prim) args = Some (vals, as_args st)"
    "\<forall>b pos_str. bb_capacity b < 2147483648 \<longrightarrow> slots_at mem_read (bb_buffer b) (nat w_const) slots \<longrightarrow>
       strings_at (bb_buffer b) pos_str (as_cache st) \<longrightarrow>
       int pos_str + cache_len (as_cache st) \<le> bb_capacity b \<longrightarrow>
       reads_all (pr_specs prim) b (int pos_str) (part_ptr ?cap w_const) vals"
    by (rule params_stored [OF params' r2(1)]) (use prim args r2(2) in \<open>simp_all add: primitive_ok_def args_ok_def\<close>)
  have len1: "length m1 = length (bb_buffer ?b)" by (rule heap.put_slots_size [OF P(1)])
  \<comment> \<open>strings\<close>
  have cache: "\<forall>c\<in>set (as_cache st). entry_ok c" and extra: "as_extra_len st = cache_len (as_cache st)"
    "as_extra_len st < 2147483648"
    using P(4) args_room_nonneg [of "as_args st"] by (simp_all add: as_inv_def)
  have x0: "0 \<le> as_extra_len st" using cache_len_nonneg [OF cache] extra by simp
  have e3: "c_int (as_extra_len st) = as_extra_len st" using x0 extra by (simp add: c_int_id)
  note I2 = ser_inv_mem [OF F2(1), unfolded F2(2), OF len1]
  note F3 = fetch_w_room [OF f3 [unfolded e2 e3 F2(2)] x0 I2, simplified]
  have r3: "0 \<le> w_str" "w_str + as_extra_len st \<le> ?cap" using F3(3) by (simp_all add: room_at_def)
  have e4: "c_int (w_str + as_extra_len st) = w_str + as_extra_len st" using r3 x0 cap by (simp add: c_int_id)
  have strs': "ser_strings m1 (part_ptr ?cap w_str) st = Some m2"
    using strs by (simp add: F3(2) get_part [OF r3(1)])
  note S = strings_stored [OF strs' P(4) r3(1)]
  have len2: "length m2 = length (bb_buffer ?b)" using heap.put_slots_size [OF S] len1 by simp
  \<comment> \<open>cache line and publication\<close>
  note I3 = ser_inv_mem [OF F3(1), unfolded F3(2), of m2, simplified, OF trans [OF len2 len1 [symmetric]]]
  have n4: "(0::int) \<le> HACLOG_CACHE_INTERVAL" by (simp add: c_arith)
  note F4 = fetch_w_room(1-3) [OF f4 [unfolded e4 F3(2)] n4, simplified, OF I3, unfolded CACHE_INTERVAL_eq]
  have r4: "0 \<le> w_cl" "w_cl + 128 \<le> ?cap" using F4(3) by (simp_all add: room_at_def)
  have e5: "c_int (w_cl + HACLOG_CACHE_INTERVAL) = w_cl + 128" using r4 cap by (simp add: c_int_id c_arith)
  have "part_ptr ?cap w_hdr = Some (nat w_hdr)" using r1 by (simp add: part_ptr_def)
  then have H: "put_slots mem_write m2 (nat w_hdr)
      (hdr_slots ts w_const w_str (as_extra_len st) (c_u64 (w_cl + 128)) ptr) = Some m3"
    using hdr put_at_part [of m2 ?cap w_hdr] r1 by (auto simp: F4(2) e5 get_part)
  have bb: "ss_bb s' = ?b\<lparr>bb_buffer := m3, bb_w := wrap_pos ?cap (w_cl + 128)\<rparr>"
    unfolding mv e5 using r4 by (auto simp: F4(2) haclog_bytes_buffer_w_move_def wrap_pos_def)
  have "parts_written ?b ptr prim ts slots st w_const w_str (w_cl + 128) m3"
    unfolding parts_written_def Let_def w_hdr [symmetric]
    using F1(3) F2(3) F3(3) F4(3) P(1) S H by simp
  moreover have "parts_run s ptr prim ts slots st w_const w_str (w_cl + 128) m3 (ss_r s')"
    unfolding parts_run_def Let_def w_hdr [symmetric] r'
    using f1 f2 f3 f4 P(1) S H
    unfolding ps(1) e1 [unfolded sizeof_serialize_hdr_eq] e2 e3 e4 F2(2) F3(2) sizeof_serialize_hdr_eq CACHE_INTERVAL_eq by auto
  moreover have "writer_inv ?cap (ss_r s') ?w (w_cl + 128)" "0 \<le> ss_r s'" "ss_r s' < ?cap"
    using F4(1) by (simp_all add: r' ser_inv_def Let_def F4(2))
  ultimately show ?thesis using P(2-6) bb by (intro that)
qed

text \<open>Later writes keep the earlier parts, so at the end all of them can be read back.\<close>

lemma parts_read_back:
  assumes parts: "parts_written b ptr prim ts slots st w_const w_str fin m"
    and ok: "slots_ok slots" "int (slots_len slots) = pr_param_size prim" "as_inv st"
  shows "slots_at mem_read m (nat w_const) slots" "strings_at m (nat w_str) (as_cache st)"
    "slots_at mem_read m (nat (hdr_pos (bb_capacity b) (bb_w b)))
       (hdr_slots ts w_const w_str (as_extra_len st) (c_u64 fin) ptr)"
    "length m = length (bb_buffer b)"
proof -
  let ?cap = "bb_capacity b" and ?w = "bb_w b" and ?strs = "concat (map str_slots (as_cache st))"
  let ?h = "hdr_pos ?cap ?w" and ?hs = "hdr_slots ts w_const w_str (as_extra_len st) (c_u64 fin) ptr"
  obtain m1 m2 where m: "put_slots mem_write (bb_buffer b) (nat w_const) slots = Some m1"
    "put_slots mem_write m1 (nat w_str) ?strs = Some m2"
    "put_slots mem_write m2 (nat ?h) ?hs = Some m"
    using parts by (auto simp: parts_written_def Let_def)
  have r: "room_at ?cap ?w ?w ?h 48" "room_at ?cap ?w (?h + 48) w_const (pr_param_size prim)"
    "room_at ?cap ?w (w_const + pr_param_size prim) w_str (as_extra_len st)"
    using parts by (simp_all add: parts_written_def Let_def)
  then have pos: "0 \<le> ?h" "0 \<le> w_const" "0 \<le> w_str" by (simp_all add: room_at_def)
  have cs: "\<forall>c\<in>set (as_cache st). entry_ok c" "cache_len (as_cache st) = as_extra_len st"
    using ok(3) by (simp_all add: as_inv_def)
  note strs = cache_slots [OF cs(1), unfolded cs(2)]
  have d12: "ring_dist ?cap ?w (?h + 48) \<le> ring_dist ?cap ?w (w_const + pr_param_size prim)"
    using r(2) by (simp add: room_at_def)
  have a1: "apart w_const (pr_param_size prim) w_str (as_extra_len st)"
    by (rule rooms_apart [OF r(2,3)]) simp
  have a2: "apart ?h 48 w_const (pr_param_size prim)" by (rule rooms_apart [OF r(1,2)]) simp
  have a3: "apart ?h 48 w_str (as_extra_len st)" by (rule rooms_apart [OF r(1,3) d12])
  have p1: "slots_at mem_read m1 (nat w_const) slots" by (rule heap.put_slots_at [OF m(1) ok(1)])
  have p2: "slots_at mem_read m2 (nat w_const) slots"
    by (rule put_slots_keeps [OF m(2) _ ok(1) p1]) (use strs a1 pos ok(2) in simp_all)
  show "slots_at mem_read m (nat w_const) slots"
    by (rule put_slots_keeps [OF m(3) hdr_slots_ok(1) ok(1) p2])
      (use a2 pos ok(2) in \<open>auto simp: hdr_slots_ok apart_def\<close>)
  have s2: "slots_at mem_read m2 (nat w_str) ?strs" by (rule heap.put_slots_at [OF m(2)]) (use strs in simp)
  have "slots_at mem_read m (nat w_str) ?strs"
    by (rule put_slots_keeps [OF m(3) hdr_slots_ok(1) _ s2])
      (use a3 pos strs in \<open>auto simp: hdr_slots_ok apart_def\<close>)
  with cs(1) show "strings_at m (nat w_str) (as_cache st)" by (simp add: strings_at_def)
  show "slots_at mem_read m (nat ?h) ?hs" by (rule heap.put_slots_at [OF m(3) hdr_slots_ok(1)])
  show "length m = length (bb_buffer b)" using heap.put_slots_size m by metis
qed

lemma parts_moved:
  assumes "parts_written b ptr prim ts slots st w_const w_str fin m"
  shows "0 < ring_dist (bb_capacity b) (bb_w b) fin" "0 \<le> fin" "fin \<le> bb_capacity b"
proof -
  let ?cap = "bb_capacity b" and ?w = "bb_w b" and ?h = "hdr_pos (bb_capacity b) (bb_w b)"
  have r: "room_at ?cap ?w ?w ?h 48" "room_at ?cap ?w (?h + 48) w_const (pr_param_size prim)"
    "room_at ?cap ?w (w_const + pr_param_size prim) w_str (as_extra_len st)"
    "room_at ?cap ?w (w_str + as_extra_len st) (fin - 128) 128"
    using assms by (simp_all add: parts_written_def Let_def)
  then have "ring_dist ?cap ?w ?h < ring_dist ?cap ?w (?h + 48)" by (simp add: room_at_def)
  moreover have "0 \<le> ring_dist ?cap ?w ?h"
    using r(1) unfolding room_at_def by (auto simp: ring_dist_def split: if_splits)
  ultimately show "0 < ring_dist ?cap ?w fin" using r(2-4) by (simp add: room_at_def)
  show "0 \<le> fin" "fin \<le> ?cap" using r(4) by (simp_all add: room_at_def)
qed

text \<open>A block that holds the parts where they were written holds the record.\<close>

lemma parts_record:
  assumes parts: "parts_written b0 ptr prim ts slots st w_const w_str fin m0" and st: "as_inv st"
    and at: "slots_at mem_read (bb_buffer b) (nat w_const) slots"
      "strings_at (bb_buffer b) (nat w_str) (as_cache st)"
      "slots_at mem_read (bb_buffer b) (nat (hdr_pos (bb_capacity b0) (bb_w b0)))
         (hdr_slots ts w_const w_str (as_extra_len st) (c_u64 fin) ptr)"
    and reads: "\<forall>b pos_str. bb_capacity b < 2147483648 \<longrightarrow> slots_at mem_read (bb_buffer b) (nat w_const) slots \<longrightarrow>
       strings_at (bb_buffer b) pos_str (as_cache st) \<longrightarrow>
       int pos_str + cache_len (as_cache st) \<le> bb_capacity b \<longrightarrow>
       reads_all (pr_specs prim) b (int pos_str) (part_ptr (bb_capacity b0) w_const) vals"
    and cap: "256 \<le> bb_capacity b0" "bb_capacity b0 < 2147483648" "bb_capacity b = bb_capacity b0"
    and pos: "hdr_pos (bb_capacity b0) w = hdr_pos (bb_capacity b0) (bb_w b0)"
  shows "record_at b w ptr prim ts vals fin"
proof -
  note moved = parts_moved [OF parts]
  have range: "0 \<le> w_const" "w_const \<le> bb_capacity b0" "0 \<le> w_str" "w_str + as_extra_len st \<le> bb_capacity b0"
    and x0: "0 \<le> as_extra_len st" and ps: "0 \<le> pr_param_size prim"
    using parts by (auto simp: parts_written_def Let_def room_at_def)
  have hdr: "hdr_read (bb_buffer b) (nat (hdr_pos (bb_capacity b0) (bb_w b0))) = Some
      \<lparr>h_ts = (c_s64 (fst ts), c_s64 (snd ts)), h_pos_const = w_const, h_pos_str = w_str,
       h_extra_len = c_u64 (as_extra_len st), h_pos_end = c_u64 (c_u64 fin), h_primitive = c_u64 ptr\<rparr>"
    by (rule hdr_read_back [OF at(3)]) (use range x0 cap in simp_all)
  have fin: "c_u64 fin = fin" using moved cap by (simp add: c_u64_id)
  have cs: "cache_len (as_cache st) = as_extra_len st" using st by (simp add: as_inv_def)
  have "reads_all (pr_specs prim) b' w_str (snd (haclog_bytes_buffer_get b' w_const s0)) vals"
    if "bb_buffer b' = bb_buffer b" "bb_capacity b' = bb_capacity b0" for b' s0
  proof -
    have "reads_all (pr_specs prim) b' (int (nat w_str)) (part_ptr (bb_capacity b0) w_const) vals"
      using reads [rule_format, of b' "nat w_str"] that at(1,2) cap(2) range(3,4) cs by simp
    then show ?thesis using range(1,3) that(2) by (simp add: get_part)
  qed
  then show ?thesis
    unfolding record_at_def using hdr moved cap fin pos by simp
qed

lemma serialize_record:
  assumes ser: "haclog_printf_primitive_serialize ptr prim args ts s = Continue () s'"
    and inv: "ser_inv s (bb_w (ss_bb s))" and prim: "primitive_ok prim" and args: "args_ok args"
  obtains m fin vals left where
    "ss_bb s' = (ss_bb s)\<lparr>bb_buffer := m, bb_w := wrap_pos (bb_capacity (ss_bb s)) fin\<rparr>"
    "length m = length (bb_buffer (ss_bb s))"
    "ref_convs (pr_specs prim) args = Some (vals, left)"
    "record_at (ss_bb s') (bb_w (ss_bb s)) ptr prim ts vals fin"
    "wrap_pos (bb_capacity (ss_bb s)) fin \<noteq> bb_w (ss_bb s)"
proof -
  let ?b = "ss_bb s"
  obtain slots st vals w_const w_str fin m where P: "parts_written ?b ptr prim ts slots st w_const w_str fin m"
    "slots_ok slots" "int (slots_len slots) = pr_param_size prim" "as_inv st"
    "ref_convs (pr_specs prim) args = Some (vals, as_args st)"
    "\<forall>b pos_str. bb_capacity b < 2147483648 \<longrightarrow> slots_at mem_read (bb_buffer b) (nat w_const) slots \<longrightarrow>
       strings_at (bb_buffer b) pos_str (as_cache st) \<longrightarrow>
       int pos_str + cache_len (as_cache st) \<le> bb_capacity b \<longrightarrow>
       reads_all (pr_specs prim) b (int pos_str) (part_ptr (bb_capacity ?b) w_const) vals"
    "ss_bb s' = ?b\<lparr>bb_buffer := m, bb_w := wrap_pos (bb_capacity ?b) fin\<rparr>"
    "writer_inv (bb_capacity ?b) (ss_r s') (bb_w ?b) fin" "0 \<le> ss_r s'" "ss_r s' < bb_capacity ?b"
    "parts_run s ptr prim ts slots st w_const w_str fin m (ss_r s')"
    by (rule serialize_parts [OF assms])
  note readb = parts_read_back [OF P(1-4)] and moved = parts_moved [OF P(1)]
  have cap: "256 \<le> bb_capacity ?b" "bb_capacity ?b < 2147483648" "0 \<le> bb_w ?b" "bb_w ?b < bb_capacity ?b"
    using inv by (simp_all add: ser_inv_def Let_def)
  have rec: "record_at (ss_bb s') (bb_w ?b) ptr prim ts vals fin"
    by (rule parts_record [OF P(1,4) _ _ _ P(6) cap(1,2)]) (use readb in \<open>simp_all add: P(7)\<close>)
  have "0 < ring_dist (bb_capacity ?b) (bb_w ?b) (wrap_pos (bb_capacity ?b) fin)"
    using writer_inv_publish(5) [OF P(8) cap(1) P(9,10) cap(3,4) moved(1)] moved(1) by simp
  then have "wrap_pos (bb_capacity ?b) fin \<noteq> bb_w ?b" by auto
  from that [OF P(7) readb(4) P(5) rec this] show ?thesis .
qed

section \<open>Generated primitives\<close>

lemma spec_fillup_conv_precision:
  assumes "spec_fillup_conv base (c # fmt) = Inr (spec, rest)"
  shows "- 32768 \<le> sp_precision spec \<and> sp_precision spec < 32768"
proof -
  obtain fl f1 where f1: "spec_fillup_flags 0 fmt = (fl, f1)" by fastforce
  obtain wd f2 where f2: "haclog_printf_get_num f1 = (wd, f2)" by fastforce
  obtain pr f3 where f3: "haclog_printf_get_num (tl f2) = (pr, f3)" by fastforce
  have "- 32768 \<le> c_s16 pr \<and> c_s16 pr < 32768"
    using signed_take_bit_int_greater_eq_minus_exp [of 15 pr] signed_take_bit_int_less_exp [of 15 pr]
    by (simp add: c_s16_def)
  then show ?thesis
    using assms unfolding spec_fillup_conv_eq [OF f1 f2 f3]
    by (auto split: sum.splits if_splits)
qed

lemma spec_fillup_loop_precision:
  "spec_fillup_loop base N fmt specs = (e, specs') \<Longrightarrow>
   \<forall>spec\<in>set specs. - 32768 \<le> sp_precision spec \<and> sp_precision spec < 32768 \<Longrightarrow>
   \<forall>spec\<in>set specs'. - 32768 \<le> sp_precision spec \<and> sp_precision spec < 32768"
proof (induction base N fmt specs rule: spec_fillup_loop.induct)
  case (2 base N c fmt specs)
  consider "c \<noteq> CHR ''%''" | "c = CHR ''%''" "deref fmt = CHR ''%''"
    | (stop) "c = CHR ''%''" "deref fmt \<noteq> CHR ''%''" "N \<le> length specs"
    | (conv) "c = CHR ''%''" "deref fmt \<noteq> CHR ''%''" "\<not> N \<le> length specs" by blast
  then show ?case
  proof cases
    case conv
    show ?thesis
    proof (cases "spec_fillup_conv base (c # fmt)")
      case (Inl e)
      with conv "2.prems" show ?thesis by simp
    next
      case (Inr sr)
      obtain spec rest where sr: "sr = (spec, rest)" by fastforce
      from spec_fillup_conv_precision Inr sr have "- 32768 \<le> sp_precision spec \<and> sp_precision spec < 32768"
        by blast
      with "2.prems" have all: "\<forall>sp\<in>set (specs @ [spec]). - 32768 \<le> sp_precision sp \<and> sp_precision sp < 32768"
        by auto
      have rest: "spec_fillup_loop base N rest (specs @ [spec]) = (e, specs')"
        using "2.prems"(1) conv Inr sr by simp
      show ?thesis
        by (rule "2.IH"(3) [OF _ _ _ Inr sr [symmetric] rest all]) (use conv in auto)
    qed
  qed (use 2 in \<open>auto\<close>)
qed simp

lemma specs_cover_count: "specs_cover fmt pos specs \<Longrightarrow> pos + 2 * length specs \<le> length fmt"
proof (induction specs arbitrary: pos)
  case (Cons spec specs)
  then have "nat (sp_pos_end spec) + 2 * length specs \<le> length fmt"
    and "pos + 2 \<le> nat (sp_pos_end spec)" by (auto simp: Let_def)
  then show ?case by simp
qed simp

definition printable :: "printf_spec list \<Rightarrow> bool" where
  "printable specs \<longleftrightarrow>
     (\<forall>spec\<in>set specs. sp_fmt_type spec \<noteq> HACLOG_FT_NONE) \<and> num_strs specs \<le> HACLOG_MAX_STR_CACHE"

lemma gen_primitive:
  assumes gen: "haclog_printf_primitive_gen malloc1 malloc2 fmt loc s0 = (s1, Some prim)"
    and short: "length fmt < 65536" and printable: "printable (pr_specs prim)"
  obtains l where "loc = Some l" "primitive_ok prim" "specs_cover fmt 0 (pr_specs prim)"
    "pr_fmt prim = fmt" "pr_fmt_len prim = int (length fmt)" "pr_loc prim = l"
proof -
  obtain e n a where num: "haclog_printf_num_params fmt = (e, n, a)" by (metis prod.collapse)
  with gen have e: "e = HACLOG_ERR_OK" by (auto simp: primitive_gen_cases split: if_splits)
  from gen num e obtain l where l: "loc = Some l" and prim: "pr_fmt prim = fmt"
    "pr_fmt_len prim = c_u32 (int (length fmt))" "pr_num_params prim = n" "pr_loc prim = l"
    "pr_specs prim = snd (haclog_printf_spec_fillup fmt n)" "pr_param_size prim = gen_param_size 0 (pr_specs prim)"
    by (auto simp: primitive_gen_cases split: if_splits option.splits)
  from num e short obtain specs where specs: "haclog_printf_spec_fillup fmt n = (HACLOG_ERR_OK, specs)"
    "length specs = n" "specs_cover fmt 0 specs" using fillup_covers by blast
  then have ps: "pr_specs prim = specs" using prim by simp
  have "2 * n \<le> length fmt" using specs_cover_count [OF specs(3)] specs(2) by simp
  then have size: "32 * int (length specs) < 2147483648" using short specs(2) by simp
  have "\<forall>spec\<in>set specs. - 32768 \<le> sp_precision spec \<and> sp_precision spec < 32768"
    using spec_fillup_loop_precision [of fmt n fmt "[]" HACLOG_ERR_OK specs] specs(1)
    by (simp add: haclog_printf_spec_fillup_def)
  then have "\<forall>spec\<in>set specs. spec_typed spec" using printable ps
    by (fastforce simp: printable_def spec_typed_def)
  then have "primitive_ok prim"
    using gen_param_size_sum [of 0 specs] param_sizes_bounds [of specs] size printable
    by (simp add: primitive_ok_def ps prim specs(2) printable_def)
  with that [OF l] show ?thesis using prim short specs(3) ps by (simp add: c_u32_id)
qed

section \<open>Properties\<close>


text \<open>A concrete statement: one conversion on a fresh ring of 512 bytes, printed by a small expander.\<close>

definition demo_prim :: printf_primitive where
  "demo_prim = \<lparr>pr_fmt = ''n=%d;'', pr_fmt_len = 5, pr_num_params = 1, pr_num_args = 1, pr_loc = loc_zero,
     pr_specs = [\<lparr>sp_pos_begin = 2, sp_pos_end = 4, sp_width = 0, sp_precision = 0, sp_length = 0,
       sp_flags = 0, sp_type = CHR ''d'', sp_fmt_type = HACLOG_FT_INT\<rparr>], pr_param_size = 8\<rparr>"

definition demo_state :: ser_state where
  "demo_state = \<lparr>ss_bb = \<lparr>bb_buffer = replicate 512 NUL, bb_capacity = 512, bb_w = 0, bb_r = 0\<rparr>, ss_r = 0,
     ss_loads = [], ss_proc = \<lparr>last_err = HACLOG_ERR_OK, live_blocks = 0\<rparr>\<rparr>"

definition demo_expand :: expander where
  "demo_expand f as = (if as = [C_int 42] then ''42'' else [])"

definition continues :: "'a ser \<Rightarrow> bool" where
  "continues r \<longleftrightarrow> (case r of Continue x s \<Rightarrow> True | _ \<Rightarrow> False)"

lemma continues_unit: "continues r \<Longrightarrow> \<exists>s. r = Continue () s"
  by (cases r) (simp_all add: continues_def)

lemma demo_gen:
  "haclog_printf_primitive_gen (Some ()) (Some ()) ''n=%d;'' (Some loc_zero)
     \<lparr>last_err = HACLOG_ERR_OK, live_blocks = 0\<rparr> =
   (\<lparr>last_err = HACLOG_ERR_OK, live_blocks = 2\<rparr>, Some demo_prim)"
  by (simp add: primitive_gen_cases haclog_printf_num_params_def num_params_conv_def
      haclog_printf_spec_fillup_def spec_fillup_conv_def spec_zero_def param_size_eq
      spec_dynamics_def printf_eval demo_prim_def)

lemma demo_serialize: "\<exists>s'. haclog_printf_primitive_serialize 7 demo_prim [C_int 42] (1, 2) demo_state = Continue () s'"
  by (rule continues_unit) code_simp


end
