(* ===== verification/Haclog_Stdio.thy ===== *)
theory Haclog_Stdio
  imports Haclog_Memory Haclog_Err
begin

text \<open>
  What the library uses of the C and POSIX libraries around its files: the named files and
  directories of one process, its standard streams, and the calls that read and change them. A
  name is used as it is spelled, links are not followed. Every call may also fail for a reason the
  state does not show (permissions, a full disk, an I/O error): \<open>w_fault n = Some k\<close> says that the
  n-th call of the run fails, a write after k bytes. Bytes count as delivered when the write returns;
  \<open>fflush\<close> and the stdio buffer are not modelled.
\<close>

section \<open>Strings\<close>

text \<open>\<open>strncpy(dst + a, s, n)\<close>: the first n characters of \<open>s\<close>, filled up with NUL to n bytes.\<close>

definition c_strncpy :: "block \<Rightarrow> nat \<Rightarrow> string \<Rightarrow> nat \<Rightarrow> block option" where
  "c_strncpy dst a s n = mem_write dst a (take n s @ replicate (n - length s) NUL)"

text \<open>
  \<open>vsnprintf\<close> for the conversions the handlers use: \<open>%s\<close>, \<open>%d\<close> with an optional zero-padded width,
  \<open>%u\<close> and \<open>%llu\<close>. Inside a conversion, \<open>d\<close> holds what was read of it so far.
\<close>

fun num_of :: "string \<Rightarrow> nat \<Rightarrow> nat" where
  "num_of [] n = n"
| "num_of (c # cs) n = num_of cs (10 * n + (of_char c - 48))"

definition zero_pad :: "nat \<Rightarrow> string \<Rightarrow> string" where
  "zero_pad w s = replicate (w - length s) CHR ''0'' @ s"

definition sdec_pad :: "nat \<Rightarrow> int \<Rightarrow> string" where
  "sdec_pad w n = (if n < 0 then CHR ''-'' # zero_pad (w - 1) (dec (nat (- n))) else zero_pad w (dec (nat n)))"

fun c_expand :: "string \<Rightarrow> char \<Rightarrow> carg \<Rightarrow> string" where
  "c_expand d c (C_str s) = s"
| "c_expand d c (C_int n) =
     (if c = CHR ''d'' then sdec_pad (num_of d 0) (c_int n) else dec (nat (c_u32 n)))"
| "c_expand d c (C_long n) = dec (nat (c_u64 n))"
| "c_expand d c _ = []"

fun c_format :: "string option \<Rightarrow> string \<Rightarrow> carg list \<Rightarrow> string" where
  "c_format d [] as = []"
| "c_format None (c # f) as =
     (if c = CHR ''%'' then c_format (Some []) f as else c # c_format None f as)"
| "c_format (Some d) (c # f) as =
     (if c \<in> set ''dsu''
      then (case as of [] \<Rightarrow> [] | a # as \<Rightarrow> c_expand d c a @ c_format None f as)
      else c_format (Some (d @ [c])) f as)"

text \<open>The string in the buffer after \<open>snprintf(buf, n, fmt, ...)\<close>, 0 < n.\<close>

definition c_snprint :: "nat \<Rightarrow> string \<Rightarrow> carg list \<Rightarrow> string" where
  "c_snprint n fmt as = take (n - 1) (c_format None fmt as)"

lemma dec_digits: "c \<in> set (dec n) \<Longrightarrow> \<exists>k<10. c = digit k"
proof (induction n rule: dec.induct)
  case (1 n)
  show ?case
  proof (cases "n < 10")
    case True
    with 1 show ?thesis by (auto simp: dec.simps [of n])
  next
    case False
    with "1.prems" have "c \<in> set (dec (n div 10)) \<or> c = digit (n mod 10)" by (auto simp: dec.simps [of n])
    moreover have "n mod 10 < 10" by simp
    ultimately show ?thesis using "1.IH" [OF False] by blast
  qed
qed

lemma dec_plain: "c \<in> set (dec n) \<Longrightarrow> c \<noteq> CHR ''/'' \<and> c \<noteq> CHR 0x5C \<and> c \<noteq> NUL"
proof -
  assume "c \<in> set (dec n)"
  then obtain k where "k < 10" "c = digit k" using dec_digits by blast
  moreover from this have "k \<in> {0, 1, 2, 3, 4, 5, 6, 7, 8, 9}" by auto
  ultimately show ?thesis by (elim insertE emptyE) (simp_all add: digit_def NUL_def)
qed

section \<open>The state of the system\<close>

record world =
  w_files :: "string \<rightharpoonup> string"
  w_dirs :: "string set"
  w_cwd :: "string option"
  w_stdout :: string
  w_stderr :: string
  w_calls :: nat
  w_fault :: "nat \<Rightarrow> nat option"

definition no_faults :: "world \<Rightarrow> bool" where
  "no_faults w \<longleftrightarrow> (\<forall>n. w_fault w n = None)"

definition next_call :: "world \<Rightarrow> nat option \<times> world" where
  "next_call w = (w_fault w (w_calls w), w\<lparr>w_calls := Suc (w_calls w)\<rparr>)"

datatype errno = EEXIST | ENOENT | EIO

text \<open>The directory a name is in: what stands before its last slash.\<close>

definition parent_dir :: "string \<Rightarrow> string" where
  "parent_dir p = rev (drop 1 (dropWhile (\<lambda>c. c \<noteq> CHR ''/'') (rev p)))"

definition dir_there :: "string \<Rightarrow> world \<Rightarrow> bool" where
  "dir_there p w \<longleftrightarrow> p = [] \<or> p = ''/'' \<or> p \<in> w_dirs w"

definition posix_mkdir :: "string \<Rightarrow> world \<Rightarrow> errno option \<times> world" where
  "posix_mkdir p w =
     (case next_call w of
        (Some k, w) \<Rightarrow> (Some EIO, w)
      | (None, w) \<Rightarrow>
          if p \<in> w_dirs w \<or> p \<in> dom (w_files w) \<or> p = ''/'' then (Some EEXIST, w)
          else if p = [] \<or> \<not> dir_there (parent_dir p) w then (Some ENOENT, w)
          else (None, w\<lparr>w_dirs := insert p (w_dirs w)\<rparr>))"

definition posix_access :: "string \<Rightarrow> world \<Rightarrow> bool \<times> world" where
  "posix_access p w =
     (case next_call w of
        (Some k, w) \<Rightarrow> (False, w)
      | (None, w) \<Rightarrow> (p \<in> dom (w_files w) \<or> p \<in> w_dirs w \<or> p = ''/'', w))"

definition posix_getcwd :: "int \<Rightarrow> world \<Rightarrow> string option \<times> world" where
  "posix_getcwd n w =
     (case next_call w of
        (Some k, w) \<Rightarrow> (None, w)
      | (None, w) \<Rightarrow>
          (case w_cwd w of
             None \<Rightarrow> (None, w)
           | Some d \<Rightarrow> (if int (length d) + 1 \<le> n then Some d else None, w)))"

definition posix_chdir :: "string \<Rightarrow> world \<Rightarrow> bool \<times> world" where
  "posix_chdir p w =
     (case next_call w of
        (Some k, w) \<Rightarrow> (False, w)
      | (None, w) \<Rightarrow> if p = ''/'' \<or> p \<in> w_dirs w then (True, w\<lparr>w_cwd := Some p\<rparr>) else (False, w))"

definition posix_rmdir :: "string \<Rightarrow> world \<Rightarrow> bool \<times> world" where
  "posix_rmdir p w =
     (case next_call w of
        (Some k, w) \<Rightarrow> (False, w)
      | (None, w) \<Rightarrow>
          if p \<in> w_dirs w \<and> (\<forall>q \<in> dom (w_files w) \<union> w_dirs w. parent_dir q \<noteq> p)
          then (True, w\<lparr>w_dirs := w_dirs w - {p}\<rparr>) else (False, w))"

definition posix_rename :: "string \<Rightarrow> string \<Rightarrow> world \<Rightarrow> bool \<times> world" where
  "posix_rename src dst w =
     (case next_call w of
        (Some k, w) \<Rightarrow> (False, w)
      | (None, w) \<Rightarrow>
          (case w_files w src of
             None \<Rightarrow> (False, w)
           | Some txt \<Rightarrow>
               if dst \<in> w_dirs w \<or> \<not> dir_there (parent_dir dst) w then (False, w)
               else if src = dst then (True, w)
               else (True, w\<lparr>w_files := (w_files w)(src := None, dst \<mapsto> txt)\<rparr>)))"

definition posix_remove :: "string \<Rightarrow> world \<Rightarrow> bool \<times> world" where
  "posix_remove p w =
     (if p \<in> w_dirs w then posix_rmdir p w
      else
        (case next_call w of
           (Some k, w) \<Rightarrow> (False, w)
         | (None, w) \<Rightarrow>
             if p \<in> dom (w_files w) then (True, w\<lparr>w_files := (w_files w)(p := None)\<rparr>) else (False, w)))"

section \<open>Streams\<close>

text \<open>A \<open>FILE *\<close>: one of the standard streams, or a named file with its mode and position.\<close>

datatype c_file =
    F_stdout
  | F_stderr
  | F_file string bool bool nat

definition posix_fopen :: "string \<Rightarrow> string \<Rightarrow> world \<Rightarrow> c_file option \<times> world" where
  "posix_fopen p mode w =
     (case next_call w of
        (Some k, w) \<Rightarrow> (None, w)
      | (None, w) \<Rightarrow>
          if p = [] \<or> p = ''/'' \<or> p \<in> w_dirs w \<or> \<not> dir_there (parent_dir p) w then (None, w)
          else
            (let update = (CHR ''+'' \<in> set mode);
                 create = (if w_files w p = None then w\<lparr>w_files := (w_files w)(p \<mapsto> [])\<rparr> else w)
             in if deref mode = CHR ''r''
                then (if w_files w p = None then (None, w) else (Some (F_file p False update 0), w))
                else if deref mode = CHR ''w''
                then (Some (F_file p False True 0), w\<lparr>w_files := (w_files w)(p \<mapsto> [])\<rparr>)
                else if deref mode = CHR ''a'' then (Some (F_file p True True 0), create)
                else (None, w)))"

text \<open>Bytes put at a position of a file, at its end when the stream appends.\<close>

definition put_bytes :: "bool \<Rightarrow> nat \<Rightarrow> string \<Rightarrow> string \<Rightarrow> string" where
  "put_bytes at_end pos bs txt =
     (if at_end then txt @ bs
      else take pos txt @ replicate (pos - length txt) NUL @ bs @ drop (pos + length bs) txt)"

definition deliver :: "c_file \<Rightarrow> string \<Rightarrow> world \<Rightarrow> c_file \<times> world" where
  "deliver fp bs w =
     (case fp of
        F_stdout \<Rightarrow> (fp, w\<lparr>w_stdout := w_stdout w @ bs\<rparr>)
      | F_stderr \<Rightarrow> (fp, w\<lparr>w_stderr := w_stderr w @ bs\<rparr>)
      | F_file p app wr pos \<Rightarrow>
          (F_file p app wr (pos + length bs),
           w\<lparr>w_files := (w_files w)(p := map_option (put_bytes app pos bs) (w_files w p))\<rparr>))"

definition c_writable :: "c_file \<Rightarrow> bool" where
  "c_writable fp = (case fp of F_file p app wr pos \<Rightarrow> wr | _ \<Rightarrow> True)"

text \<open>\<open>fwrite(s, 1, n, fp)\<close>: the bytes written, fewer than asked when the call fails.\<close>

definition c_fwrite :: "string \<Rightarrow> c_file \<Rightarrow> world \<Rightarrow> int \<times> c_file \<times> world" where
  "c_fwrite bs fp w =
     (case next_call w of
        (fault, w) \<Rightarrow>
          (let n = (if c_writable fp then (case fault of None \<Rightarrow> length bs | Some k \<Rightarrow> min k (length bs)) else 0)
           in (int n, deliver fp (take n bs) w)))"

text \<open>\<open>vfprintf\<close>: the number of characters, or -1 when a write fails.\<close>

definition c_vfprintf :: "string \<Rightarrow> carg list \<Rightarrow> c_file \<Rightarrow> world \<Rightarrow> int \<times> c_file \<times> world" where
  "c_vfprintf fmt as fp w =
     (let bs = c_format None fmt as
      in case c_fwrite bs fp w of (n, fp, w) \<Rightarrow> (if n = int (length bs) then n else - 1, fp, w))"

text \<open>\<open>fseek(fp, 0, SEEK_END)\<close> and \<open>ftell\<close>.\<close>

definition c_tell_end :: "c_file \<Rightarrow> world \<Rightarrow> c_file \<times> int" where
  "c_tell_end fp w =
     (case fp of
        F_file p app wr pos \<Rightarrow>
          (case w_files w p of
             None \<Rightarrow> (fp, int pos)
           | Some txt \<Rightarrow> (F_file p app wr (length txt), int (length txt)))
      | _ \<Rightarrow> (fp, - 1))"

end
