(* ===== verification/Haclog_Os.thy ===== *)
theory Haclog_Os
  imports Haclog_Stdio
begin

text \<open>
  \<open>haclog_os.c\<close>, the POSIX branch: the thin wrappers over the system calls and the recursive
  \<open>haclog_os_mkdir\<close>. \<open>haclog_os_fopen\<close> uses the path operations and is in \<open>Haclog_Path\<close>.
\<close>

definition HACLOG_MAX_PATH :: nat where
  "HACLOG_MAX_PATH = 1024"

text \<open>\<open>path\<close> is the caller's buffer of \<open>sz\<close> bytes; a failing \<open>getcwd\<close> leaves it as it is.\<close>

definition haclog_os_curdir :: "block \<Rightarrow> int \<Rightarrow> world \<Rightarrow> (haclog_error \<times> block \<times> world) option" where
  "haclog_os_curdir path sz w =
     (case posix_getcwd sz w of
        (None, w) \<Rightarrow> Some (HACLOG_ERR_SYS_CALL, path, w)
      | (Some d, w) \<Rightarrow> map_option (\<lambda>path. (HACLOG_ERR_OK, path, w)) (mem_write path 0 (d @ [NUL])))"

text \<open>
  \<open>haclog_os_process_path\<close> on Linux. \<open>readlink\<close> says what a symbolic link points to; the call stores at
  most \<open>size - 1\<close> bytes of it and no NUL. The name of the link is cut to the 63 bytes \<open>snprintf\<close> is given.
\<close>

definition haclog_os_process_path ::
  "(string \<rightharpoonup> string) \<Rightarrow> nat \<Rightarrow> block \<Rightarrow> int \<Rightarrow> (haclog_error \<times> block) option" where
  "haclog_os_process_path readlink pid path sz =
     (let sz_tmp = take 62 (''/proc/'' @ dec pid @ ''/exe'')
      in case readlink sz_tmp of
           None \<Rightarrow> Some (HACLOG_ERR_SYS_CALL, path)
         | Some target \<Rightarrow>
             (let bs = take (nat (c_u32 (sz - 1))) target
              in case mem_write path 0 bs of
                   None \<Rightarrow> None
                 | Some path \<Rightarrow> map_option (Pair HACLOG_ERR_OK) (mem_write path (length bs) [NUL])))"

text \<open>A buffer of at least one byte ends up with the target, cut to the buffer, and its NUL.\<close>

lemma process_path_result:
  assumes "readlink (take 62 (''/proc/'' @ dec pid @ ''/exe'')) = Some target" "is_cstring target"
    and "int (length path) = sz" "1 \<le> sz" "sz < 4294967296"
  shows "\<exists>path'. haclog_os_process_path readlink pid path sz = Some (HACLOG_ERR_OK, path') \<and>
    cstr_at path' 0 = Some (take (nat sz - 1) target)"
proof -
  let ?bs = "take (nat sz - 1) target"
  have u: "nat (c_u32 (sz - 1)) = nat sz - 1" using assms(4,5) by (simp add: c_u32_id nat_diff_distrib)
  have "length ?bs < length path" using assms(3,4) by simp
  moreover have "takeWhile (\<lambda>c. c \<noteq> NUL) (?bs @ NUL # rest) = ?bs" for rest
    using assms(2) by (subst takeWhile_append2) (auto simp: is_cstring_def dest: in_set_takeD)
  moreover have "take (min (length target) (nat sz - Suc 0)) target = ?bs" by (simp add: min_def)
  ultimately show ?thesis
    using assms(1) by (simp add: haclog_os_process_path_def u Let_def mem_write_def cstr_at_def)
qed

definition haclog_os_chdir :: "string \<Rightarrow> world \<Rightarrow> haclog_error \<times> world" where
  "haclog_os_chdir path w =
     (case posix_chdir path w of (ok, w) \<Rightarrow> (if ok then HACLOG_ERR_OK else HACLOG_ERR_SYS_CALL, w))"

definition haclog_os_remove :: "string \<Rightarrow> world \<Rightarrow> haclog_error \<times> world" where
  "haclog_os_remove path w =
     (case posix_remove path w of (ok, w) \<Rightarrow> (if ok then HACLOG_ERR_OK else HACLOG_ERR_SYS_CALL, w))"

definition haclog_os_rmdir :: "string \<Rightarrow> world \<Rightarrow> haclog_error \<times> world" where
  "haclog_os_rmdir path w =
     (case posix_rmdir path w of (ok, w) \<Rightarrow> (if ok then HACLOG_ERR_OK else HACLOG_ERR_SYS_CALL, w))"

definition haclog_os_rename :: "string \<Rightarrow> string \<Rightarrow> world \<Rightarrow> haclog_error \<times> world" where
  "haclog_os_rename src dst w =
     (case posix_rename src dst w of (ok, w) \<Rightarrow> (if ok then HACLOG_ERR_OK else HACLOG_ERR_SYS_CALL, w))"

text \<open>
  The loop of \<open>haclog_os_mkdir\<close>: \<open>done\<close> is \<open>_path\<close> up to \<open>p\<close>, the string \<open>_path\<close> is while \<open>*p\<close> is
  truncated; the rest is what \<open>p\<close> points at.
\<close>

definition mkdir_once :: "string \<Rightarrow> world \<Rightarrow> haclog_error \<times> world" where
  "mkdir_once p w =
     (case posix_mkdir p w of
        (None, w) \<Rightarrow> (HACLOG_ERR_OK, w)
      | (Some e, w) \<Rightarrow> (if e \<noteq> EEXIST then HACLOG_ERR_SYS_CALL else HACLOG_ERR_OK, w))"

fun mkdir_loop :: "string \<Rightarrow> string \<Rightarrow> world \<Rightarrow> haclog_error \<times> world" where
  "mkdir_loop path [] w = mkdir_once path w"
| "mkdir_loop path (c # rest) w =
     (if c = CHR ''/''
      then (case mkdir_once path w of
              (e, w) \<Rightarrow> (if e \<noteq> HACLOG_ERR_OK then (e, w) else mkdir_loop (path @ [c]) rest w))
      else mkdir_loop (path @ [c]) rest w)"

definition haclog_os_mkdir :: "string \<Rightarrow> world \<Rightarrow> haclog_error \<times> world" where
  "haclog_os_mkdir path w =
     (case path of
        [] \<Rightarrow> (HACLOG_ERR_OK, w)
      | c # rest \<Rightarrow>
          if length path > HACLOG_MAX_PATH - 1 then (HACLOG_ERR_ARGUMENTS, w)
          else mkdir_loop [c] rest w)"

section \<open>What mkdir makes\<close>

lemma no_fault_call: "no_faults w \<Longrightarrow> next_call w = (None, w\<lparr>w_calls := Suc (w_calls w)\<rparr>)"
  by (simp add: no_faults_def next_call_def)

lemma no_faults_update [simp]:
  "no_faults (w\<lparr>w_calls := n\<rparr>) = no_faults w" "no_faults (w\<lparr>w_dirs := ds\<rparr>) = no_faults w"
  "no_faults (w\<lparr>w_files := fs\<rparr>) = no_faults w" "no_faults (w\<lparr>w_stdout := o'\<rparr>) = no_faults w"
  "no_faults (w\<lparr>w_stderr := e\<rparr>) = no_faults w"
  by (simp_all add: no_faults_def)

lemma parent_dir_snoc: "parent_dir (p @ [c]) = (if c = CHR ''/'' then p else parent_dir p)"
  by (simp add: parent_dir_def)

lemma parent_dir_single [simp]: "parent_dir [c] = []"
  by (simp add: parent_dir_def)

text \<open>The names the loop creates: the path at each slash, and the whole path.\<close>

fun dir_chain :: "string \<Rightarrow> string \<Rightarrow> string list" where
  "dir_chain p [] = [p]"
| "dir_chain p (c # rest) = (if c = CHR ''/'' then [p] else []) @ dir_chain (p @ [c]) rest"

lemma dir_chain_prefixes:
  "q \<in> set (dir_chain p rest) \<longleftrightarrow> (\<exists>r s. rest = r @ s \<and> q = p @ r \<and> (s = [] \<or> hd s = CHR ''/''))"
proof (induction p rest rule: dir_chain.induct)
  case (2 p c rest)
  show ?case
  proof
    assume "q \<in> set (dir_chain p (c # rest))"
    then consider "c = CHR ''/''" "q = p" | "q \<in> set (dir_chain (p @ [c]) rest)"
      by (auto split: if_splits)
    then show "\<exists>r s. c # rest = r @ s \<and> q = p @ r \<and> (s = [] \<or> hd s = CHR ''/'')"
    proof cases
      case 2
      with "2.IH" obtain r s where "rest = r @ s" "q = (p @ [c]) @ r" "s = [] \<or> hd s = CHR ''/''" by auto
      then show ?thesis by (intro exI [of _ "c # r"] exI [of _ s]) simp
    qed (intro exI [of _ "[]"] exI [of _ "c # rest"], simp)
  next
    assume "\<exists>r s. c # rest = r @ s \<and> q = p @ r \<and> (s = [] \<or> hd s = CHR ''/'')"
    then obtain r s where rs: "c # rest = r @ s" "q = p @ r" "s = [] \<or> hd s = CHR ''/''" by blast
    show "q \<in> set (dir_chain p (c # rest))"
    proof (cases r)
      case (Cons x r')
      with rs have "rest = r' @ s \<and> q = (p @ [c]) @ r'" by simp
      with "2.IH" rs(3) have "q \<in> set (dir_chain (p @ [c]) rest)" by blast
      then show ?thesis by simp
    qed (use rs in auto)
  qed
qed auto

definition made :: "string list \<Rightarrow> world \<Rightarrow> world \<Rightarrow> bool" where
  "made ps w w' \<longleftrightarrow> w_dirs w' = w_dirs w \<union> (set ps - {''/''}) \<and> w_files w' = w_files w \<and>
     w_cwd w' = w_cwd w \<and> no_faults w'"

lemma mkdir_once_made:
  assumes "no_faults w" and "p \<notin> dom (w_files w)" and "p \<noteq> []" and "dir_there (parent_dir p) w"
  shows "\<exists>w'. mkdir_once p w = (HACLOG_ERR_OK, w') \<and> made [p] w w'"
  using assms by (auto simp: mkdir_once_def posix_mkdir_def no_fault_call made_def dir_there_def)

lemma mkdir_loop_made:
  "no_faults w \<Longrightarrow> \<forall>q\<in>set (dir_chain p rest). q \<notin> dom (w_files w) \<Longrightarrow> p \<noteq> [] \<Longrightarrow>
   dir_there (parent_dir p) w \<Longrightarrow>
   \<exists>w'. mkdir_loop p rest w = (HACLOG_ERR_OK, w') \<and> made (dir_chain p rest) w w'"
proof (induction p rest arbitrary: w rule: dir_chain.induct)
  case (1 p)
  then show ?case using mkdir_once_made [of w p] by simp
next
  case (2 p c rest)
  show ?case
  proof (cases "c = CHR ''/''")
    case True
    with "2.prems" mkdir_once_made [of w p] obtain w1 where
      w1: "mkdir_once p w = (HACLOG_ERR_OK, w1)" "made [p] w w1" by auto
    have "no_faults w1" "\<forall>q\<in>set (dir_chain (p @ [c]) rest). q \<notin> dom (w_files w1)"
      "dir_there (parent_dir (p @ [c])) w1"
      using w1(2) "2.prems" True by (auto simp: made_def parent_dir_snoc dir_there_def)
    with "2.IH" [of w1] obtain w2 where
      "mkdir_loop (p @ [c]) rest w1 = (HACLOG_ERR_OK, w2)" "made (dir_chain (p @ [c]) rest) w1 w2" by auto
    then show ?thesis using w1 True by (auto simp: made_def)
  next
    case False
    with "2.IH" [of w] "2.prems" show ?thesis by (auto simp: parent_dir_snoc)
  qed
qed

text \<open>
  C27: recursive mkdir. When no system call fails, the path is at most 1023 characters and no file is in
  the way, \<open>haclog_os_mkdir\<close> succeeds, and the directories afterwards are those before, the path, and
  the path cut at each of its slashes; files and working directory are as before.
\<close>

theorem os_mkdir_creates:
  assumes "no_faults w" and "path \<noteq> []" and "length path \<le> 1023"
    and "\<forall>q r. path = q @ r \<and> (r = [] \<or> hd r = CHR ''/'') \<longrightarrow> q \<notin> dom (w_files w)"
  shows "\<exists>w'. haclog_os_mkdir path w = (HACLOG_ERR_OK, w') \<and> w_files w' = w_files w \<and> w_cwd w' = w_cwd w \<and>
    w_dirs w' = w_dirs w \<union> {q. \<exists>r. path = q @ r \<and> q \<noteq> [] \<and> q \<noteq> ''/'' \<and> (r = [] \<or> hd r = CHR ''/'')}"
proof -
  obtain c rest where path: "path = c # rest" using assms(2) by (cases path) auto
  have chain: "q \<in> set (dir_chain [c] rest) \<longleftrightarrow>
      (\<exists>r. path = q @ r \<and> q \<noteq> [] \<and> (r = [] \<or> hd r = CHR ''/''))" for q
    using dir_chain_prefixes [of q "[c]" rest] by (cases q) (auto simp: path)
  have "\<forall>q\<in>set (dir_chain [c] rest). q \<notin> dom (w_files w)" using chain assms(4) by blast
  with mkdir_loop_made [of w "[c]" rest] assms(1) obtain w' where
    w': "mkdir_loop [c] rest w = (HACLOG_ERR_OK, w')" "made (dir_chain [c] rest) w w'"
    by (auto simp: dir_there_def)
  have "haclog_os_mkdir path w = (HACLOG_ERR_OK, w')"
    using w'(1) assms(3) by (simp add: haclog_os_mkdir_def path HACLOG_MAX_PATH_def)
  moreover have "w_dirs w' = w_dirs w \<union> {q. \<exists>r. path = q @ r \<and> q \<noteq> [] \<and> q \<noteq> ''/'' \<and> (r = [] \<or> hd r = CHR ''/'')}"
    using w'(2) chain by (auto simp: made_def)
  ultimately show ?thesis using w'(2) by (auto simp: made_def)
qed

lemma os_mkdir_creates_witness:
  "\<exists>w'. haclog_os_mkdir ''/a/b''
      \<lparr>w_files = Map.empty, w_dirs = {}, w_cwd = None, w_stdout = [], w_stderr = [], w_calls = 0,
       w_fault = \<lambda>n. None\<rparr> = (HACLOG_ERR_OK, w') \<and> {''/a'', ''/a/b''} \<subseteq> w_dirs w'"
proof -
  let ?w = "\<lparr>w_files = Map.empty, w_dirs = {}, w_cwd = None, w_stdout = [], w_stderr = [], w_calls = 0,
       w_fault = \<lambda>n. None\<rparr> :: world"
  from os_mkdir_creates [of ?w "''/a/b''"] obtain w' where
    w': "haclog_os_mkdir ''/a/b'' ?w = (HACLOG_ERR_OK, w')"
    "w_dirs w' = {q. \<exists>r. ''/a/b'' = q @ r \<and> q \<noteq> [] \<and> q \<noteq> ''/'' \<and> (r = [] \<or> hd r = CHR ''/'')}"
    by (auto simp: no_faults_def)
  have "''/a'' \<in> w_dirs w'" unfolding w'(2) by (intro CollectI exI [of _ "''/b''"]) simp
  moreover have "''/a/b'' \<in> w_dirs w'" unfolding w'(2) by (intro CollectI exI [of _ "[]"]) simp
  ultimately show ?thesis using w'(1) by auto
qed

end
