(* ===== verification/Haclog_Path.thy ===== *)
theory Haclog_Path
  imports Haclog_Os
begin

text \<open>
  \<open>haclog_path.c\<close> and \<open>haclog_os_fopen\<close>, the POSIX branch. A result buffer is a block of at least
  \<open>sz\<close> bytes; writing outside the block, or reading a string with no NUL in it, is undefined
  behaviour and has no result (\<open>None\<close>). A failing operation returns what it left in the buffer.
\<close>

type_synonym path_result = "(haclog_error \<times> block) option"

definition is_sep :: "char \<Rightarrow> bool" where
  "is_sep c \<longleftrightarrow> c = CHR ''/'' \<or> c = CHR 0x5C"

section \<open>String helpers\<close>

fun same_chars :: "string \<Rightarrow> string \<Rightarrow> bool" where
  "same_chars str [] = True"
| "same_chars [] (c # prefix) = False"
| "same_chars (d # str) (c # prefix) = (if d \<noteq> c then False else same_chars str prefix)"

definition haclog_str_startswith :: "string option \<Rightarrow> string option \<Rightarrow> bool" where
  "haclog_str_startswith str prefix =
     (case (str, prefix) of
        (Some str, Some prefix) \<Rightarrow>
          if length str < length prefix then False
          else if \<not> same_chars str prefix then False
          else if length str \<noteq> 0 \<and> length prefix = 0 then False
          else True
      | _ \<Rightarrow> False)"

definition haclog_str_endswith :: "string option \<Rightarrow> string option \<Rightarrow> bool" where
  "haclog_str_endswith str suffix =
     (case (str, suffix) of
        (Some str, Some suffix) \<Rightarrow>
          if length str < length suffix then False
          else if \<not> same_chars (rev str) (rev suffix) then False
          else if length str \<noteq> 0 \<and> length suffix = 0 then False
          else True
      | _ \<Rightarrow> False)"

text \<open>The backwards search for a separator among the first n characters; -1 when there is none.\<close>

fun last_sep :: "string \<Rightarrow> nat \<Rightarrow> int" where
  "last_sep s 0 = - 1"
| "last_sep s (Suc n) = (if is_sep (s ! n) then int n else last_sep s n)"

section \<open>Basename, dirname, isabs, exists\<close>

definition haclog_path_basename :: "string \<Rightarrow> block \<Rightarrow> int \<Rightarrow> path_result" where
  "haclog_path_basename path ret sz =
     (let total_len = c_int (int (length path))
      in if sz \<le> 1 then Some (HACLOG_ERR_ARGUMENTS, ret)
         else if total_len \<le> 0 then Some (HACLOG_ERR_ARGUMENTS, ret)
         else
           (let pos = last_sep path (nat total_len)
            in if pos < 0
               then (if total_len > sz - 1 then Some (HACLOG_ERR_ARGUMENTS, ret)
                     else map_option (Pair HACLOG_ERR_OK) (c_strncpy ret 0 path (nat (sz - 1))))
               else
                 (let len = total_len - 1 - pos
                  in if len \<le> 0 then Some (HACLOG_ERR_ARGUMENTS, ret)
                     else
                       (let len = (if len \<ge> sz then sz - 1 else len)
                        in map_option (Pair HACLOG_ERR_OK)
                             (mem_write ret 0 (take (nat len) (drop (nat (pos + 1)) path) @ [NUL]))))))"

definition haclog_path_dirname :: "string \<Rightarrow> block \<Rightarrow> int \<Rightarrow> path_result" where
  "haclog_path_dirname path ret sz =
     (let total_len = c_int (int (length path))
      in if sz \<le> 1 then Some (HACLOG_ERR_ARGUMENTS, ret)
         else if total_len \<le> 0 then Some (HACLOG_ERR_ARGUMENTS, ret)
         else
           (let pos = last_sep path (nat total_len)
            in if pos < 0 then Some (HACLOG_ERR_ARGUMENTS, ret)
               else
                 (let pos = (if pos = 0 then 1 else pos);
                      pos = (if pos - 1 > 0 \<and> path ! nat (pos - 1) = CHR '':'' then pos + 1 else pos)
                  in if pos \<ge> c_int sz then Some (HACLOG_ERR_ARGUMENTS, ret)
                     else map_option (Pair HACLOG_ERR_OK) (mem_write ret 0 (take (nat pos) path @ [NUL])))))"

definition is_letter :: "char \<Rightarrow> bool" where
  "is_letter c \<longleftrightarrow>
     (97 \<le> (of_char c :: int) \<and> (of_char c :: int) \<le> 122) \<or>
     (65 \<le> (of_char c :: int) \<and> (of_char c :: int) \<le> 90)"

definition haclog_path_isabs :: "string \<Rightarrow> bool" where
  "haclog_path_isabs path =
     (if length path > 1 \<and> path ! 0 = CHR ''/'' then True
      else if length path > 2 \<and> is_letter (path ! 0) \<and> path ! 1 = CHR '':'' \<and> is_sep (path ! 2) then True
      else False)"

definition haclog_path_exists :: "string \<Rightarrow> world \<Rightarrow> bool \<times> world" where
  "haclog_path_exists path w = posix_access path w"

section \<open>Join\<close>

definition haclog_path_join :: "string \<Rightarrow> string \<Rightarrow> block \<Rightarrow> int \<Rightarrow> path_result" where
  "haclog_path_join path1 path2 ret sz =
     (let max_len = c_u32 (sz - 1);
          len1 = c_int (int (length path1));
          len2 = c_int (int (length path2))
      in if max_len \<le> 0 then Some (HACLOG_ERR_ARGUMENTS, ret)
         else if len1 \<le> 0 \<or> len2 \<le> 0 then Some (HACLOG_ERR_ARGUMENTS, ret)
         else if len1 > max_len then Some (HACLOG_ERR_ARGUMENTS, ret)
         else
           (case c_strncpy ret 0 path1 (nat max_len) of
              None \<Rightarrow> None
            | Some ret \<Rightarrow>
                if deref path2 = NUL
                then map_option (Pair HACLOG_ERR_OK) (mem_write ret (nat len1) [NUL])
                else
                  (case cstr_at ret 0 of
                     None \<Rightarrow> None
                   | Some str \<Rightarrow>
                       (let slash = (\<not> haclog_str_endswith (Some str) (Some ''/'') \<and>
                                     \<not> haclog_str_endswith (Some str) (Some [CHR 0x5C]))
                        in if slash \<and> len1 \<ge> sz then Some (HACLOG_ERR_ARGUMENTS, ret)
                           else
                             (case (if slash then mem_write ret (nat len1) ''/'' else Some ret) of
                                None \<Rightarrow> None
                              | Some ret \<Rightarrow>
                                  (let pos = (if slash then len1 + 1 else len1);
                                       lead = (deref path2 = CHR ''/'');
                                       p = (if lead then drop 1 path2 else path2);
                                       len2' = (if lead then len2 - 1 else len2)
                                   in if lead \<and> len2 = 1 then Some (HACLOG_ERR_ARGUMENTS, ret)
                                      else if c_u32 (pos + len2') > max_len
                                      then Some (HACLOG_ERR_ARGUMENTS, ret)
                                      else
                                        (case c_strncpy ret (nat pos) p (nat len2') of
                                           None \<Rightarrow> None
                                         | Some ret \<Rightarrow>
                                             map_option (Pair HACLOG_ERR_OK)
                                               (mem_write ret (nat (pos + len2')) [NUL]))))))))"

section \<open>Normpath\<close>

text \<open>
  The loop of \<open>haclog_path_normpath\<close> on the unread part of the path and the \<open>pos\<close> characters written
  so far. \<open>deref (drop i ret)\<close> is \<open>ret[i]\<close>; it is only read below \<open>pos\<close>, inside the block.
\<close>

definition ret_at :: "block \<Rightarrow> int \<Rightarrow> char" where
  "ret_at ret i = deref (drop (nat i) ret)"

text \<open>The branch of a \<open>..\<close>, after \<open>cursor += 2\<close>: \<open>c\<close> is \<open>*cursor\<close>.\<close>

definition normpath_dots ::
  "char \<Rightarrow> block \<Rightarrow> int \<Rightarrow> (haclog_error \<times> block \<times> int) option" where
  "normpath_dots c ret pos =
     (if pos = 0 \<or>
         (pos \<ge> 3 \<and> ret_at ret (pos - 3) = CHR ''.'' \<and> ret_at ret (pos - 2) = CHR ''.'' \<and>
          is_sep (ret_at ret (pos - 1)))
      then map_option (\<lambda>ret. (HACLOG_ERR_OK, ret, pos + 3)) (mem_write ret (nat pos) [CHR ''.'', CHR ''.'', c])
      else if \<not> is_sep (ret_at ret (pos - 1)) then Some (HACLOG_ERR_ARGUMENTS, ret, pos)
      else if pos - 2 < 0 then Some (HACLOG_ERR_ARGUMENTS, ret, pos - 2)
      else Some (HACLOG_ERR_OK, ret, last_sep ret (nat (pos - 1)) + 1))"

function normpath_loop :: "string \<Rightarrow> block \<Rightarrow> int \<Rightarrow> (haclog_error \<times> block \<times> int) option" where
  "normpath_loop [] ret pos = Some (HACLOG_ERR_OK, ret, pos)"
| "normpath_loop (c # rest) ret pos =
     (if c = CHR ''.'' \<and> deref rest = CHR ''.''
      then
        (let c2 = deref (drop 1 rest)
         in if c2 \<noteq> NUL \<and> c2 \<noteq> CHR ''/'' \<and> c2 \<noteq> CHR 0x5C then Some (HACLOG_ERR_ARGUMENTS, ret, pos)
            else
              (case normpath_dots c2 ret pos of
                 None \<Rightarrow> None
               | Some (e, ret, pos) \<Rightarrow>
                   if e \<noteq> HACLOG_ERR_OK then Some (e, ret, pos)
                   else normpath_loop (drop 2 rest) ret pos))
      else
        (case mem_write ret (nat pos) [c] of
           None \<Rightarrow> None
         | Some ret \<Rightarrow> normpath_loop rest ret (pos + 1)))"
  by pat_completeness auto
termination
  by (relation "measure (\<lambda>(cursor, ret, pos). length cursor)") auto

definition haclog_path_normpath :: "string \<Rightarrow> block \<Rightarrow> int \<Rightarrow> path_result" where
  "haclog_path_normpath path ret sz =
     (if c_u32 (c_int (int (length path))) \<ge> sz then Some (HACLOG_ERR_ARGUMENTS, ret)
      else
        (let cursor =
           (if \<not> haclog_path_isabs path \<and>
               (haclog_str_startswith (Some path) (Some ''./'') \<or>
                haclog_str_startswith (Some path) (Some [CHR ''.'', CHR 0x5C]))
            then drop 2 path else path)
         in case normpath_loop cursor ret 0 of
              None \<Rightarrow> None
            | Some (e, ret, pos) \<Rightarrow>
                if e \<noteq> HACLOG_ERR_OK then Some (e, ret)
                else if pos = 0
                then (if sz \<le> 2 then Some (HACLOG_ERR_ARGUMENTS, ret)
                      else map_option (Pair HACLOG_ERR_OK) (mem_write ret 0 [CHR ''.'', CHR ''/'', NUL]))
                else map_option (Pair HACLOG_ERR_OK) (mem_write ret (nat pos) [NUL])))"

section \<open>Abspath\<close>

text \<open>\<open>locals\<close> is what the two uninitialised arrays of the function hold.\<close>

definition haclog_path_abspath ::
  "block \<times> block \<Rightarrow> string \<Rightarrow> block \<Rightarrow> int \<Rightarrow> world \<Rightarrow> (haclog_error \<times> block \<times> world) option" where
  "haclog_path_abspath locals path ret sz w =
     (if sz \<le> 1 then Some (HACLOG_ERR_ARGUMENTS, ret, w)
      else if haclog_path_isabs path
      then (if int (length path) > sz - 1 then Some (HACLOG_ERR_ARGUMENTS, ret, w)
            else map_option (\<lambda>ret. (HACLOG_ERR_OK, ret, w)) (c_strncpy ret 0 path (nat (sz - 1))))
      else
        (case haclog_os_curdir (fst locals) (int HACLOG_MAX_PATH) w of
           None \<Rightarrow> None
         | Some (r, cur_dir, w) \<Rightarrow>
             if r \<noteq> HACLOG_ERR_OK then Some (r, ret, w)
             else
               (case cstr_at cur_dir 0 of
                  None \<Rightarrow> None
                | Some cur_dir \<Rightarrow>
                    (case haclog_path_join cur_dir path (snd locals) (int HACLOG_MAX_PATH) of
                       None \<Rightarrow> None
                     | Some (r, full_path) \<Rightarrow>
                         if r \<noteq> HACLOG_ERR_OK then Some (r, ret, w)
                         else
                           (case cstr_at full_path 0 of
                              None \<Rightarrow> None
                            | Some full_path \<Rightarrow>
                                map_option (\<lambda>(r, ret). (r, ret, w))
                                  (haclog_path_normpath full_path ret sz))))))"

section \<open>Opening a file, its directories made on the way\<close>

text \<open>
  The absolute name of a file the way \<open>haclog_os_fopen\<close> and the handlers' initialisers make it: the
  name itself, or the working directory joined with it.
\<close>

definition abs_filepath ::
  "block \<times> block \<Rightarrow> string \<Rightarrow> world \<Rightarrow> ((haclog_error + string) \<times> world) option" where
  "abs_filepath locals filepath w =
     (if haclog_path_isabs filepath then Some (Inr filepath, w)
      else
        (case haclog_os_curdir (fst locals) (int HACLOG_MAX_PATH) w of
           None \<Rightarrow> None
         | Some (r, cur_path, w) \<Rightarrow>
             if r \<noteq> HACLOG_ERR_OK then Some (Inl r, w)
             else
               (case cstr_at cur_path 0 of
                  None \<Rightarrow> None
                | Some cur_path \<Rightarrow>
                    (case haclog_path_join cur_path filepath (snd locals) (int HACLOG_MAX_PATH) of
                       None \<Rightarrow> None
                     | Some (r, path) \<Rightarrow>
                         if r \<noteq> HACLOG_ERR_OK then Some (Inl r, w)
                         else map_option (\<lambda>p. (Inr p, w)) (cstr_at path 0)))))"

definition haclog_os_fopen ::
  "block \<times> block \<times> block \<Rightarrow> string \<Rightarrow> string \<Rightarrow> world \<Rightarrow> (c_file option \<times> world) option" where
  "haclog_os_fopen locals filepath mode w =
     (case locals of (cur, tmp, dir) \<Rightarrow>
       (case abs_filepath (cur, tmp) filepath w of
          None \<Rightarrow> None
        | Some (Inl e, w) \<Rightarrow> Some (None, w)
        | Some (Inr path, w) \<Rightarrow>
            (case haclog_path_dirname path dir (int HACLOG_MAX_PATH) of
               None \<Rightarrow> None
             | Some (ret, dir) \<Rightarrow>
                 if ret \<noteq> HACLOG_ERR_OK then Some (None, w)
                 else
                   (case cstr_at dir 0 of
                      None \<Rightarrow> None
                    | Some file_dir \<Rightarrow>
                        (case haclog_path_exists file_dir w of
                           (True, w) \<Rightarrow> Some (posix_fopen path mode w)
                         | (False, w) \<Rightarrow>
                             (case haclog_os_mkdir file_dir w of
                                (ret, w) \<Rightarrow>
                                  if ret \<noteq> HACLOG_ERR_OK then Some (None, w)
                                  else Some (posix_fopen path mode w)))))))"

end
