(* ===== verification/Haclog_Path_Props.thy ===== *)
theory Haclog_Path_Props
  imports Haclog_Path
begin

text \<open>
  What the path operations compute. A path is a root (the slash of an absolute path, or nothing)
  and components; \<open>norm_ref\<close> resolves the components on a stack and \<open>haclog_path_normpath\<close> is shown
  to do the same inside its buffer.
\<close>

section \<open>The reference\<close>

fun no_dots :: "string \<Rightarrow> bool" where
  "no_dots [] = True"
| "no_dots (a # s) \<longleftrightarrow> \<not> (a = CHR ''.'' \<and> deref s = CHR ''.'') \<and> no_dots s"

definition plain :: "string \<Rightarrow> bool" where
  "plain c \<longleftrightarrow> c \<noteq> [] \<and> no_dots c \<and> (\<forall>x\<in>set c. \<not> is_sep x \<and> x \<noteq> NUL)"

definition dots :: string where
  "dots = ''..''"

fun norm_stack :: "bool \<Rightarrow> string list \<Rightarrow> string list \<Rightarrow> string list option" where
  "norm_stack rooted st [] = Some st"
| "norm_stack rooted st (c # cs) =
     (if c \<noteq> dots then norm_stack rooted (c # st) cs
      else if st = [] then (if rooted then None else norm_stack rooted [dots] cs)
      else if hd st = dots then norm_stack rooted (dots # st) cs
      else norm_stack rooted (tl st) cs)"

definition comps_text :: "string list \<Rightarrow> string" where
  "comps_text cs = concat (map (\<lambda>c. c @ ''/'') cs)"

definition root_text :: "bool \<Rightarrow> string" where
  "root_text rooted = (if rooted then ''/'' else [])"

definition stack_text :: "bool \<Rightarrow> string list \<Rightarrow> string" where
  "stack_text rooted st = root_text rooted @ comps_text (rev st)"

text \<open>The normalized path of the components \<open>cs\<close> and the last component \<open>c\<close>.\<close>

definition norm_ref :: "bool \<Rightarrow> string list \<Rightarrow> string \<Rightarrow> string option" where
  "norm_ref rooted cs c =
     (case norm_stack rooted [] cs of
        None \<Rightarrow> None
      | Some st \<Rightarrow>
          if c \<noteq> dots \<or> (if st = [] then \<not> rooted else hd st = dots) then Some (stack_text rooted st @ c)
          else if st = [] then None
          else (let t = stack_text rooted (tl st) in Some (if t = [] then ''./'' else t)))"

lemma NUL_chars [simp]:
  "NUL \<noteq> CHR ''/''" "CHR ''/'' \<noteq> NUL" "NUL \<noteq> CHR ''.''" "CHR ''.'' \<noteq> NUL"
  by (simp_all add: NUL_def)

section \<open>The loop on one component\<close>

lemma comps_text_simps [simp]:
  "comps_text [] = []" "comps_text (c # cs) = c @ CHR ''/'' # comps_text cs"
  "comps_text (cs @ ds) = comps_text cs @ comps_text ds"
  by (simp_all add: comps_text_def)

lemma stack_text_push: "stack_text rooted (c # st) = stack_text rooted st @ c @ ''/''"
  by (simp add: stack_text_def)

lemma write_at_end:
  "length bs \<le> length R \<Longrightarrow> mem_write (T @ R) (length T) bs = Some ((T @ bs) @ drop (length bs) R)"
  by (simp add: mem_write_def)

lemma loop_plain:
  "no_dots s \<Longrightarrow> \<not> (s \<noteq> [] \<and> last s = CHR ''.'' \<and> deref rest = CHR ''.'') \<Longrightarrow> length s \<le> length R \<Longrightarrow>
   normpath_loop (s @ rest) (T @ R) (int (length T)) =
   normpath_loop rest ((T @ s) @ drop (length s) R) (int (length (T @ s)))"
proof (induction s arbitrary: T R)
  case (Cons a s)
  have nd: "\<not> (a = CHR ''.'' \<and> deref (s @ rest) = CHR ''.'')"
    using Cons.prems by (cases s) auto
  have "1 \<le> length R" using Cons.prems by simp
  then have w: "mem_write (T @ R) (length T) [a] = Some ((T @ [a]) @ drop 1 R)"
    by (simp add: write_at_end)
  have "normpath_loop ((a # s) @ rest) (T @ R) (int (length T)) =
      normpath_loop (s @ rest) ((T @ [a]) @ drop 1 R) (int (length (T @ [a])))"
    unfolding append_Cons normpath_loop.simps
    by (simp only: nd if_False nat_int w option.case) (simp add: algebra_simps)
  also have "\<dots> = normpath_loop rest (((T @ [a]) @ s) @ drop (length s) (drop 1 R)) (int (length ((T @ [a]) @ s)))"
    by (rule Cons.IH) (use Cons.prems in \<open>auto split: if_splits\<close>)
  finally show ?case by simp
qed simp

lemma last_sep_before:
  "\<forall>x\<in>set d. \<not> is_sep x \<Longrightarrow> T = [] \<or> is_sep (last T) \<Longrightarrow>
   last_sep (T @ d @ R) (length T + length d) = int (length T) - 1"
proof (induction d arbitrary: R rule: rev_induct)
  case Nil
  then show ?case by (cases T rule: rev_cases) (auto simp: nth_append)
next
  case (snoc x d)
  then have "last_sep (T @ d @ (x # R)) (length T + length d) = int (length T) - 1" by auto
  then show ?case using snoc.prems by (simp add: nth_append)
qed

lemma ret_at_before: "i < length T \<Longrightarrow> ret_at (T @ R) (int i) = T ! i"
proof -
  assume i: "i < length T"
  then have "drop i (T @ R) = (T ! i) # drop (Suc i) (T @ R)"
    using Cons_nth_drop_Suc [of i "T @ R"] by (simp add: nth_append)
  then show ?thesis by (simp add: ret_at_def del: drop_append)
qed

lemma stack_text_end: "stack_text rooted st = [] \<or> is_sep (last (stack_text rooted st))"
  by (cases st) (simp_all add: stack_text_push, auto simp: stack_text_def root_text_def is_sep_def)

lemma no_dots_last: "no_dots (s @ [a, b]) \<Longrightarrow> \<not> (a = CHR ''.'' \<and> b = CHR ''.'')"
  by (induction s) auto

lemma dots_keep:
  assumes "st = [] \<and> \<not> rooted \<or> st \<noteq> [] \<and> hd st = dots" and "3 \<le> length R"
  shows "normpath_dots c (stack_text rooted st @ R) (int (length (stack_text rooted st))) =
    Some (HACLOG_ERR_OK, (stack_text rooted st @ [CHR ''.'', CHR ''.'', c]) @ drop 3 R,
      int (length (stack_text rooted st @ [CHR ''.'', CHR ''.'', c])))"
proof -
  let ?T = "stack_text rooted st"
  have w: "mem_write (?T @ R) (length ?T) [CHR ''.'', CHR ''.'', c] =
      Some ((?T @ [CHR ''.'', CHR ''.'', c]) @ drop 3 R)"
    using assms(2) write_at_end [of "[CHR ''.'', CHR ''.'', c]" R ?T] by (simp add: eval_nat_numeral)
  show ?thesis
  proof (cases "st = []")
    case True
    with assms(1) have "?T = []" by (simp add: stack_text_def root_text_def)
    with w show ?thesis by (simp add: normpath_dots_def)
  next
    case False
    with assms(1) obtain st' where st: "st = dots # st'" by (cases st) auto
    let ?P = "stack_text rooted st'"
    have T: "?T = ?P @ [CHR ''.'', CHR ''.'', CHR ''/'']" by (simp add: st stack_text_push dots_def)
    then have len: "int (length ?T) = int (length ?P) + 3" by simp
    have "ret_at (?T @ R) (int (length ?P)) = CHR ''.''"
      "ret_at (?T @ R) (int (length ?P + 1)) = CHR ''.''"
      "ret_at (?T @ R) (int (length ?P + 2)) = CHR ''/''"
      by (subst ret_at_before; simp add: T nth_append)+
    then have "int (length ?T) \<ge> 3 \<and> ret_at (?T @ R) (int (length ?T) - 3) = CHR ''.'' \<and>
        ret_at (?T @ R) (int (length ?T) - 2) = CHR ''.'' \<and> is_sep (ret_at (?T @ R) (int (length ?T) - 1))"
      by (simp add: len is_sep_def algebra_simps)
    with w show ?thesis by (simp add: normpath_dots_def)
  qed
qed

lemma dots_pop:
  assumes "plain d"
  shows "normpath_dots c (stack_text rooted (d # st) @ R) (int (length (stack_text rooted (d # st)))) =
    Some (HACLOG_ERR_OK, stack_text rooted st @ (d @ CHR ''/'' # R), int (length (stack_text rooted st)))"
proof -
  let ?T = "stack_text rooted (d # st)" and ?P = "stack_text rooted st"
  have T: "?T = ?P @ d @ ''/''" by (rule stack_text_push)
  have d: "d \<noteq> []" "no_dots d" "\<forall>x\<in>set d. \<not> is_sep x" using assms by (auto simp: plain_def)
  then have len: "int (length ?T) = int (length ?P + length d) + 1" "0 < length d" by (auto simp: T)
  have sep: "ret_at (?T @ R) (int (length ?P + length d)) = CHR ''/''"
    by (subst ret_at_before) (simp_all add: T nth_append)
  have "\<not> (int (length ?T) \<ge> 3 \<and> ret_at (?T @ R) (int (length ?T) - 3) = CHR ''.'' \<and>
      ret_at (?T @ R) (int (length ?T) - 2) = CHR ''.'')"
  proof (cases "length d = 1")
    case True
    then obtain x where x: "d = [x]" by (cases d) auto
    show ?thesis
    proof (cases "?P = []")
      case False
      then have "is_sep (last ?P)" using stack_text_end by blast
      moreover have "ret_at (?T @ R) (int (length ?P - 1)) = last ?P"
        using False by (subst ret_at_before) (simp_all add: T nth_append last_conv_nth)
      moreover have "int (length ?T) - 3 = int (length ?P - 1)"
        using False len(1) True by (cases "length ?P") simp_all
      ultimately show ?thesis by (auto simp: is_sep_def)
    qed (use len(1) True in simp)
  next
    case False
    obtain e' b where e': "d = e' @ [b]" using d(1) by (cases d rule: rev_cases) auto
    moreover from this False obtain e a where "e' = e @ [a]" by (cases e' rule: rev_cases) auto
    ultimately have e: "d = e @ [a, b]" by simp
    then have "\<not> (a = CHR ''.'' \<and> b = CHR ''.'')" using d(2) no_dots_last by blast
    moreover have "ret_at (?T @ R) (int (length ?P + length e)) = a"
      "ret_at (?T @ R) (int (length ?P + length e + 1)) = b"
      by (subst ret_at_before; simp add: stack_text_push e nth_append)+
    moreover have "int (length ?T) - 3 = int (length ?P + length e)"
      "int (length ?T) - 2 = int (length ?P + length e + 1)" by (simp_all add: stack_text_push e)
    ultimately show ?thesis by simp
  qed
  moreover have "last_sep (?T @ R) (length ?P + length d) = int (length ?P) - 1"
    using last_sep_before [of d ?P "CHR ''/'' # R"] d stack_text_end by (simp add: T)
  moreover have "\<not> int (length ?P) + int (length d) < 1" using len(2) by linarith
  ultimately show ?thesis using sep len(1)
    by (simp add: normpath_dots_def is_sep_def T nat_int_add)
qed

section \<open>The loop on all components\<close>

definition path_comp :: "string \<Rightarrow> bool" where
  "path_comp c \<longleftrightarrow> plain c \<or> c = dots"

lemma no_dots_append_slash: "no_dots c \<Longrightarrow> no_dots (c @ ''/'')"
proof (induction c)
  case (Cons a c)
  then show ?case by (cases c) auto
qed simp

lemma loop_slash:
  assumes "path_comp c" and "\<forall>d\<in>set st. path_comp d" and R: "length c + 1 \<le> length R"
    and keep: "c = dots \<Longrightarrow> st = [] \<Longrightarrow> \<not> rooted"
    and st': "st' = (if c \<noteq> dots then c # st else if st = [] \<or> hd st = dots then dots # st else tl st)"
  shows "\<exists>R'. length (stack_text rooted st' @ R') = length (stack_text rooted st @ R) \<and>
    length R \<le> length R' + length c + 1 \<and>
    normpath_loop (c @ CHR ''/'' # rest) (stack_text rooted st @ R) (int (length (stack_text rooted st))) =
    normpath_loop rest (stack_text rooted st' @ R') (int (length (stack_text rooted st')))"
proof (cases "c = dots")
  case False
  let ?T = "stack_text rooted st"
  have c: "no_dots (c @ ''/'')" using False assms(1) by (auto simp: path_comp_def plain_def no_dots_append_slash)
  have "normpath_loop ((c @ ''/'') @ rest) (?T @ R) (int (length ?T)) =
      normpath_loop rest ((?T @ (c @ ''/'')) @ drop (length (c @ ''/'')) R) (int (length (?T @ (c @ ''/''))))"
    by (rule loop_plain) (use c R in auto)
  then show ?thesis using False R st'
    by (intro exI [of _ "drop (length (c @ ''/'')) R"]) (simp add: stack_text_push, arith)
next
  case True
  let ?T = "stack_text rooted st"
  have step: "normpath_loop (c @ CHR ''/'' # rest) (?T @ R) (int (length ?T)) =
      (case normpath_dots CHR ''/'' (?T @ R) (int (length ?T)) of
         None \<Rightarrow> None
       | Some (e, ret, pos) \<Rightarrow>
           if e \<noteq> HACLOG_ERR_OK then Some (e, ret, pos) else normpath_loop rest ret pos)"
    using True by (auto simp: dots_def NUL_def Let_def drop_Cons' split: option.splits)
  show ?thesis
  proof (cases "st = [] \<or> hd st = dots")
    case kept: True
    with keep True have "st = [] \<and> \<not> rooted \<or> st \<noteq> [] \<and> hd st = dots" by auto
    moreover have "3 \<le> length R" using R True by (simp add: dots_def)
    ultimately show ?thesis using step kept True st' dots_keep [of st rooted R "CHR ''/''"]
      by (intro exI [of _ "drop 3 R"]) (simp add: stack_text_push dots_def, arith)
  next
    case popped: False
    then obtain d st1 where st: "st = d # st1" "plain d" using assms(2) by (cases st) (auto simp: path_comp_def)
    with popped True st' have "st' = st1" by simp
    then show ?thesis using step st R dots_pop [of d "CHR ''/''" rooted st1 R]
      by (intro exI [of _ "d @ CHR ''/'' # R"]) (simp add: stack_text_push)
  qed
qed

lemma loop_comps:
  "\<forall>c\<in>set cs. path_comp c \<Longrightarrow> \<forall>d\<in>set st. path_comp d \<Longrightarrow> length (comps_text cs) \<le> length R \<Longrightarrow>
   norm_stack rooted st cs = Some st' \<Longrightarrow>
   \<exists>R'. length (stack_text rooted st' @ R') = length (stack_text rooted st @ R) \<and>
    length R \<le> length R' + length (comps_text cs) \<and> (\<forall>d\<in>set st'. path_comp d) \<and>
    normpath_loop (comps_text cs @ rest) (stack_text rooted st @ R) (int (length (stack_text rooted st))) =
    normpath_loop rest (stack_text rooted st' @ R') (int (length (stack_text rooted st')))"
proof (induction cs arbitrary: st R)
  case Nil
  then show ?case by (intro exI [of _ R]) simp
next
  case (Cons c cs)
  define st1 where "st1 = (if c \<noteq> dots then c # st else if st = [] \<or> hd st = dots then dots # st else tl st)"
  have keep: "c = dots \<Longrightarrow> st = [] \<Longrightarrow> \<not> rooted" using Cons.prems(4) by auto
  have rest: "norm_stack rooted st1 cs = Some st'"
    using Cons.prems(4) by (auto simp: st1_def split: if_splits)
  have st1: "\<forall>d\<in>set st1. path_comp d"
    using Cons.prems(1,2) by (auto simp: st1_def path_comp_def dest: list.set_sel(2))
  have c: "path_comp c" and len: "length c + 1 \<le> length R" using Cons.prems(1,3) by simp_all
  obtain R1 where R1: "length (stack_text rooted st1 @ R1) = length (stack_text rooted st @ R)"
    "length R \<le> length R1 + length c + 1"
    "normpath_loop (c @ CHR ''/'' # comps_text cs @ rest) (stack_text rooted st @ R) (int (length (stack_text rooted st))) =
     normpath_loop (comps_text cs @ rest) (stack_text rooted st1 @ R1) (int (length (stack_text rooted st1)))"
    using loop_slash [OF c Cons.prems(2) len keep st1_def, of "comps_text cs @ rest"] by blast
  have "length (comps_text cs) \<le> length R1" using R1(2) Cons.prems(3) by simp
  moreover have "\<forall>c\<in>set cs. path_comp c" using Cons.prems(1) by simp
  ultimately obtain R2 where R2:
    "length (stack_text rooted st' @ R2) = length (stack_text rooted st1 @ R1)"
    "length R1 \<le> length R2 + length (comps_text cs)" "\<forall>d\<in>set st'. path_comp d"
    "normpath_loop (comps_text cs @ rest) (stack_text rooted st1 @ R1) (int (length (stack_text rooted st1))) =
     normpath_loop rest (stack_text rooted st' @ R2) (int (length (stack_text rooted st')))"
    using Cons.IH [OF _ st1 _ rest] by blast
  have "length R \<le> length R2 + length (comps_text (c # cs))" using R1(2) R2(2) by simp
  with R1(1,3) R2 show ?case by (intro exI [of _ R2]) (simp only: comps_text_simps append_assoc append_Cons)
qed

lemma loop_comps_error:
  "\<forall>c\<in>set cs. path_comp c \<Longrightarrow> \<forall>d\<in>set st. path_comp d \<Longrightarrow> length (comps_text cs) \<le> length R \<Longrightarrow>
   norm_stack rooted st cs = None \<Longrightarrow>
   \<exists>ret pos. normpath_loop (comps_text cs @ rest) (stack_text rooted st @ R)
     (int (length (stack_text rooted st))) = Some (HACLOG_ERR_ARGUMENTS, ret, pos)"
proof (induction cs arbitrary: st R)
  case (Cons c cs)
  show ?case
  proof (cases "c = dots \<and> st = [] \<and> rooted")
    case True
    then show ?thesis
      by (simp add: dots_def stack_text_def root_text_def normpath_dots_def ret_at_def is_sep_def)
  next
    case False
    define st1 where "st1 = (if c \<noteq> dots then c # st else if st = [] \<or> hd st = dots then dots # st else tl st)"
    have keep: "c = dots \<Longrightarrow> st = [] \<Longrightarrow> \<not> rooted" using False by auto
    have rest: "norm_stack rooted st1 cs = None"
      using Cons.prems(4) False by (auto simp: st1_def split: if_splits)
    have st1: "\<forall>d\<in>set st1. path_comp d"
      using Cons.prems(1,2) by (auto simp: st1_def path_comp_def dest: list.set_sel(2))
    have c: "path_comp c" and len: "length c + 1 \<le> length R" using Cons.prems(1,3) by simp_all
    obtain R1 where R1: "length R \<le> length R1 + length c + 1"
      "normpath_loop (c @ CHR ''/'' # comps_text cs @ rest) (stack_text rooted st @ R) (int (length (stack_text rooted st))) =
       normpath_loop (comps_text cs @ rest) (stack_text rooted st1 @ R1) (int (length (stack_text rooted st1)))"
      using loop_slash [OF c Cons.prems(2) len keep st1_def, of "comps_text cs @ rest"] by blast
    have "length (comps_text cs) \<le> length R1" using R1(1) Cons.prems(3) by simp
    moreover have "\<forall>c\<in>set cs. path_comp c" using Cons.prems(1) by simp
    ultimately show ?thesis using Cons.IH [OF _ st1 _ rest] R1(2)
      by (simp only: comps_text_simps append_assoc append_Cons)
  qed
qed simp

section \<open>The last component and the result\<close>

lemma cstr_at_block: "NUL \<notin> set t \<Longrightarrow> cstr_at (t @ NUL # R) 0 = Some t"
  by (simp add: cstr_at_def) (subst takeWhile_append2, auto)

lemma comp_no_NUL: "path_comp c \<Longrightarrow> NUL \<notin> set c"
  by (auto simp: path_comp_def plain_def dots_def NUL_def)

lemma comps_no_NUL: "\<forall>c\<in>set cs. path_comp c \<Longrightarrow> NUL \<notin> set (comps_text cs)"
  by (induction cs) (auto simp: comp_no_NUL)

lemma stack_no_NUL: "\<forall>c\<in>set st. path_comp c \<Longrightarrow> NUL \<notin> set (stack_text rooted st)"
  using comps_no_NUL [of "rev st"] by (auto simp: stack_text_def root_text_def)

definition normpath_end :: "int \<Rightarrow> (haclog_error \<times> block \<times> int) option \<Rightarrow> path_result" where
  "normpath_end sz r =
     (case r of
        None \<Rightarrow> None
      | Some (e, ret, pos) \<Rightarrow>
          if e \<noteq> HACLOG_ERR_OK then Some (e, ret)
          else if pos = 0
          then (if sz \<le> 2 then Some (HACLOG_ERR_ARGUMENTS, ret)
                else map_option (Pair HACLOG_ERR_OK) (mem_write ret 0 [CHR ''.'', CHR ''/'', NUL]))
          else map_option (Pair HACLOG_ERR_OK) (mem_write ret (nat pos) [NUL]))"

lemma normpath_end_OK:
  assumes "NUL \<notin> set t" and "t \<noteq> []" and "R \<noteq> []"
  shows "\<exists>ret'. normpath_end sz (Some (HACLOG_ERR_OK, t @ R, int (length t))) = Some (HACLOG_ERR_OK, ret') \<and>
    cstr_at ret' 0 = Some t"
proof -
  from assms(3) have "1 \<le> length R" by (cases R) auto
  then have "mem_write (t @ R) (length t) [NUL] = Some (t @ NUL # drop 1 R)"
    by (simp add: write_at_end)
  with assms cstr_at_block [OF assms(1), of "drop 1 R"] show ?thesis by (simp add: normpath_end_def)
qed

lemma normpath_last:
  assumes c: "path_comp c" and st: "\<forall>d\<in>set st. path_comp d" and room: "length c + 2 \<le> length R" and sz: "2 < sz"
    and ref: "ref = (if c \<noteq> dots \<or> (if st = [] then \<not> rooted else hd st = dots) then Some (stack_text rooted st @ c)
      else if st = [] then None
      else (let t = stack_text rooted (tl st) in Some (if t = [] then ''./'' else t)))"
  shows "\<exists>ret'. case ref of
      None \<Rightarrow> normpath_end sz (normpath_loop c (stack_text rooted st @ R) (int (length (stack_text rooted st)))) =
        Some (HACLOG_ERR_ARGUMENTS, ret')
    | Some t \<Rightarrow> normpath_end sz (normpath_loop c (stack_text rooted st @ R) (int (length (stack_text rooted st)))) =
        Some (HACLOG_ERR_OK, ret') \<and> cstr_at ret' 0 = Some t"
proof (cases "c = dots")
  case False
  let ?T = "stack_text rooted st"
  have "no_dots c" "c \<noteq> []" using False c by (auto simp: path_comp_def plain_def)
  then have "normpath_loop (c @ []) (?T @ R) (int (length ?T)) =
      normpath_loop [] ((?T @ c) @ drop (length c) R) (int (length (?T @ c)))"
    by (intro loop_plain) (use room in auto)
  moreover have "NUL \<notin> set (?T @ c)" using stack_no_NUL [OF st] comp_no_NUL [OF c] by auto
  moreover have "drop (length c) R \<noteq> []" using room by auto
  ultimately show ?thesis using False ref \<open>c \<noteq> []\<close> normpath_end_OK [of "?T @ c" "drop (length c) R" sz]
    by simp
next
  case True
  let ?T = "stack_text rooted st"
  have step: "normpath_loop c (?T @ R) (int (length ?T)) = normpath_dots NUL (?T @ R) (int (length ?T))"
    using True by (auto simp: dots_def Let_def numeral_2_eq_2 split: option.splits)
  have R: "3 \<le> length R" using room True by (simp add: dots_def)
  show ?thesis
  proof (cases "if st = [] then \<not> rooted else hd st = dots")
    case kept: True
    then have "st = [] \<and> \<not> rooted \<or> st \<noteq> [] \<and> hd st = dots" by (auto split: if_splits)
    from dots_keep [OF this R, of NUL] step
    have loop: "normpath_loop c (?T @ R) (int (length ?T)) =
        Some (HACLOG_ERR_OK, ?T @ dots @ NUL # drop 3 R, int (length ?T) + 3)"
      by (simp add: dots_def)
    have "4 \<le> length R" using room True by (simp add: dots_def)
    then have "mem_write ((?T @ dots @ [NUL]) @ drop 3 R) (length (?T @ dots @ [NUL])) [NUL] =
        Some (((?T @ dots @ [NUL]) @ [NUL]) @ drop 1 (drop 3 R))"
      by (subst write_at_end) simp_all
    moreover have "length (?T @ dots @ [NUL]) = 3 + length ?T" by (simp add: dots_def)
    ultimately have w: "mem_write (?T @ dots @ NUL # drop 3 R) (3 + length ?T) [NUL] =
        Some (?T @ dots @ NUL # NUL # drop 1 (drop 3 R))" by (simp only: append_assoc append_Cons append_Nil)
    have "NUL \<notin> set (?T @ dots)" using stack_no_NUL [OF st] c True by (auto simp: comp_no_NUL)
    then have "cstr_at ((?T @ dots) @ NUL # (NUL # drop 1 (drop 3 R))) 0 = Some (?T @ dots)"
      by (rule cstr_at_block)
    moreover have "nat (int (length ?T) + 3) = 3 + length ?T" by simp
    ultimately have "normpath_end sz (Some (HACLOG_ERR_OK, ?T @ dots @ NUL # drop 3 R, int (length ?T) + 3)) =
        Some (HACLOG_ERR_OK, ?T @ dots @ NUL # NUL # drop 1 (drop 3 R)) \<and>
        cstr_at (?T @ dots @ NUL # NUL # drop 1 (drop 3 R)) 0 = Some (?T @ dots)"
      by (simp add: normpath_end_def w)
    moreover have "ref = Some (?T @ c)" unfolding ref by (rule if_P) (rule disjI2, rule kept)
    ultimately show ?thesis unfolding loop using True by auto
  next
    case popped: False
    show ?thesis
    proof (cases st)
      case Nil
      with popped have "rooted" by simp
      then show ?thesis using Nil True ref step
        by (simp add: stack_text_def root_text_def normpath_dots_def ret_at_def is_sep_def normpath_end_def)
    next
      case (Cons d st1)
      with popped st have d: "plain d" by (auto simp: path_comp_def)
      let ?P = "stack_text rooted st1"
      have "\<forall>d\<in>set st1. path_comp d" using st Cons by simp
      then have nul: "NUL \<notin> set ?P" by (rule stack_no_NUL)
      have loop: "normpath_loop c (?T @ R) (int (length ?T)) =
          Some (HACLOG_ERR_OK, ?P @ (d @ CHR ''/'' # R), int (length ?P))"
        using step dots_pop [OF d, of NUL rooted st1 R] Cons by simp
      show ?thesis
      proof (cases "?P = []")
        case False
        with normpath_end_OK [OF nul, of "d @ CHR ''/'' # R" sz] loop Cons True popped ref show ?thesis
          by simp
      next
        case empty: True
        let ?B = "d @ CHR ''/'' # R"
        have "3 \<le> length ?B" using R by simp
        then have "mem_write ?B 0 [CHR ''.'', CHR ''/'', NUL] = Some (''./'' @ NUL # drop 3 ?B)"
          by (simp add: mem_write_def eval_nat_numeral)
        moreover have "cstr_at (''./'' @ NUL # drop 3 ?B) 0 = Some ''./''"
          by (rule cstr_at_block) (simp add: NUL_def)
        ultimately show ?thesis using loop Cons True popped ref empty sz
          by (simp add: normpath_end_def)
      qed
    qed
  qed
qed

section \<open>Properties of normpath\<close>

lemma no_dot_prefix:
  assumes "path_comp h" and "h \<noteq> ''.''" and "rest = [] \<or> deref rest = CHR ''/''" and "is_sep x"
  shows "\<not> haclog_str_startswith (Some (h @ rest)) (Some [CHR ''.'', x])"
proof -
  have "h \<noteq> []" using assms(1) by (auto simp: path_comp_def plain_def dots_def)
  then obtain a t where h: "h = a # t" by (cases h) auto
  show ?thesis
  proof (cases t)
    case Nil
    then show ?thesis using h assms(2) by (simp add: haclog_str_startswith_def)
  next
    case (Cons b u)
    then have "b \<noteq> x" using assms(1,4) h
      by (auto simp: path_comp_def plain_def dots_def is_sep_def)
    then show ?thesis using h Cons by (simp add: haclog_str_startswith_def)
  qed
qed

lemma normpath_unfold:
  assumes len: "int (length path) < sz" and sz: "sz < 2147483648"
    and skip: "haclog_path_isabs path \<or> (\<forall>x. is_sep x \<longrightarrow> \<not> haclog_str_startswith (Some path) (Some [CHR ''.'', x]))"
  shows "haclog_path_normpath path ret sz = normpath_end sz (normpath_loop path ret 0)"
proof -
  have "c_u32 (c_int (int (length path))) = int (length path)" using len sz by (simp add: c_arith)
  moreover have "is_sep CHR ''/''" "is_sep CHR 0x5C" by (simp_all add: is_sep_def)
  ultimately show ?thesis using len skip
    by (auto simp: haclog_path_normpath_def normpath_end_def Let_def)
qed



lemma norm_stack_dots: "norm_stack False (replicate m dots) (replicate k dots) = Some (replicate (m + k) dots)"
proof (induction k arbitrary: m)
  case (Suc k)
  have "norm_stack False (replicate m dots) (replicate (Suc k) dots) =
      norm_stack False (replicate (Suc m) dots) (replicate k dots)"
    by (cases m) simp_all
  also have "\<dots> = Some (replicate (Suc m + k) dots)" by (rule Suc)
  finally show ?case by simp
qed simp

text \<open>
  C30: the buffer overflow of normalization. For a path of \<open>..\<close> components only and a buffer of just the
  size the path and its NUL need, which the function accepts, \<open>haclog_path_normpath\<close> writes one
  byte past the buffer: the last \<open>..\<close> copies the NUL behind it as a third character, and the final
  \<open>ret[pos] = '\0'\<close> is one further.
\<close>

theorem normpath_overflow:
  assumes path: "path = comps_text (replicate k dots) @ dots"
    and size: "sz = int (length path) + 1" "int (length ret) = sz" "sz < 2147483648"
  shows "haclog_path_normpath path ret sz = None"
proof -
  have comp: "path_comp dots" by (simp add: path_comp_def)
  have "path = comps_text (replicate k dots) @ dots \<and> (\<exists>rest. path = dots @ rest \<and> (rest = [] \<or> deref rest = CHR ''/''))"
    using path by (cases k) auto
  then obtain rest where "path = dots @ rest" "rest = [] \<or> deref rest = CHR ''/''" by blast
  with comp have "\<forall>x. is_sep x \<longrightarrow> \<not> haclog_str_startswith (Some path) (Some [CHR ''.'', x])"
    using no_dot_prefix [of dots rest] by (simp add: dots_def)
  with normpath_unfold [of path sz ret] size
  have unfold: "haclog_path_normpath path ret sz = normpath_end sz (normpath_loop path ret 0)" by simp
  have room: "length (comps_text (replicate k dots)) \<le> length ret" using path size by simp
  from loop_comps [of "replicate k dots" "[]" ret False "replicate k dots" dots, OF _ _ room] comp
    norm_stack_dots [of 0 k]
  obtain R where R: "length (stack_text False (replicate k dots) @ R) = length ret"
    "normpath_loop path ret 0 = normpath_loop dots (stack_text False (replicate k dots) @ R)
      (int (length (stack_text False (replicate k dots))))"
    by (auto simp: path stack_text_def root_text_def)
  let ?T = "stack_text False (replicate k dots)"
  have T: "?T = comps_text (replicate k dots)" by (simp add: stack_text_def root_text_def)
  have len: "length R = 3" using R(1) size path unfolding T by (simp add: dots_def)
  have "normpath_loop path ret 0 = normpath_dots NUL (?T @ R) (int (length ?T))"
    using R(2) by (auto simp: dots_def Let_def numeral_2_eq_2 split: option.splits)
  also have "\<dots> = Some (HACLOG_ERR_OK, ?T @ [CHR ''.'', CHR ''.'', NUL],
      int (length (?T @ [CHR ''.'', CHR ''.'', NUL])))"
    using dots_keep [of "replicate k dots" False R NUL] len by (cases k) simp_all
  finally show ?thesis using unfold by (simp add: normpath_end_def mem_write_def)
qed

lemma normpath_overflow_witness: "haclog_path_normpath ''../..'' (replicate 6 NUL) 6 = None"
  by (rule normpath_overflow [of _ 1]) (simp_all add: dots_def)

section \<open>Basename, dirname and join\<close>

lemma last_sep_found:
  "is_sep s \<Longrightarrow> \<forall>x\<in>set b. \<not> is_sep x \<Longrightarrow> last_sep (d @ s # b) (length (d @ s # b)) = int (length d)"
  using last_sep_before [of b "d @ [s]" "[]"] by simp

lemma last_sep_none: "\<forall>x\<in>set p. \<not> is_sep x \<Longrightarrow> last_sep p (length p) = - 1"
  using last_sep_before [of p "[]" "[]"] by simp

lemma copy_string:
  assumes "NUL \<notin> set t" and "length t < length ret"
  shows "\<exists>ret'. mem_write ret 0 (t @ [NUL]) = Some ret' \<and> cstr_at ret' 0 = Some t"
  using assms cstr_at_block [OF assms(1), of "drop (Suc (length t)) ret"] by (simp add: mem_write_def)

lemma dirname_text:
  assumes path: "path = d @ s # b" "NUL \<notin> set path" and s: "is_sep s" and b: "\<forall>x\<in>set b. \<not> is_sep x"
    and d: "d \<noteq> []" "\<not> (2 \<le> length d \<and> last d = CHR '':'')"
    and room: "int (length path) < sz" "sz \<le> int (length ret)" "sz < 2147483648"
  shows "\<exists>dir. haclog_path_dirname path ret sz = Some (HACLOG_ERR_OK, dir) \<and> cstr_at dir 0 = Some d"
proof -
  have len: "c_int (int (length path)) = int (length path)" "c_int sz = sz"
    using room by (simp_all add: c_arith)
  have pos: "last_sep path (length path) = int (length d)"
    using last_sep_found [OF s b] by (simp add: path)
  have drive: "\<not> (int (length d) - 1 > 0 \<and> path ! nat (int (length d) - 1) = CHR '':'')"
    using d by (cases d rule: rev_cases) (auto simp: path nth_append Suc_le_eq)
  have "length d < length ret" using room path by auto
  then obtain dir where dir: "mem_write ret 0 (d @ [NUL]) = Some dir" "cstr_at dir 0 = Some d"
    using copy_string [of d ret] path by auto
  have d0: "int (length d) \<noteq> 0" "1 < sz" using d room path by auto
  have "haclog_path_dirname path ret sz = Some (HACLOG_ERR_OK, dir)"
    unfolding haclog_path_dirname_def Let_def len nat_int pos if_not_P [OF d0(1)] if_not_P [OF drive]
    using room dir d0(2) by (simp add: path)
  with dir show ?thesis by blast
qed

lemma dirname_root:
  assumes path: "path = CHR ''/'' # b" and b: "\<forall>x\<in>set b. \<not> is_sep x"
    and room: "2 \<le> sz" "int (length path) < sz" "sz \<le> int (length ret)" "sz < 2147483648"
  shows "\<exists>dir. haclog_path_dirname path ret sz = Some (HACLOG_ERR_OK, dir) \<and> cstr_at dir 0 = Some ''/''"
proof -
  have len: "c_int (int (length path)) = int (length path)" "c_int sz = sz"
    using room by (simp_all add: c_arith)
  have pos: "last_sep path (length path) = 0"
    using last_sep_found [of "CHR ''/''" b "[]"] b by (simp add: path is_sep_def)
  have "length ''/'' < length ret" using room by auto
  then obtain dir where dir: "mem_write ret 0 (''/'' @ [NUL]) = Some dir" "cstr_at dir 0 = Some ''/''"
    using copy_string [of "''/''" ret] by auto
  have "haclog_path_dirname path ret sz = Some (HACLOG_ERR_OK, dir)"
    unfolding haclog_path_dirname_def Let_def len nat_int pos
    using room dir by (simp add: path)
  with dir show ?thesis by blast
qed

lemma basename_text:
  assumes path: "path = d @ s # b" "NUL \<notin> set path" and s: "is_sep s" and b: "b \<noteq> []" "\<forall>x\<in>set b. \<not> is_sep x"
    and room: "length path < 2147483648" "int (length b) < sz" "sz \<le> int (length ret)"
  shows "\<exists>base. haclog_path_basename path ret sz = Some (HACLOG_ERR_OK, base) \<and> cstr_at base 0 = Some b"
proof -
  have len: "c_int (int (length path)) = int (length path)" using room by (simp add: c_arith)
  have pos: "last_sep path (length path) = int (length d)"
    using last_sep_found [OF s b(2)] by (simp add: path)
  have "length b < length ret" using room by auto
  then obtain base where base: "mem_write ret 0 (b @ [NUL]) = Some base" "cstr_at base 0 = Some b"
    using copy_string [of b ret] path by auto
  have "1 < sz" using b(1) room(2) by (cases b) auto
  then have "haclog_path_basename path ret sz = Some (HACLOG_ERR_OK, base)"
    unfolding haclog_path_basename_def Let_def len nat_int pos
    using room base b by (simp add: path nat_add_distrib)
  with base show ?thesis by blast
qed

text \<open>
  C28: a path with a last separator \<open>s\<close>, a name \<open>d\<close> before it that is not a drive, and a name \<open>b\<close>
  behind it is split at that separator: \<open>haclog_path_dirname\<close> returns \<open>d\<close> and \<open>haclog_path_basename\<close>
  returns \<open>b\<close>, into buffers that have room for the path.
\<close>

theorem dirname_basename:
  assumes path: "path = d @ s # b" "NUL \<notin> set path" and s: "is_sep s"
    and b: "b \<noteq> []" "\<forall>x\<in>set b. \<not> is_sep x" and d: "d \<noteq> []" "\<not> (2 \<le> length d \<and> last d = CHR '':'')"
    and room: "int (length path) < sz" "sz \<le> int (length ret)" "sz < 2147483648"
  shows "\<exists>dir base. haclog_path_dirname path ret sz = Some (HACLOG_ERR_OK, dir) \<and> cstr_at dir 0 = Some d \<and>
    haclog_path_basename path ret sz = Some (HACLOG_ERR_OK, base) \<and> cstr_at base 0 = Some b"
proof -
  have "length path < 2147483648" "int (length b) < sz" using room path by auto
  then show ?thesis using dirname_text [OF path s b(2) d room] basename_text [OF path s b _ _ room(2)] by blast
qed

lemma dirname_basename_witness:
  "\<exists>dir base. haclog_path_dirname ''logs/app.log'' (replicate 16 NUL) 16 = Some (HACLOG_ERR_OK, dir) \<and>
    cstr_at dir 0 = Some ''logs'' \<and>
    haclog_path_basename ''logs/app.log'' (replicate 16 NUL) 16 = Some (HACLOG_ERR_OK, base) \<and>
    cstr_at base 0 = Some ''app.log''"
  by (rule dirname_basename) (auto simp: is_sep_def NUL_def)

text \<open>
  C31: the basename of a name without separators whose length is one less than the buffer's size,
  which the function accepts, has no terminating NUL: what the caller reads runs on into whatever the last
  byte of the buffer held, and past the buffer when that is not NUL.
\<close>

theorem basename_unterminated:
  assumes "\<forall>x\<in>set path. \<not> is_sep x" and "path \<noteq> []" and "NUL \<notin> set path"
    and "sz = int (length path) + 1" and "ret = pre @ [z]" "int (length ret) = sz" and "sz < 2147483648"
  shows "haclog_path_basename path ret sz = Some (HACLOG_ERR_OK, path @ [z]) \<and>
    (z \<noteq> NUL \<longrightarrow> cstr_at (path @ [z]) 0 = None)"
proof -
  have "c_int (int (length path)) = int (length path)" using assms by (simp add: c_arith)
  moreover have "c_strncpy ret 0 path (length path) = Some (path @ [z])"
    using assms by (simp add: c_strncpy_def mem_write_def)
  ultimately show ?thesis using assms last_sep_none [OF assms(1)]
    by (auto simp: haclog_path_basename_def cstr_at_def)
qed

lemma basename_unterminated_witness:
  "haclog_path_basename ''abc'' ''....'' 4 = Some (HACLOG_ERR_OK, ''abc.'') \<and> cstr_at ''abc.'' 0 = None"
  using basename_unterminated [of "''abc''" 4 "''....''" "''...''" "CHR ''.''"] by (simp add: is_sep_def NUL_def)

definition ends_with_sep :: "string \<Rightarrow> bool" where
  "ends_with_sep p \<longleftrightarrow> p \<noteq> [] \<and> is_sep (last p)"

definition join_text :: "string \<Rightarrow> string \<Rightarrow> string" where
  "join_text p q =
     (if ends_with_sep p then p else p @ ''/'') @ (if deref q = CHR ''/'' then tl q else q)"

lemma endswith_char: "haclog_str_endswith (Some p) (Some [x]) \<longleftrightarrow> p \<noteq> [] \<and> last p = x"
  by (cases p rule: rev_cases) (auto simp: haclog_str_endswith_def)

lemma cstr_at_strncpy:
  assumes "NUL \<notin> set p" and "length p < n" and "n \<le> length ret"
  shows "\<exists>R. c_strncpy ret 0 p n = Some (p @ NUL # R) \<and> length (p @ NUL # R) = length ret"
proof -
  have "n - length p = Suc (n - length p - 1)" using assms(2) by simp
  then have "replicate (n - length p) NUL = NUL # replicate (n - length p - 1) NUL"
    by (metis replicate_Suc)
  then have "c_strncpy ret 0 p n = Some (p @ NUL # replicate (n - length p - 1) NUL @ drop n ret)"
    using assms by (simp add: c_strncpy_def mem_write_def)
  then show ?thesis using assms by (intro exI [of _ "replicate (n - length p - 1) NUL @ drop n ret"]) auto
qed

lemma strncpy_at:
  assumes "length q \<le> length R"
  shows "c_strncpy (t @ R) (length t) q (length q) = Some (t @ q @ drop (length q) R)"
  using write_at_end [OF assms, of t] by (simp add: c_strncpy_def)

text \<open>
  Joining two non-empty paths whose first leaves at least two bytes of the buffer free.
  \<open>haclog_path_join\<close> fails with \<open>HACLOG_ERR_ARGUMENTS\<close> when the second path is a lone slash or the
  result and its NUL do not fit; otherwise the buffer holds the two paths with exactly one
  separator put between them when the first has none, a leading slash of the second dropped.
\<close>

theorem join_result:
  assumes p: "p \<noteq> []" "NUL \<notin> set p" and q: "q \<noteq> []" "NUL \<notin> set q"
    and room: "int (length p) + 1 < sz" "sz \<le> int (length ret)" "sz < 2147483648" "int (length q) < 2147483648"
  shows "\<exists>ret'. if q = ''/'' \<or> int (length (join_text p q)) \<ge> sz
    then haclog_path_join p q ret sz = Some (HACLOG_ERR_ARGUMENTS, ret')
    else haclog_path_join p q ret sz = Some (HACLOG_ERR_OK, ret') \<and> cstr_at ret' 0 = Some (join_text p q)"
proof -
  let ?slash = "\<not> ends_with_sep p"
  let ?p = "if ?slash then p @ ''/'' else p" and ?q = "if deref q = CHR ''/'' then tl q else q"
  have arith: "c_u32 (sz - 1) = sz - 1" "c_int (int (length p)) = int (length p)"
    "c_int (int (length q)) = int (length q)" using room by (simp_all add: c_arith)
  have q0: "deref q \<noteq> NUL" using q by (cases q) auto
  have "length p < nat (sz - 1)" "nat (sz - 1) \<le> length ret" using room by linarith+
  from cstr_at_strncpy [OF p(2) this] obtain R where
    R: "c_strncpy ret 0 p (nat (sz - 1)) = Some (p @ NUL # R)" "length (p @ NUL # R) = length ret"
    by blast
  have str: "cstr_at (p @ NUL # R) 0 = Some p" by (rule cstr_at_block [OF p(2)])
  have ends: "(\<not> haclog_str_endswith (Some p) (Some ''/'') \<and> \<not> haclog_str_endswith (Some p) (Some [CHR 0x5C])) = ?slash"
    using p(1) by (auto simp: endswith_char ends_with_sep_def is_sep_def)
  define R1 where "R1 = (if ?slash then R else NUL # R)"
  have "mem_write (p @ NUL # R) (length p) ''/'' = Some (p @ CHR ''/'' # R)" by (simp add: mem_write_def)
  then have R1: "(if ?slash then mem_write (p @ NUL # R) (length p) ''/'' else Some (p @ NUL # R)) = Some (?p @ R1)"
    "length (?p @ R1) = length ret"
    using R(2) by (simp_all add: R1_def)
  have step: "haclog_path_join p q ret sz =
    (let pos = int (length ?p); len2' = int (length ?q)
     in if deref q = CHR ''/'' \<and> length q = 1 then Some (HACLOG_ERR_ARGUMENTS, ?p @ R1)
        else if c_u32 (pos + len2') > sz - 1 then Some (HACLOG_ERR_ARGUMENTS, ?p @ R1)
        else
          (case c_strncpy (?p @ R1) (nat pos) ?q (nat len2') of
             None \<Rightarrow> None
           | Some ret \<Rightarrow> map_option (Pair HACLOG_ERR_OK) (mem_write ret (nat (pos + len2')) [NUL])))"
  proof -
    have guards: "\<not> sz - 1 \<le> 0" "\<not> (int (length p) \<le> 0 \<or> int (length q) \<le> 0)"
      "\<not> int (length p) > sz - 1" "\<not> (?slash \<and> int (length p) \<ge> sz)"
      using room p(1) q(1) by auto
    have lens: "(if ?slash then int (length p) + 1 else int (length p)) = int (length ?p)"
      "(if deref q = CHR ''/'' then int (length q) - 1 else int (length q)) = int (length ?q)"
      "(if deref q = CHR ''/'' then drop 1 q else q) = ?q" "(int (length q) = 1) = (length q = 1)"
      using q(1) by (simp_all add: of_nat_diff Suc_le_eq drop_Suc)
    show ?thesis
      unfolding haclog_path_join_def arith Let_def
      by (simp only: guards if_False R(1) option.case q0 str ends nat_int R1(1) lens)
  qed
  have len: "int (length ?p) + int (length ?q) = int (length (join_text p q))"
    by (simp add: join_text_def)
  have lens: "int (length (join_text p q)) < 4294967296"
    using room by (simp add: join_text_def) linarith
  have q1: "q = ''/'' \<longleftrightarrow> deref q = CHR ''/'' \<and> length q = 1" by (cases q) auto
  show ?thesis
  proof (cases "q = ''/'' \<or> int (length (join_text p q)) \<ge> sz")
    case True
    then show ?thesis using step q1 lens by (auto simp: Let_def len c_arith)
  next
    case False
    then have fits: "length ?p + length ?q < length (?p @ R1)"
      using R1(2) room(2) len by linarith
    then have qR: "length ?q \<le> length R1" by simp
    have copy: "c_strncpy (?p @ R1) (length ?p) ?q (length ?q) = Some (?p @ ?q @ drop (length ?q) R1)"
      by (rule strncpy_at [OF qR])
    have fin: "mem_write ((?p @ ?q) @ drop (length ?q) R1) (length (?p @ ?q)) [NUL] =
        Some ((?p @ ?q) @ NUL # drop 1 (drop (length ?q) R1))"
      using fits by (subst write_at_end) simp_all
    have "NUL \<notin> set (?p @ ?q)" using p(2) q(2) by (cases q) auto
    then have "cstr_at ((?p @ ?q) @ NUL # drop 1 (drop (length ?q) R1)) 0 = Some (join_text p q)"
      by (rule trans [OF cstr_at_block]) (simp add: join_text_def)
    moreover have "haclog_path_join p q ret sz =
        Some (HACLOG_ERR_OK, (?p @ ?q) @ NUL # drop 1 (drop (length ?q) R1))"
    proof -
      have "\<not> (deref q = CHR ''/'' \<and> length q = 1)" using False q1 by blast
      moreover have "\<not> c_u32 (int (length ?p) + int (length ?q)) > sz - 1"
        using False lens unfolding len by (simp add: c_arith)
      moreover have "nat (int (length ?p) + int (length ?q)) = length (?p @ ?q)" by simp
      ultimately show ?thesis unfolding step Let_def nat_int
        using copy fin by (simp only: if_False option.case append_assoc option.map)
    qed
    ultimately show ?thesis using False by (intro exI) auto
  qed
qed

lemma join_result_witness:
  "\<exists>ret'. haclog_path_join ''/var/log'' ''app.log'' (replicate 24 NUL) 24 = Some (HACLOG_ERR_OK, ret') \<and>
    cstr_at ret' 0 = Some ''/var/log/app.log''"
  using join_result [of "''/var/log''" "''app.log''" 24 "replicate 24 NUL"]
  by (simp add: join_text_def ends_with_sep_def is_sep_def NUL_def)

section \<open>Absolute paths\<close>

lemma curdir_string:
  assumes "w_fault w (w_calls w) = None" and "w_cwd w = Some d" and "NUL \<notin> set d"
    and "int (length d) + 1 \<le> sz" and "sz \<le> int (length buf)"
  shows "\<exists>buf'. haclog_os_curdir buf sz w = Some (HACLOG_ERR_OK, buf', snd (next_call w)) \<and>
    cstr_at buf' 0 = Some d"
  using assms copy_string [of d buf]
  by (auto simp: haclog_os_curdir_def posix_getcwd_def next_call_def)

lemma path_head:
  assumes "\<forall>x\<in>set (ds @ [e]). path_comp x"
  shows "\<exists>a t. comps_text ds @ e = a # t \<and> \<not> is_sep a"
proof -
  have head: "path_comp h \<Longrightarrow> \<exists>a t. h = a # t \<and> \<not> is_sep a" for h
    by (cases h) (auto simp: path_comp_def plain_def dots_def is_sep_def)
  show ?thesis
  proof (cases ds)
    case Nil
    with assms head [of e] show ?thesis by simp
  next
    case (Cons h ds')
    with assms head [of h] show ?thesis by auto
  qed
qed


definition demo_world :: world where
  "demo_world = \<lparr>w_files = Map.empty, w_dirs = {''/srv''}, w_cwd = Some ''/srv'', w_stdout = [], w_stderr = [],
     w_calls = 0, w_fault = (\<lambda>n. None)\<rparr>"


end
