(* ===== verification/Haclog_Handler.thy ===== *)
theory Haclog_Handler
  imports Haclog_Path Haclog_Printf_Spec
begin

text \<open>
  \<open>haclog_handler.c\<close> and \<open>haclog_handler.h\<close>: log levels, the operations a handler is made of, and
  \<open>haclog_handler_write\<close>, which writes one line through them. A handler's operations work on its own
  state \<open>'h\<close> (the fields behind the embedded \<open>haclog_handler_t\<close>) and on the system; \<open>None\<close> is undefined
  behaviour. What a line costs is proved once, for any operations that keep the contract \<open>line_sink\<close>.
\<close>

section \<open>Levels\<close>

definition HACLOG_LEVEL_OFFSET :: nat where "HACLOG_LEVEL_OFFSET = 8"
definition HACLOG_LEVEL_TRACE :: int where "HACLOG_LEVEL_TRACE = 0"
definition HACLOG_LEVEL_DEBUG :: int where "HACLOG_LEVEL_DEBUG = push_bit HACLOG_LEVEL_OFFSET 1"
definition HACLOG_LEVEL_INFO :: int where "HACLOG_LEVEL_INFO = push_bit HACLOG_LEVEL_OFFSET 2"
definition HACLOG_LEVEL_WARNING :: int where "HACLOG_LEVEL_WARNING = push_bit HACLOG_LEVEL_OFFSET 3"
definition HACLOG_LEVEL_ERROR :: int where "HACLOG_LEVEL_ERROR = push_bit HACLOG_LEVEL_OFFSET 4"
definition HACLOG_LEVEL_FATAL :: int where "HACLOG_LEVEL_FATAL = push_bit HACLOG_LEVEL_OFFSET 5"
definition HACLOG_LEVEL_MAX :: int where "HACLOG_LEVEL_MAX = 6"

lemmas level_defs = HACLOG_LEVEL_OFFSET_def HACLOG_LEVEL_TRACE_def HACLOG_LEVEL_DEBUG_def
  HACLOG_LEVEL_INFO_def HACLOG_LEVEL_WARNING_def HACLOG_LEVEL_ERROR_def HACLOG_LEVEL_FATAL_def
  HACLOG_LEVEL_MAX_def

definition haclog_level_to_str :: "int \<Rightarrow> string" where
  "haclog_level_to_str log_level =
     (let level = drop_bit HACLOG_LEVEL_OFFSET log_level
      in if level \<ge> 0 \<and> level < HACLOG_LEVEL_MAX
         then [''TRACE'', ''DEBUG'', ''INFO'', ''WARNING'', ''ERROR'', ''FATAL''] ! nat level
         else ''UNKNOWN'')"

section \<open>Handlers\<close>

text \<open>What the backend knows of a statement: \<open>haclog_meta_info_t\<close>.\<close>

record meta_info =
  mi_loc :: printf_loc
  mi_tid :: int
  mi_ts :: "int \<times> int"

text \<open>Broken-down time, and the clock and time zone the C library computes it with.\<close>

record tm =
  tm_sec :: int
  tm_min :: int
  tm_hour :: int
  tm_mday :: int
  tm_mon :: int
  tm_year :: int

type_synonym 'h act = "'h \<Rightarrow> world \<Rightarrow> (int \<times> 'h \<times> world) option"
type_synonym 'h writev = "string \<Rightarrow> carg list \<Rightarrow> 'h act"

text \<open>
  \<open>haclog_handler_t\<close>. \<open>write_meta\<close> calls the handler's \<open>writev\<close> through the handler, so it is given the
  \<open>writev\<close> of the handler it is called on.
\<close>

record 'h haclog_handler =
  hd_before_write :: "meta_info \<Rightarrow> 'h act"
  hd_write_meta :: "'h writev \<Rightarrow> meta_info \<Rightarrow> 'h act"
  hd_write :: "string \<Rightarrow> int \<Rightarrow> 'h act"
  hd_writev :: "'h writev"
  hd_after_write :: "meta_info \<Rightarrow> 'h act"
  hd_destroy :: "'h \<Rightarrow> world \<Rightarrow> 'h \<times> world"
  hd_level :: int

definition haclog_handler_set_level :: "'h haclog_handler \<Rightarrow> int \<Rightarrow> 'h haclog_handler" where
  "haclog_handler_set_level handler level = handler\<lparr>hd_level := level\<rparr>"

definition haclog_handler_get_level :: "'h haclog_handler \<Rightarrow> int" where
  "haclog_handler_get_level handler = hd_level handler"

definition haclog_handler_should_write :: "'h haclog_handler \<Rightarrow> int \<Rightarrow> int" where
  "haclog_handler_should_write handler level = (if level < hd_level handler then 0 else 1)"

definition haclog_handler_set_fn_write_meta ::
  "'h haclog_handler \<Rightarrow> ('h writev \<Rightarrow> meta_info \<Rightarrow> 'h act) \<Rightarrow> 'h haclog_handler" where
  "haclog_handler_set_fn_write_meta handler fn = handler\<lparr>hd_write_meta := fn\<rparr>"

definition haclog_handler_write ::
  "'h haclog_handler \<Rightarrow> meta_info \<Rightarrow> string \<Rightarrow> int \<Rightarrow> 'h act" where
  "haclog_handler_write handler meta msg msglen st w =
     (case hd_before_write handler meta st w of
        None \<Rightarrow> None
      | Some (_, st, w) \<Rightarrow>
          (case hd_write_meta handler (hd_writev handler) meta st w of
             None \<Rightarrow> None
           | Some (n, st, w) \<Rightarrow>
               (let total_bytes = (if n > 0 then n else 0)
                in case (if msglen > 0 then hd_write handler msg msglen st w else Some (0, st, w)) of
                     None \<Rightarrow> None
                   | Some (n, st, w) \<Rightarrow>
                       (let total_bytes = (if msglen > 0 \<and> n > 0 then c_int (total_bytes + n) else total_bytes)
                        in case hd_after_write handler meta st w of
                             None \<Rightarrow> None
                           | Some (_, st, w) \<Rightarrow> Some (total_bytes, st, w)))))"

text \<open>
  The default meta line. \<open>gm\<close> is \<open>gmtime_r\<close> on the seconds; \<open>filename\<close> is what the uninitialised array of
  256 bytes holds, which the code prints when \<open>haclog_path_basename\<close> fails.
\<close>

definition meta_format :: string where
  "meta_format = ''%s|%d-%02d-%02dT%02d:%02d:%02d.%09d|%s:%u|%s|%llu - ''"

definition meta_args :: "(int \<Rightarrow> tm) \<Rightarrow> string \<Rightarrow> meta_info \<Rightarrow> carg list" where
  "meta_args gm filename meta =
     (let t = gm (fst (mi_ts meta))
      in [C_str (haclog_level_to_str (loc_level (mi_loc meta))),
          C_int (tm_year t + 1900), C_int (tm_mon t + 1), C_int (tm_mday t),
          C_int (tm_hour t), C_int (tm_min t), C_int (tm_sec t), C_int (c_int (snd (mi_ts meta))),
          C_str filename, C_int (c_u32 (loc_line (mi_loc meta))), C_str (loc_func (mi_loc meta)),
          C_long (c_u64 (mi_tid meta))])"

definition haclog_handler_default_write_meta ::
  "(int \<Rightarrow> tm) \<Rightarrow> block \<Rightarrow> 'h writev \<Rightarrow> meta_info \<Rightarrow> 'h act" where
  "haclog_handler_default_write_meta gm filename writev meta st w =
     (case haclog_path_basename (loc_file (mi_loc meta)) filename 256 of
        None \<Rightarrow> None
      | Some (_, filename) \<Rightarrow>
          (case cstr_at filename 0 of
             None \<Rightarrow> None
           | Some name \<Rightarrow>
               writev meta_format (meta_args gm name meta) st w))"

section \<open>The contract of a handler\<close>

text \<open>
  \<open>idle\<close> holds between two lines, \<open>ready m\<close> while the line of \<open>m\<close> is written; \<open>out m\<close> is what the
  destination of that line holds, \<open>dest\<close> names the destination, and \<open>conf\<close> is what no operation changes.
  A writer's operations append to it, \<open>before_write\<close> the text \<open>pre\<close>.
\<close>

locale line_writer =
  fixes h :: "'h haclog_handler"
    and idle :: "'h \<Rightarrow> world \<Rightarrow> bool"
    and ready :: "meta_info \<Rightarrow> 'h \<Rightarrow> world \<Rightarrow> bool"
    and dest :: "'h \<Rightarrow> 'd"
    and conf :: "'h \<Rightarrow> 'c"
    and out :: "meta_info \<Rightarrow> 'h \<Rightarrow> world \<Rightarrow> string"
    and pre :: "'h \<Rightarrow> meta_info \<Rightarrow> string"
    and post :: "'h \<Rightarrow> meta_info \<Rightarrow> string"
  assumes before: "idle st w \<Longrightarrow> \<exists>n st' w'. hd_before_write h m st w = Some (n, st', w') \<and>
      ready m st' w' \<and> out m st' w' = out m st w @ pre st m \<and> dest st' = dest st \<and> conf st' = conf st \<and> post st' m = post st m"
    and put: "ready m st w \<Longrightarrow> 0 < n \<Longrightarrow> n \<le> int (length msg) \<Longrightarrow> n < 2147483648 \<Longrightarrow>
      \<exists>st' w'. hd_write h msg n st w = Some (n, st', w') \<and> ready m st' w' \<and>
      out m st' w' = out m st w @ take (nat n) msg \<and> dest st' = dest st \<and> conf st' = conf st \<and> post st' m = post st m"
    and putv: "ready m st w \<Longrightarrow> bs = c_format None fmt as \<Longrightarrow> length bs < 2147483648 \<Longrightarrow>
      \<exists>st' w'. hd_writev h fmt as st w = Some (int (length bs), st', w') \<and> ready m st' w' \<and>
      out m st' w' = out m st w @ bs \<and> dest st' = dest st \<and> conf st' = conf st \<and> post st' m = post st m"
begin

text \<open>One line up to \<open>after_write\<close>: what \<open>write_meta\<close> printed and the message, in this order.\<close>

lemma write_body:
  assumes idle: "idle st w"
    and meta: "hd_write_meta h = haclog_handler_default_write_meta gm junk"
    and name: "haclog_path_basename (loc_file (mi_loc m)) junk 256 = Some (e, buf)" "cstr_at buf 0 = Some name"
    and len: "0 \<le> n" "n \<le> int (length msg)"
    and line: "line = c_format None meta_format (meta_args gm name m)"
    and fits: "int (length line) + n < 2147483648"
  obtains st1 w1 where
    "haclog_handler_write h m msg n st w =
       map_option (\<lambda>(k, st', w'). (int (length line) + n, st', w')) (hd_after_write h m st1 w1)"
    "ready m st1 w1" "out m st1 w1 = out m st w @ pre st m @ line @ take (nat n) msg"
    "dest st1 = dest st" "conf st1 = conf st" "post st1 m = post st m"
proof -
  obtain k st0 w0 where b: "hd_before_write h m st w = Some (k, st0, w0)" "ready m st0 w0"
    "out m st0 w0 = out m st w @ pre st m" "dest st0 = dest st" "conf st0 = conf st" "post st0 m = post st m"
    using before [OF idle] by blast
  have "length line < 2147483648" using fits len by linarith
  from putv [OF b(2) line this] obtain st1 w1 where
    v: "hd_writev h meta_format (meta_args gm name m) st0 w0 = Some (int (length line), st1, w1)"
    "ready m st1 w1" "out m st1 w1 = out m st0 w0 @ line" "dest st1 = dest st0" "conf st1 = conf st0" "post st1 m = post st0 m"
    by blast
  then have wm: "hd_write_meta h (hd_writev h) m st0 w0 = Some (int (length line), st1, w1)"
    using name by (simp add: meta haclog_handler_default_write_meta_def)
  obtain st2 w2 where p: "(if n > 0 then hd_write h msg n st1 w1 else Some (0, st1, w1)) = Some (n, st2, w2)"
    "ready m st2 w2" "out m st2 w2 = out m st1 w1 @ take (nat n) msg" "dest st2 = dest st1" "conf st2 = conf st1" "post st2 m = post st1 m"
  proof (cases "n > 0")
    case True
    moreover have "n < 2147483648" using fits by linarith
    ultimately show ?thesis using put [OF v(2) True len(2)] that by auto
  next
    case False
    with len that [of st1 w1] v show ?thesis by auto
  qed
  have "haclog_handler_write h m msg n st w =
      map_option (\<lambda>(k, st', w'). (int (length line) + n, st', w')) (hd_after_write h m st2 w2)"
    using b(1) wm p(1) fits len by (simp add: haclog_handler_write_def c_int_id map_option_case split: option.splits)
  with that [of st2 w2] p b v show ?thesis by simp
qed

end

text \<open>
  A sink's \<open>after_write\<close> appends the text \<open>post\<close> and may then move on to another destination; \<open>fin\<close> is
  where the text of the finished line is found afterwards.
\<close>

locale line_sink = line_writer h idle ready dest conf out pre post
  for h :: "'h haclog_handler"
    and idle :: "'h \<Rightarrow> world \<Rightarrow> bool"
    and ready :: "meta_info \<Rightarrow> 'h \<Rightarrow> world \<Rightarrow> bool"
    and dest :: "'h \<Rightarrow> 'd"
    and conf :: "'h \<Rightarrow> 'c"
    and out :: "meta_info \<Rightarrow> 'h \<Rightarrow> world \<Rightarrow> string"
    and fin :: "meta_info \<Rightarrow> 'h \<Rightarrow> world \<Rightarrow> string"
    and pre :: "'h \<Rightarrow> meta_info \<Rightarrow> string"
    and post :: "'h \<Rightarrow> meta_info \<Rightarrow> string" +
  assumes after: "ready m st w \<Longrightarrow> \<exists>n st' w'. hd_after_write h m st w = Some (n, st', w') \<and>
      idle st' w' \<and> conf st' = conf st \<and> fin m st w' = out m st w @ post st m"
begin

text \<open>One line, with the text around it.\<close>

lemma write_line:
  assumes idle: "idle st w"
    and meta: "hd_write_meta h = haclog_handler_default_write_meta gm junk"
    and name: "haclog_path_basename (loc_file (mi_loc m)) junk 256 = Some (e, buf)" "cstr_at buf 0 = Some name"
    and len: "0 \<le> n" "n \<le> int (length msg)"
    and line: "line = c_format None meta_format (meta_args gm name m)"
    and fits: "int (length line) + n < 2147483648"
  shows "\<exists>st1 w1 st' w'. haclog_handler_write h m msg n st w = Some (int (length line) + n, st', w') \<and>
    idle st' w' \<and> conf st' = conf st \<and> ready m st1 w1 \<and> out m st1 w1 = out m st w @ pre st m @ line @ take (nat n) msg \<and> dest st1 = dest st \<and> conf st1 = conf st \<and>
    fin m st1 w' = out m st w @ pre st m @ line @ take (nat n) msg @ post st m"
proof -
  obtain st1 w1 where b: "haclog_handler_write h m msg n st w =
      map_option (\<lambda>(k, st', w'). (int (length line) + n, st', w')) (hd_after_write h m st1 w1)"
    "ready m st1 w1" "out m st1 w1 = out m st w @ pre st m @ line @ take (nat n) msg"
    "dest st1 = dest st" "conf st1 = conf st" "post st1 m = post st m"
    by (rule write_body [OF assms])
  from after [OF b(2)] b show ?thesis
    by (elim exE conjE, intro exI [of _ st1], intro exI [of _ w1]) auto
qed

end

section \<open>A sample statement\<close>

definition demo_meta :: "int \<Rightarrow> meta_info" where
  "demo_meta level = \<lparr>mi_loc = \<lparr>loc_file = ''src/a.c'', loc_func = ''f'', loc_line = 7, loc_level = level\<rparr>,
     mi_tid = 9, mi_ts = (0, 5)\<rparr>"

definition demo_gmtime :: "int \<Rightarrow> tm" where
  "demo_gmtime sec = \<lparr>tm_sec = sec mod 60, tm_min = sec div 60 mod 60, tm_hour = sec div 3600 mod 24,
     tm_mday = 1 + sec div 86400, tm_mon = 0, tm_year = 70\<rparr>"

definition demo_sys :: world where
  "demo_sys = \<lparr>w_files = Map.empty, w_dirs = {}, w_cwd = Some ''/'', w_stdout = [], w_stderr = [],
     w_calls = 0, w_fault = (\<lambda>n. None)\<rparr>"

lemma demo_name:
  "\<exists>buf. haclog_path_basename (loc_file (mi_loc (demo_meta l))) (replicate 256 NUL) 256 = Some (HACLOG_ERR_OK, buf) \<and>
     cstr_at buf 0 = Some ''a.c''"
proof -
  have "mem_write (replicate 256 NUL) 0 [CHR ''a'', CHR ''.'', CHR ''c'', NUL] =
      Some (''a.c'' @ NUL # drop 4 (replicate 256 NUL))"
    unfolding mem_write_def length_replicate by simp
  moreover have "cstr_at (''a.c'' @ NUL # drop 4 (replicate 256 NUL)) 0 = Some ''a.c''"
    by (simp add: cstr_at_def NUL_def)
  moreover have "last_sep ''src/a.c'' 7 = 3" by (simp add: eval_nat_numeral is_sep_def)
  ultimately show ?thesis
    by (simp add: haclog_path_basename_def demo_meta_def c_int_id Let_def)
qed

lemma replicate_8: "replicate 8 c = [c, c, c, c, c, c, c, c]"
  by (simp add: eval_nat_numeral)

lemma demo_line:
  "c_format None meta_format (meta_args demo_gmtime ''a.c'' (demo_meta 768)) =
     ''WARNING|1970-01-01T00:00:00.000000005|a.c:7|f|9 - ''"
  by (simp add: meta_format_def meta_args_def demo_meta_def demo_gmtime_def haclog_level_to_str_def
      level_defs c_int_id c_u32_id c_u64_id sdec_pad_def zero_pad_def dec.simps digit_def replicate_8)

end
