(* ===== verification/Haclog_Console.thy ===== *)
theory Haclog_Console
  imports Haclog_Handler
begin

text \<open>
  \<open>haclog_console_handler.c\<close>, outside Windows: lines of level WARNING and above go to the standard
  error stream in colour when colours are on, all others to the standard output.
\<close>

record console_handler =
  ch_fp :: "c_file option"
  ch_enable_color :: int

definition UNIX_TERMINAL_COLOR :: "string \<Rightarrow> string" where
  "UNIX_TERMINAL_COLOR code = CHR 0x1B # ''['' @ code @ ''m''"

definition UNIX_TERMINAL_COLOR_RST :: string where "UNIX_TERMINAL_COLOR_RST = UNIX_TERMINAL_COLOR ''0''"
definition UNIX_TERMINAL_COLOR_RED :: string where "UNIX_TERMINAL_COLOR_RED = UNIX_TERMINAL_COLOR ''31''"
definition UNIX_TERMINAL_COLOR_YEL :: string where "UNIX_TERMINAL_COLOR_YEL = UNIX_TERMINAL_COLOR ''33''"

definition haclog_console_handler_before_write :: "meta_info \<Rightarrow> console_handler act" where
  "haclog_console_handler_before_write meta handler w =
     (if ch_enable_color handler \<noteq> 0 \<and> loc_level (mi_loc meta) \<ge> HACLOG_LEVEL_WARNING
      then
        (case (if loc_level (mi_loc meta) \<ge> HACLOG_LEVEL_ERROR
               then c_fwrite UNIX_TERMINAL_COLOR_RED F_stderr w
               else c_fwrite UNIX_TERMINAL_COLOR_YEL F_stderr w) of
           (_, fp, w) \<Rightarrow> Some (0, handler\<lparr>ch_fp := Some F_stderr\<rparr>, w))
      else Some (0, handler\<lparr>ch_fp := Some F_stdout\<rparr>, w))"

definition haclog_console_handler_after_write :: "meta_info \<Rightarrow> console_handler act" where
  "haclog_console_handler_after_write meta handler w =
     (case ch_fp handler of
        None \<Rightarrow> None
      | Some fp \<Rightarrow>
          (case c_fwrite [CHR 0x0A] fp w of
             (_, fp, w) \<Rightarrow>
               if ch_enable_color handler \<noteq> 0 \<and> loc_level (mi_loc meta) \<ge> HACLOG_LEVEL_WARNING
               then (case c_fwrite UNIX_TERMINAL_COLOR_RST F_stderr w of
                       (_, _, w) \<Rightarrow> Some (0, handler\<lparr>ch_fp := Some fp\<rparr>, w))
               else Some (0, handler\<lparr>ch_fp := Some fp\<rparr>, w)))"

definition haclog_console_handler_write :: "string \<Rightarrow> int \<Rightarrow> console_handler act" where
  "haclog_console_handler_write msg msglen handler w =
     (case ch_fp handler of
        None \<Rightarrow> None
      | Some fp \<Rightarrow>
          (case c_fwrite (take (nat msglen) msg) fp w of
             (n, fp, w) \<Rightarrow> Some (c_int n, handler\<lparr>ch_fp := Some fp\<rparr>, w)))"

definition haclog_console_handler_writev :: "console_handler writev" where
  "haclog_console_handler_writev fmt_str args handler w =
     (case ch_fp handler of
        None \<Rightarrow> None
      | Some fp \<Rightarrow>
          (case c_vfprintf fmt_str args fp w of
             (n, fp, w) \<Rightarrow> Some (n, handler\<lparr>ch_fp := Some fp\<rparr>, w)))"

definition haclog_console_handler_destroy :: "console_handler \<Rightarrow> world \<Rightarrow> console_handler \<times> world" where
  "haclog_console_handler_destroy handler w = (handler, w)"

text \<open>The operations \<open>haclog_console_handler_init\<close> puts into the handler, and its state.\<close>

definition console_ops :: "(int \<Rightarrow> tm) \<Rightarrow> block \<Rightarrow> console_handler haclog_handler" where
  "console_ops gm junk = \<lparr>hd_before_write = haclog_console_handler_before_write,
     hd_write_meta = haclog_handler_default_write_meta gm junk,
     hd_write = haclog_console_handler_write, hd_writev = haclog_console_handler_writev,
     hd_after_write = haclog_console_handler_after_write, hd_destroy = haclog_console_handler_destroy,
     hd_level = HACLOG_LEVEL_INFO\<rparr>"

definition haclog_console_handler_init ::
  "(int \<Rightarrow> tm) \<Rightarrow> block \<Rightarrow> int \<Rightarrow> haclog_error \<times> console_handler haclog_handler \<times> console_handler" where
  "haclog_console_handler_init gm junk enable_color =
     (HACLOG_ERR_OK, console_ops gm junk, \<lparr>ch_fp = None, ch_enable_color = enable_color\<rparr>)"

section \<open>The console keeps the contract\<close>

definition console_colored :: "console_handler \<Rightarrow> meta_info \<Rightarrow> bool" where
  "console_colored h m \<longleftrightarrow> ch_enable_color h \<noteq> 0 \<and> loc_level (mi_loc m) \<ge> HACLOG_LEVEL_WARNING"

definition console_out :: "meta_info \<Rightarrow> console_handler \<Rightarrow> world \<Rightarrow> string" where
  "console_out m h w = (if console_colored h m then w_stderr w else w_stdout w)"

definition console_ready :: "meta_info \<Rightarrow> console_handler \<Rightarrow> world \<Rightarrow> bool" where
  "console_ready m h w \<longleftrightarrow> no_faults w \<and> ch_fp h = Some (if console_colored h m then F_stderr else F_stdout)"

definition console_pre :: "console_handler \<Rightarrow> meta_info \<Rightarrow> string" where
  "console_pre h m =
     (if console_colored h m
      then (if loc_level (mi_loc m) \<ge> HACLOG_LEVEL_ERROR then UNIX_TERMINAL_COLOR_RED else UNIX_TERMINAL_COLOR_YEL)
      else [])"

definition console_post :: "console_handler \<Rightarrow> meta_info \<Rightarrow> string" where
  "console_post h m = CHR 0x0A # (if console_colored h m then UNIX_TERMINAL_COLOR_RST else [])"

lemmas console_defs = console_ops_def console_out_def console_ready_def console_pre_def console_post_def
  console_colored_def haclog_console_handler_before_write_def haclog_console_handler_after_write_def
  haclog_console_handler_write_def haclog_console_handler_writev_def

lemma fwrite_std [simp]:
  "no_faults w \<Longrightarrow> c_fwrite bs F_stdout w =
     (int (length bs), F_stdout, w\<lparr>w_calls := Suc (w_calls w), w_stdout := w_stdout w @ bs\<rparr>)"
  "no_faults w \<Longrightarrow> c_fwrite bs F_stderr w =
     (int (length bs), F_stderr, w\<lparr>w_calls := Suc (w_calls w), w_stderr := w_stderr w @ bs\<rparr>)"
  by (simp_all add: c_fwrite_def no_fault_call deliver_def c_writable_def)

interpretation console: line_sink "console_ops gm junk" "\<lambda>h. no_faults" console_ready
  ch_enable_color ch_enable_color console_out console_out console_pre console_post
proof unfold_locales
  fix st :: console_handler and w m n msg bs fmt as
  show "no_faults w \<Longrightarrow> \<exists>n st' w'. hd_before_write (console_ops gm junk) m st w = Some (n, st', w') \<and>
      console_ready m st' w' \<and> console_out m st' w' = console_out m st w @ console_pre st m \<and>
      ch_enable_color st' = ch_enable_color st \<and> ch_enable_color st' = ch_enable_color st \<and> console_post st' m = console_post st m"
    by (auto simp: console_defs)
  show "console_ready m st w \<Longrightarrow> 0 < n \<Longrightarrow> n \<le> int (length msg) \<Longrightarrow> n < 2147483648 \<Longrightarrow>
      \<exists>st' w'. hd_write (console_ops gm junk) msg n st w = Some (n, st', w') \<and>
      console_ready m st' w' \<and> console_out m st' w' = console_out m st w @ take (nat n) msg \<and>
      ch_enable_color st' = ch_enable_color st \<and> ch_enable_color st' = ch_enable_color st \<and> console_post st' m = console_post st m"
    by (auto simp: console_defs c_int_id)
  show "console_ready m st w \<Longrightarrow> bs = c_format None fmt as \<Longrightarrow> length bs < 2147483648 \<Longrightarrow>
      \<exists>st' w'. hd_writev (console_ops gm junk) fmt as st w = Some (int (length bs), st', w') \<and>
      console_ready m st' w' \<and> console_out m st' w' = console_out m st w @ bs \<and>
      ch_enable_color st' = ch_enable_color st \<and> ch_enable_color st' = ch_enable_color st \<and> console_post st' m = console_post st m"
    by (auto simp: console_defs c_vfprintf_def Let_def)
  show "console_ready m st w \<Longrightarrow> \<exists>n st' w'. hd_after_write (console_ops gm junk) m st w = Some (n, st', w') \<and>
      no_faults w' \<and> ch_enable_color st' = ch_enable_color st \<and> console_out m st w' = console_out m st w @ console_post st m"
    by (auto simp: console_defs)
qed

text \<open>
  C26: a line on the console. When no write fails, \<open>haclog_handler_write\<close> on a console handler writes the
  meta line, the message and a newline, in this order and nothing between, to the standard error
  stream between the colour codes of the level when colours are on and the level is at least WARNING, and to the
  standard output otherwise; it returns the number of bytes of meta line and message.
\<close>

theorem console_line:
  assumes "no_faults w"
    and "haclog_path_basename (loc_file (mi_loc m)) junk 256 = Some (e, buf)" and "cstr_at buf 0 = Some name"
    and "0 \<le> n" and "n \<le> int (length msg)"
    and "line = c_format None meta_format (meta_args gm name m)" and "int (length line) + n < 2147483648"
  shows "\<exists>st' w'. haclog_handler_write (console_ops gm junk) m msg n st w = Some (int (length line) + n, st', w') \<and>
    (if console_colored st m
     then w_stderr w' = w_stderr w @
       (if loc_level (mi_loc m) \<ge> HACLOG_LEVEL_ERROR then UNIX_TERMINAL_COLOR_RED else UNIX_TERMINAL_COLOR_YEL) @
       line @ take (nat n) msg @ CHR 0x0A # UNIX_TERMINAL_COLOR_RST
     else w_stdout w' = w_stdout w @ line @ take (nat n) msg @ [CHR 0x0A])"
proof -
  have meta: "hd_write_meta (console_ops gm junk) = haclog_handler_default_write_meta gm junk"
    by (simp add: console_ops_def)
  obtain st1 st' w' where
    "haclog_handler_write (console_ops gm junk) m msg n st w = Some (int (length line) + n, st', w')"
    "ch_enable_color st1 = ch_enable_color st"
    "console_out m st1 w' = console_out m st w @ console_pre st m @ line @ take (nat n) msg @ console_post st m"
    using console.write_line [OF assms(1) meta assms(2-7)] by blast
  then show ?thesis
    by (auto simp: console_out_def console_colored_def console_pre_def console_post_def)
qed

lemma console_line_witness:
  "\<exists>st' w'. haclog_handler_write (console_ops demo_gmtime (replicate 256 NUL)) (demo_meta 768) ''hi'' 2
      \<lparr>ch_fp = None, ch_enable_color = 1\<rparr> demo_sys = Some (52, st', w') \<and>
    w_stderr w' = CHR 0x1B # ''[33mWARNING|1970-01-01T00:00:00.000000005|a.c:7|f|9 - hi'' @
      CHR 0x0A # CHR 0x1B # ''[0m''"
proof -
  obtain buf where buf: "haclog_path_basename (loc_file (mi_loc (demo_meta 768))) (replicate 256 NUL) 256 =
      Some (HACLOG_ERR_OK, buf)" "cstr_at buf 0 = Some ''a.c''" using demo_name by blast
  show ?thesis
    using console_line [OF _ buf _ _ demo_line [symmetric], of demo_sys 2 "''hi''" "\<lparr>ch_fp = None, ch_enable_color = 1\<rparr>"]
    by (simp add: demo_sys_def no_faults_def console_colored_def demo_meta_def level_defs
        UNIX_TERMINAL_COLOR_YEL_def UNIX_TERMINAL_COLOR_RST_def UNIX_TERMINAL_COLOR_def eval_nat_numeral)
qed

end
