(* ===== verification/Haclog_File_Handler.thy ===== *)
theory Haclog_File_Handler
  imports Haclog_Handler
begin

text \<open>
  \<open>haclog_file_handle.c\<close>: lines appended to one file. The writes of a stream that appends to a named
  file are shared with the rotating handlers.
\<close>

section \<open>Writes to a file\<close>

text \<open>A stream open for writing whose next byte goes to the end of a file that is there.\<close>

definition file_text :: "string \<Rightarrow> world \<Rightarrow> string" where
  "file_text p w = (case w_files w p of None \<Rightarrow> [] | Some txt \<Rightarrow> txt)"

definition appends :: "c_file option \<Rightarrow> string \<Rightarrow> world \<Rightarrow> bool" where
  "appends fp p w \<longleftrightarrow> no_faults w \<and> w_files w p \<noteq> None \<and>
     (\<exists>at_end pos. fp = Some (F_file p at_end True pos) \<and> (at_end \<or> pos = length (file_text p w)))"

lemma fwrite_file:
  assumes "appends (Some fp) p w"
  shows "\<exists>fp' w'. c_fwrite bs fp w = (int (length bs), fp', w') \<and> appends (Some fp') p w' \<and>
    w_files w' = (w_files w)(p \<mapsto> file_text p w @ bs) \<and> w_dirs w' = w_dirs w"
proof -
  from assms obtain at_end pos t where fp: "fp = F_file p at_end True pos" and t: "w_files w p = Some t"
    and at: "at_end \<or> pos = length t" and faults: "no_faults w"
    by (auto simp: appends_def file_text_def)
  have "put_bytes at_end pos bs t = t @ bs" using at by (auto simp: put_bytes_def)
  then show ?thesis using faults t at
    by (auto simp: c_fwrite_def no_fault_call c_writable_def fp deliver_def appends_def file_text_def Let_def)
qed

lemma vfprintf_file:
  assumes "appends (Some fp) p w"
  shows "\<exists>fp' w'. c_vfprintf fmt as fp w = (int (length (c_format None fmt as)), fp', w') \<and> appends (Some fp') p w' \<and>
    w_files w' = (w_files w)(p \<mapsto> file_text p w @ c_format None fmt as) \<and> w_dirs w' = w_dirs w"
proof -
  obtain fp' w' where "c_fwrite (c_format None fmt as) fp w = (int (length (c_format None fmt as)), fp', w')"
    "appends (Some fp') p w'" "w_files w' = (w_files w)(p \<mapsto> file_text p w @ c_format None fmt as)"
    "w_dirs w' = w_dirs w"
    using fwrite_file [OF assms, of "c_format None fmt as"] by blast
  then show ?thesis by (intro exI [of _ fp'] exI [of _ w']) (simp add: c_vfprintf_def Let_def)
qed

lemma file_text_written: "w_files w' = (w_files w)(p \<mapsto> file_text p w @ bs) \<Longrightarrow> file_text p w' = file_text p w @ bs"
  by (simp add: file_text_def)

lemma appends_faults: "appends fp p w \<Longrightarrow> no_faults w"
  by (simp add: appends_def)

section \<open>The handler\<close>

record file_handler =
  fh_fp :: "c_file option"

definition haclog_file_handler_before_write :: "meta_info \<Rightarrow> file_handler act" where
  "haclog_file_handler_before_write meta handler w = Some (0, handler, w)"

definition haclog_file_handler_after_write :: "meta_info \<Rightarrow> file_handler act" where
  "haclog_file_handler_after_write meta handler w =
     (case fh_fp handler of
        None \<Rightarrow> Some (0, handler, w)
      | Some fp \<Rightarrow>
          (case c_fwrite [CHR 0x0A] fp w of (_, fp, w) \<Rightarrow> Some (0, handler\<lparr>fh_fp := Some fp\<rparr>, w)))"

definition haclog_file_handler_write :: "string \<Rightarrow> int \<Rightarrow> file_handler act" where
  "haclog_file_handler_write msg msglen handler w =
     (case fh_fp handler of
        None \<Rightarrow> Some (0, handler, w)
      | Some fp \<Rightarrow>
          (case c_fwrite (take (nat msglen) msg) fp w of
             (n, fp, w) \<Rightarrow> Some (c_int n, handler\<lparr>fh_fp := Some fp\<rparr>, w)))"

definition haclog_file_handler_writev :: "file_handler writev" where
  "haclog_file_handler_writev fmt_str args handler w =
     (case fh_fp handler of
        None \<Rightarrow> Some (0, handler, w)
      | Some fp \<Rightarrow>
          (case c_vfprintf fmt_str args fp w of
             (n, fp, w) \<Rightarrow> Some (n, handler\<lparr>fh_fp := Some fp\<rparr>, w)))"

definition haclog_file_handler_destroy :: "file_handler \<Rightarrow> world \<Rightarrow> file_handler \<times> world" where
  "haclog_file_handler_destroy handler w =
     (case fh_fp handler of None \<Rightarrow> (handler, w) | Some fp \<Rightarrow> (handler\<lparr>fh_fp := None\<rparr>, w))"

definition file_ops :: "(int \<Rightarrow> tm) \<Rightarrow> block \<Rightarrow> file_handler haclog_handler" where
  "file_ops gm junk = \<lparr>hd_before_write = haclog_file_handler_before_write,
     hd_write_meta = haclog_handler_default_write_meta gm junk,
     hd_write = haclog_file_handler_write, hd_writev = haclog_file_handler_writev,
     hd_after_write = haclog_file_handler_after_write, hd_destroy = haclog_file_handler_destroy,
     hd_level = HACLOG_LEVEL_INFO\<rparr>"

text \<open>
  \<open>haclog_file_handler_init\<close>; on an error the handler's operations stay NULL. \<open>locals\<close> is what the
  uninitialised arrays hold, of this function and of \<open>haclog_os_fopen\<close>.
\<close>

definition haclog_file_handler_init ::
  "(int \<Rightarrow> tm) \<Rightarrow> block \<Rightarrow> (block \<times> block) \<times> (block \<times> block \<times> block) \<Rightarrow> string \<Rightarrow> string \<Rightarrow> world \<Rightarrow>
   (haclog_error \<times> file_handler haclog_handler option \<times> file_handler \<times> world) option" where
  "haclog_file_handler_init gm junk locals filepath mode w =
     (case abs_filepath (fst locals) filepath w of
        None \<Rightarrow> None
      | Some (Inl e, w) \<Rightarrow> Some (e, None, \<lparr>fh_fp = None\<rparr>, w)
      | Some (Inr path, w) \<Rightarrow>
          (case haclog_os_fopen (snd locals) path mode w of
             None \<Rightarrow> None
           | Some (None, w) \<Rightarrow> Some (HACLOG_ERR_SYS_CALL, None, \<lparr>fh_fp = None\<rparr>, w)
           | Some (Some fp, w) \<Rightarrow> Some (HACLOG_ERR_OK, Some (file_ops gm junk), \<lparr>fh_fp = Some fp\<rparr>, w)))"

definition fp_path :: "c_file option \<Rightarrow> string" where
  "fp_path fp = (case fp of Some (F_file p _ _ _) \<Rightarrow> p | _ \<Rightarrow> [])"

lemma appends_path: "appends fp p w \<Longrightarrow> fp_path fp = p"
  by (auto simp: appends_def fp_path_def)

definition file_ready :: "file_handler \<Rightarrow> world \<Rightarrow> bool" where
  "file_ready h w \<longleftrightarrow> appends (fh_fp h) (fp_path (fh_fp h)) w"

definition file_out :: "meta_info \<Rightarrow> file_handler \<Rightarrow> world \<Rightarrow> string" where
  "file_out m h w = file_text (fp_path (fh_fp h)) w"

lemma file_fwrite:
  assumes "file_ready st w"
  obtains fp fp' w' where "fh_fp st = Some fp" "c_fwrite bs fp w = (int (length bs), fp', w')"
    "file_ready (st\<lparr>fh_fp := Some fp'\<rparr>) w'" "fp_path (Some fp') = fp_path (fh_fp st)"
    "file_text (fp_path (fh_fp st)) w' = file_text (fp_path (fh_fp st)) w @ bs"
proof -
  from assms obtain fp where fp: "fh_fp st = Some fp" by (auto simp: file_ready_def appends_def)
  with assms fwrite_file [of fp "fp_path (fh_fp st)" w bs] obtain fp' w' where
    "c_fwrite bs fp w = (int (length bs), fp', w')" "appends (Some fp') (fp_path (fh_fp st)) w'"
    "w_files w' = (w_files w)(fp_path (fh_fp st) \<mapsto> file_text (fp_path (fh_fp st)) w @ bs)"
    by (auto simp: file_ready_def)
  with that [OF fp] show ?thesis by (simp add: file_ready_def appends_path file_text_written)
qed

interpretation file_sink: line_sink "file_ops gm junk" file_ready "\<lambda>m. file_ready" "\<lambda>h. fp_path (fh_fp h)"
  "\<lambda>h. fp_path (fh_fp h)" file_out file_out "\<lambda>h m. []" "\<lambda>h m. [CHR 0x0A]"
proof unfold_locales
  fix st :: file_handler and w m n msg bs fmt as
  show "file_ready st w \<Longrightarrow> \<exists>n st' w'. hd_before_write (file_ops gm junk) m st w = Some (n, st', w') \<and>
      file_ready st' w' \<and> file_out m st' w' = file_out m st w @ [] \<and>
      fp_path (fh_fp st') = fp_path (fh_fp st) \<and> fp_path (fh_fp st') = fp_path (fh_fp st) \<and> [CHR 0x0A] = [CHR 0x0A]"
    by (simp add: file_ops_def haclog_file_handler_before_write_def)
  show "file_ready st w \<Longrightarrow> 0 < n \<Longrightarrow> n \<le> int (length msg) \<Longrightarrow> n < 2147483648 \<Longrightarrow>
      \<exists>st' w'. hd_write (file_ops gm junk) msg n st w = Some (n, st', w') \<and>
      file_ready st' w' \<and> file_out m st' w' = file_out m st w @ take (nat n) msg \<and>
      fp_path (fh_fp st') = fp_path (fh_fp st) \<and> fp_path (fh_fp st') = fp_path (fh_fp st) \<and> [CHR 0x0A] = [CHR 0x0A]"
    by (erule file_fwrite [where bs = "take (nat n) msg"])
      (auto simp: file_ops_def haclog_file_handler_write_def file_out_def c_int_id)
  show "file_ready st w \<Longrightarrow> bs = c_format None fmt as \<Longrightarrow> length bs < 2147483648 \<Longrightarrow>
      \<exists>st' w'. hd_writev (file_ops gm junk) fmt as st w = Some (int (length bs), st', w') \<and>
      file_ready st' w' \<and> file_out m st' w' = file_out m st w @ bs \<and>
      fp_path (fh_fp st') = fp_path (fh_fp st) \<and> fp_path (fh_fp st') = fp_path (fh_fp st) \<and> [CHR 0x0A] = [CHR 0x0A]"
    by (erule file_fwrite [where bs = bs])
      (auto simp: file_ops_def haclog_file_handler_writev_def c_vfprintf_def Let_def file_out_def)
  show "file_ready st w \<Longrightarrow> \<exists>n st' w'. hd_after_write (file_ops gm junk) m st w = Some (n, st', w') \<and>
      file_ready st' w' \<and> fp_path (fh_fp st') = fp_path (fh_fp st) \<and> file_out m st w' = file_out m st w @ [CHR 0x0A]"
    by (erule file_fwrite [where bs = "[CHR 0x0A]"])
      (auto simp: file_ops_def haclog_file_handler_after_write_def file_out_def)
qed

end
