(* ===== verification/Haclog_Open.thy ===== *)
theory Haclog_Open
  imports Haclog_Path_Props Haclog_File_Handler
begin

text \<open>
  What \<open>haclog_os_fopen\<close> leaves behind and, on top of it, the file handler from its initialisation to
  a written line.
\<close>

text \<open>No file has the name of a directory the path goes through.\<close>

definition way_free :: "string \<Rightarrow> world \<Rightarrow> bool" where
  "way_free d w \<longleftrightarrow> (\<forall>q r. d = q @ r \<and> (r = [] \<or> hd r = CHR ''/'') \<longrightarrow> q \<notin> dom (w_files w))"

lemma os_mkdir_chain:
  assumes "no_faults w" and "d \<noteq> []" and "length d \<le> 1023" and "way_free d w"
  shows "\<exists>w'. haclog_os_mkdir d w = (HACLOG_ERR_OK, w') \<and> no_faults w' \<and> w_files w' = w_files w \<and>
    w_cwd w' = w_cwd w \<and>
    w_dirs w' = w_dirs w \<union> {q. \<exists>r. d = q @ r \<and> q \<noteq> [] \<and> q \<noteq> ''/'' \<and> (r = [] \<or> hd r = CHR ''/'')}"
proof -
  obtain c rest where d: "d = c # rest" using assms(2) by (cases d) auto
  have chain: "q \<in> set (dir_chain [c] rest) \<longleftrightarrow>
      (\<exists>r. d = q @ r \<and> q \<noteq> [] \<and> (r = [] \<or> hd r = CHR ''/''))" for q
    using dir_chain_prefixes [of q "[c]" rest] by (cases q) (auto simp: d)
  have "\<forall>q\<in>set (dir_chain [c] rest). q \<notin> dom (w_files w)" using chain assms(4) unfolding way_free_def by blast
  with mkdir_loop_made [of w "[c]" rest] assms(1) obtain w' where
    w': "mkdir_loop [c] rest w = (HACLOG_ERR_OK, w')" "made (dir_chain [c] rest) w w'"
    by (auto simp: dir_there_def)
  have "haclog_os_mkdir d w = (HACLOG_ERR_OK, w')"
    using w'(1) assms(3) by (simp add: haclog_os_mkdir_def d HACLOG_MAX_PATH_def)
  moreover have "w_dirs w' = w_dirs w \<union> {q. \<exists>r. d = q @ r \<and> q \<noteq> [] \<and> q \<noteq> ''/'' \<and> (r = [] \<or> hd r = CHR ''/'')}"
    using w'(2) chain by (auto simp: made_def)
  ultimately show ?thesis using w'(2) by (auto simp: made_def)
qed

text \<open>An absolute file name: the directory, and a name without separators.\<close>

definition file_name :: "string \<Rightarrow> string \<Rightarrow> string \<Rightarrow> bool" where
  "file_name p d b \<longleftrightarrow> p = d @ CHR ''/'' # b \<and> (d = [] \<or> hd d = CHR ''/'') \<and> b \<noteq> [] \<and> NUL \<notin> set p \<and>
     (\<forall>x\<in>set b. \<not> is_sep x) \<and> \<not> (2 \<le> length d \<and> last d = CHR '':'') \<and> length p \<le> 1000"

lemma file_name_isabs: "file_name p d b \<Longrightarrow> haclog_path_isabs p"
  by (cases d) (auto simp: file_name_def haclog_path_isabs_def)

lemma file_name_parent: "file_name p d b \<Longrightarrow> parent_dir p = d"
proof -
  assume p: "file_name p d b"
  then have "CHR ''/'' \<notin> set b" by (auto simp: file_name_def is_sep_def)
  then have "dropWhile (\<lambda>c. c \<noteq> CHR ''/'') (rev b @ CHR ''/'' # rev d) = CHR ''/'' # rev d"
    by (subst dropWhile_append2) auto
  with p show ?thesis by (simp add: file_name_def parent_dir_def)
qed

lemma file_name_dirname:
  assumes p: "file_name p d b" and buf: "length buf = HACLOG_MAX_PATH"
  shows "\<exists>dir. haclog_path_dirname p buf (int HACLOG_MAX_PATH) = Some (HACLOG_ERR_OK, dir) \<and>
    cstr_at dir 0 = Some (if d = [] then ''/'' else d)"
proof (cases "d = []")
  case True
  with p have path: "p = CHR ''/'' # b" "\<forall>x\<in>set b. \<not> is_sep x" "length p \<le> 1000"
    by (auto simp: file_name_def)
  have "\<exists>dir. haclog_path_dirname p buf (int HACLOG_MAX_PATH) = Some (HACLOG_ERR_OK, dir) \<and> cstr_at dir 0 = Some ''/''"
    by (rule dirname_root [OF path(1,2)]) (use path(3) buf in \<open>simp_all add: HACLOG_MAX_PATH_def\<close>)
  with True show ?thesis by simp
next
  case False
  from p have path: "p = d @ CHR ''/'' # b" "NUL \<notin> set p" "\<forall>x\<in>set b. \<not> is_sep x"
    "\<not> (2 \<le> length d \<and> last d = CHR '':'')" "length p \<le> 1000" by (auto simp: file_name_def)
  have "\<exists>dir. haclog_path_dirname p buf (int HACLOG_MAX_PATH) = Some (HACLOG_ERR_OK, dir) \<and> cstr_at dir 0 = Some d"
    by (rule dirname_text [OF path(1,2) _ path(3) False path(4)])
      (use path(5) buf in \<open>simp_all add: HACLOG_MAX_PATH_def is_sep_def\<close>)
  with False show ?thesis by simp
qed

lemma dir_there_calls [simp]: "dir_there p (w\<lparr>w_calls := n\<rparr>) = dir_there p w"
  by (simp add: dir_there_def)

lemma fopen_append:
  assumes "no_faults w" and "file_name p d b" and "dir_there d w" and "p \<notin> w_dirs w" and "deref mode = CHR ''a''"
  shows "\<exists>w'. posix_fopen p mode w = (Some (F_file p True True 0), w') \<and> no_faults w' \<and> w_dirs w' = w_dirs w \<and>
    w_files w' = (w_files w)(p \<mapsto> file_text p w)"
proof -
  have "p \<noteq> []" "p \<noteq> ''/''" using assms(2) by (auto simp: file_name_def append_eq_Cons_conv)
  then show ?thesis using assms file_name_parent [OF assms(2)]
    by (auto simp: posix_fopen_def no_fault_call Let_def file_text_def fun_upd_idem split: option.splits)
qed

text \<open>The directories a path goes through.\<close>

definition dirs_of :: "string \<Rightarrow> string set" where
  "dirs_of d = {q. \<exists>r. d = q @ r \<and> q \<noteq> [] \<and> q \<noteq> ''/'' \<and> (r = [] \<or> hd r = CHR ''/'')}"

lemma os_fopen_append:
  assumes faults: "no_faults w" and p: "file_name p d b" and way: "way_free d w" and dirs: "p \<notin> w_dirs w"
    and mode: "deref mode = CHR ''a''" and locals: "length (snd (snd locals)) = HACLOG_MAX_PATH"
  shows "\<exists>w'. haclog_os_fopen locals p mode w = Some (Some (F_file p True True 0), w') \<and> no_faults w' \<and>
    w_files w' = (w_files w)(p \<mapsto> file_text p w) \<and> dir_there d w' \<and> p \<notin> w_dirs w' \<and>
    w_dirs w \<subseteq> w_dirs w' \<and> w_dirs w' \<subseteq> w_dirs w \<union> dirs_of d"
proof -
  obtain cur tmp dirbuf where l: "locals = (cur, tmp, dirbuf)" by (cases locals) auto
  let ?d = "if d = [] then ''/'' else d"
  obtain dir where dir: "haclog_path_dirname p dirbuf (int HACLOG_MAX_PATH) = Some (HACLOG_ERR_OK, dir)"
    "cstr_at dir 0 = Some ?d"
    using file_name_dirname [OF p, of dirbuf] locals l by auto
  have dfile: "d \<notin> dom (w_files w)" using way by (auto simp: way_free_def)
  have "\<exists>found w1. haclog_path_exists ?d w = (found, w1) \<and> no_faults w1 \<and> w_files w1 = w_files w \<and>
      w_dirs w1 = w_dirs w \<and> (found \<longleftrightarrow> d = [] \<or> d = ''/'' \<or> d \<in> w_dirs w)"
    using faults dfile by (cases "d = []") (auto simp: haclog_path_exists_def posix_access_def no_fault_call)
  then obtain found w1 where acc: "haclog_path_exists ?d w = (found, w1)" "no_faults w1" "w_files w1 = w_files w"
    "w_dirs w1 = w_dirs w" "found \<longleftrightarrow> d = [] \<or> d = ''/'' \<or> d \<in> w_dirs w" by blast
  have step: "haclog_os_fopen locals p mode w =
      (if found then Some (posix_fopen p mode w1)
       else (case haclog_os_mkdir ?d w1 of
               (ret, w) \<Rightarrow> if ret \<noteq> HACLOG_ERR_OK then Some (None, w) else Some (posix_fopen p mode w)))"
    by (simp add: haclog_os_fopen_def l abs_filepath_def file_name_isabs [OF p] dir acc(1) split: bool.splits)
  show ?thesis
  proof (cases found)
    case True
    then have "dir_there d w1" using acc dfile by (auto simp: dir_there_def)
    with fopen_append [OF acc(2) p this _ mode] acc dirs step True show ?thesis
      by (auto simp: file_text_def dir_there_def)
  next
    case False
    then have d: "d \<noteq> []" "?d = d" using acc(5) by auto
    have len: "length d \<le> 1023" using p by (auto simp: file_name_def)
    have "way_free d w1" using way acc(3) by (simp add: way_free_def)
    from os_mkdir_chain [OF acc(2) d(1) len this] obtain w2 where
      w2: "haclog_os_mkdir d w1 = (HACLOG_ERR_OK, w2)" "no_faults w2" "w_files w2 = w_files w1"
      "w_dirs w2 = w_dirs w1 \<union> dirs_of d" by (auto simp: dirs_of_def)
    have "d \<in> dirs_of d" using d(1) False acc(5) by (auto simp: dirs_of_def)
    then have there: "dir_there d w2" using w2(4) by (simp add: dir_there_def)
    have "p \<notin> dirs_of d" using p by (auto simp: dirs_of_def file_name_def)
    then have "p \<notin> w_dirs w2" using w2(4) acc(4) dirs by simp
    with fopen_append [OF w2(2) p there _ mode] obtain w' where
      "posix_fopen p mode w2 = (Some (F_file p True True 0), w')" "no_faults w'" "w_dirs w' = w_dirs w2"
      "w_files w' = (w_files w2)(p \<mapsto> file_text p w2)" by blast
    moreover have "dir_there d w'" using there calculation(3) by (simp add: dir_there_def)
    ultimately show ?thesis using step False d(2) w2 acc \<open>p \<notin> w_dirs w2\<close> by (auto simp: file_text_def)
  qed
qed



section \<open>The file handler\<close>

lemma file_init_append:
  assumes "no_faults w" and p: "file_name p d b" and "way_free d w" and "p \<notin> w_dirs w"
    and "deref mode = CHR ''a''" and "length (snd (snd (snd locals))) = HACLOG_MAX_PATH"
  obtains w1 where "haclog_file_handler_init gm junk locals p mode w =
      Some (HACLOG_ERR_OK, Some (file_ops gm junk), \<lparr>fh_fp = Some (F_file p True True 0)\<rparr>, w1)"
    "file_ready \<lparr>fh_fp = Some (F_file p True True 0)\<rparr> w1" "file_text p w1 = file_text p w"
proof -
  from os_fopen_append [OF assms] obtain w1 where
    w1: "haclog_os_fopen (snd locals) p mode w = Some (Some (F_file p True True 0), w1)" "no_faults w1"
    "w_files w1 = (w_files w)(p \<mapsto> file_text p w)" by blast
  have "haclog_file_handler_init gm junk locals p mode w =
      Some (HACLOG_ERR_OK, Some (file_ops gm junk), \<lparr>fh_fp = Some (F_file p True True 0)\<rparr>, w1)"
    by (simp add: haclog_file_handler_init_def abs_filepath_def file_name_isabs [OF p] w1(1))
  moreover have "appends (Some (F_file p True True 0)) p w1" using w1 by (auto simp: appends_def)
  ultimately show ?thesis using that w1(3) by (auto simp: file_ready_def fp_path_def file_text_def)
qed

text \<open>
  C25: a file handler opened in append mode, and a line written through it. When no call fails and the
  name is free for a file, \<open>haclog_file_handler_init\<close> succeeds, and \<open>haclog_handler_write\<close> then adds
  to the file's contents the meta line, the message and a newline, exactly, and returns the
  length of meta line and message.
\<close>

theorem file_line:
  assumes "no_faults w" and "file_name p d b" and "way_free d w" and "p \<notin> w_dirs w"
    and "deref mode = CHR ''a''" and "length (snd (snd (snd locals))) = HACLOG_MAX_PATH"
    and "haclog_path_basename (loc_file (mi_loc m)) junk 256 = Some (e, buf)" and "cstr_at buf 0 = Some name"
    and "0 \<le> n" and "n \<le> int (length msg)"
    and "line = c_format None meta_format (meta_args gm name m)" and "int (length line) + n < 2147483648"
  shows "\<exists>h st w1 st' w'. haclog_file_handler_init gm junk locals p mode w = Some (HACLOG_ERR_OK, Some h, st, w1) \<and>
    haclog_handler_write h m msg n st w1 = Some (int (length line) + n, st', w') \<and>
    file_text p w' = file_text p w @ line @ take (nat n) msg @ [CHR 0x0A]"
proof -
  let ?st = "\<lparr>fh_fp = Some (F_file p True True 0)\<rparr>"
  obtain w1 where init: "haclog_file_handler_init gm junk locals p mode w =
      Some (HACLOG_ERR_OK, Some (file_ops gm junk), ?st, w1)"
    "file_ready ?st w1" "file_text p w1 = file_text p w"
    using file_init_append [OF assms(1-6)] by blast
  have "hd_write_meta (file_ops gm junk) = haclog_handler_default_write_meta gm junk"
    by (simp add: file_ops_def)
  from file_sink.write_line [OF init(2) this assms(7-12)] obtain st1 st' w' where
    "haclog_handler_write (file_ops gm junk) m msg n ?st w1 = Some (int (length line) + n, st', w')"
    "fp_path (fh_fp st1) = fp_path (fh_fp ?st)"
    "file_out m st1 w' = file_out m ?st w1 @ [] @ line @ take (nat n) msg @ [CHR 0x0A]" by blast
  with init show ?thesis by (auto simp: file_out_def fp_path_def)
qed

lemma file_line_witness:
  "\<exists>h st w1 st' w'. haclog_file_handler_init demo_gmtime (replicate 256 NUL)
      ((replicate 1024 NUL, replicate 1024 NUL), replicate 1024 NUL, replicate 1024 NUL, replicate 1024 NUL)
      ''/x.log'' ''ab'' demo_sys = Some (HACLOG_ERR_OK, Some h, st, w1) \<and>
    haclog_handler_write h (demo_meta 768) ''hi'' 2 st w1 = Some (52, st', w') \<and>
    file_text ''/x.log'' w' = ''WARNING|1970-01-01T00:00:00.000000005|a.c:7|f|9 - hi'' @ [CHR 0x0A]"
proof -
  let ?l = "((replicate 1024 NUL, replicate 1024 NUL), replicate 1024 NUL, replicate 1024 NUL, replicate 1024 NUL)"
  obtain buf where buf: "haclog_path_basename (loc_file (mi_loc (demo_meta 768))) (replicate 256 NUL) 256 =
      Some (HACLOG_ERR_OK, buf)" "cstr_at buf 0 = Some ''a.c''" using demo_name by blast
  have sys: "no_faults demo_sys" "way_free [] demo_sys" "''/x.log'' \<notin> w_dirs demo_sys"
    "file_text ''/x.log'' demo_sys = []"
    by (simp_all add: demo_sys_def no_faults_def way_free_def file_text_def)
  have p: "file_name ''/x.log'' [] ''x.log''" by (simp add: file_name_def NUL_def is_sep_def)
  have mode: "deref ''ab'' = CHR ''a''" by simp
  have l: "length (snd (snd (snd ?l))) = HACLOG_MAX_PATH"
    by (simp only: snd_conv length_replicate HACLOG_MAX_PATH_def)
  have len: "(0::int) \<le> 2" "(2::int) \<le> int (length ''hi'')" by simp_all
  have fits: "int (length (''WARNING|1970-01-01T00:00:00.000000005|a.c:7|f|9 - '')) + 2 < 2147483648" by simp
  from file_line [OF sys(1) p sys(2,3) mode l buf len demo_line [symmetric] fits] obtain h st w1 st' w' where
    r: "haclog_file_handler_init demo_gmtime (replicate 256 NUL) ?l ''/x.log'' ''ab'' demo_sys = Some (HACLOG_ERR_OK, Some h, st, w1)"
    "haclog_handler_write h (demo_meta 768) ''hi'' 2 st w1 =
       Some (int (length ''WARNING|1970-01-01T00:00:00.000000005|a.c:7|f|9 - '') + 2, st', w')"
    "file_text ''/x.log'' w' = file_text ''/x.log'' demo_sys @ ''WARNING|1970-01-01T00:00:00.000000005|a.c:7|f|9 - '' @
       take (nat 2) ''hi'' @ [CHR 0x0A]" by blast
  have "int (length ''WARNING|1970-01-01T00:00:00.000000005|a.c:7|f|9 - '') + 2 = 52"
    "take (nat 2) ''hi'' = ''hi''" by simp_all
  with r sys(4) show ?thesis
    by (intro exI [of _ h] exI [of _ st] exI [of _ w1] exI [of _ st'] exI [of _ w']) simp
qed

end
