(* ===== verification/Haclog_Rotate.thy ===== *)
theory Haclog_Rotate
  imports Haclog_Open
begin

text \<open>
  \<open>haclog_file_rotate_handler.c\<close>: lines appended to a file that is rotated through numbered backups
  when it has grown to \<open>max_bytes\<close>.
\<close>

section \<open>Rotation\<close>

record rotate_handler =
  rh_filepath :: string
  rh_fp :: "c_file option"
  rh_backup_count :: int
  rh_max_bytes :: int
  rh_offset :: int

definition backup_name :: "nat \<Rightarrow> string \<Rightarrow> int \<Rightarrow> string" where
  "backup_name n filepath i = c_snprint n ''%s.%d'' [C_str filepath, C_int i]"

text \<open>The loop over \<open>i\<close>, from its first value down to 1.\<close>

fun rotate_loop :: "string \<Rightarrow> nat \<Rightarrow> world \<Rightarrow> world" where
  "rotate_loop filepath 0 w = w"
| "rotate_loop filepath (Suc i) w =
     (case haclog_os_rename (backup_name HACLOG_MAX_PATH filepath (int (Suc i)))
             (backup_name HACLOG_MAX_PATH filepath (int (Suc i) + 1)) w of
        (_, w) \<Rightarrow> rotate_loop filepath i w)"

text \<open>\<open>snprintf\<close> does not fail for these formats, so the branches on a negative result are not taken.\<close>

definition haclog_file_rotate_handler_rotate ::
  "rotate_handler \<Rightarrow> world \<Rightarrow> haclog_error \<times> rotate_handler \<times> world" where
  "haclog_file_rotate_handler_rotate handler w =
     (let handler = (case rh_fp handler of None \<Rightarrow> handler | Some fp \<Rightarrow> handler\<lparr>rh_fp := None\<rparr>);
          f = rh_filepath handler;
          buf = backup_name (HACLOG_MAX_PATH - 1) f (c_int (rh_backup_count handler));
          (found, w) = haclog_path_exists buf w;
          w = (if found then snd (haclog_os_remove buf w) else w);
          w = rotate_loop f (nat (c_int (rh_backup_count handler) - 1)) w;
          dst = c_snprint HACLOG_MAX_PATH ''%s.1'' [C_str f];
          (_, w) = haclog_os_rename f dst w
      in (case posix_fopen f ''ab+'' w of
            (None, w) \<Rightarrow> (HACLOG_ERR_SYS_CALL, handler\<lparr>rh_fp := None\<rparr>, w)
          | (Some fp, w) \<Rightarrow> (HACLOG_ERR_OK, handler\<lparr>rh_fp := Some fp, rh_offset := 0\<rparr>, w)))"

section \<open>The handler\<close>

definition haclog_file_rotate_handler_before_write :: "meta_info \<Rightarrow> rotate_handler act" where
  "haclog_file_rotate_handler_before_write meta handler w = Some (0, handler, w)"

definition haclog_file_rotate_handler_after_write :: "meta_info \<Rightarrow> rotate_handler act" where
  "haclog_file_rotate_handler_after_write meta handler w =
     (case rh_fp handler of
        None \<Rightarrow> Some (0, handler, w)
      | Some fp \<Rightarrow>
          (case c_fwrite [CHR 0x0A] fp w of
             (_, fp, w) \<Rightarrow>
               (let handler = handler\<lparr>rh_fp := Some fp, rh_offset := c_s64 (rh_offset handler + 1)\<rparr>
                in if rh_offset handler \<ge> rh_max_bytes handler
                   then (case haclog_file_rotate_handler_rotate handler w of
                           (e, handler, w) \<Rightarrow>
                             if e \<noteq> HACLOG_ERR_OK
                             then (case c_vfprintf (''failed rotate log handler'' @ [CHR 0x0A]) [] F_stderr w of
                                     (_, _, w) \<Rightarrow> Some (0, handler, w))
                             else Some (0, handler, w))
                   else Some (0, handler, w))))"

definition haclog_file_rotate_handler_write :: "string \<Rightarrow> int \<Rightarrow> rotate_handler act" where
  "haclog_file_rotate_handler_write msg msglen handler w =
     (case rh_fp handler of
        None \<Rightarrow> Some (0, handler, w)
      | Some fp \<Rightarrow>
          (case c_fwrite (take (nat msglen) msg) fp w of
             (n, fp, w) \<Rightarrow>
               Some (c_int n, handler\<lparr>rh_fp := Some fp, rh_offset := c_s64 (rh_offset handler + c_int n)\<rparr>, w)))"

definition haclog_file_rotate_handler_writev :: "rotate_handler writev" where
  "haclog_file_rotate_handler_writev fmt_str args handler w =
     (case rh_fp handler of
        None \<Rightarrow> Some (0, handler, w)
      | Some fp \<Rightarrow>
          (case c_vfprintf fmt_str args fp w of
             (n, fp, w) \<Rightarrow>
               Some (n, handler\<lparr>rh_fp := Some fp, rh_offset := c_s64 (rh_offset handler + n)\<rparr>, w)))"

definition haclog_file_rotate_handler_destroy :: "rotate_handler \<Rightarrow> world \<Rightarrow> rotate_handler \<times> world" where
  "haclog_file_rotate_handler_destroy handler w =
     (case rh_fp handler of None \<Rightarrow> (handler, w) | Some fp \<Rightarrow> (handler\<lparr>rh_fp := None\<rparr>, w))"

definition rotate_ops :: "(int \<Rightarrow> tm) \<Rightarrow> block \<Rightarrow> rotate_handler haclog_handler" where
  "rotate_ops gm junk = \<lparr>hd_before_write = haclog_file_rotate_handler_before_write,
     hd_write_meta = haclog_handler_default_write_meta gm junk,
     hd_write = haclog_file_rotate_handler_write, hd_writev = haclog_file_rotate_handler_writev,
     hd_after_write = haclog_file_rotate_handler_after_write, hd_destroy = haclog_file_rotate_handler_destroy,
     hd_level = HACLOG_LEVEL_INFO\<rparr>"

definition rotate_zero :: rotate_handler where
  "rotate_zero = \<lparr>rh_filepath = [], rh_fp = None, rh_backup_count = 0, rh_max_bytes = 0, rh_offset = 0\<rparr>"

text \<open>The result of the rotation at start-up is not looked at.\<close>

definition haclog_file_rotate_handler_init ::
  "(int \<Rightarrow> tm) \<Rightarrow> block \<Rightarrow> (block \<times> block) \<times> (block \<times> block \<times> block) \<Rightarrow> string \<Rightarrow> int \<Rightarrow> int \<Rightarrow> world \<Rightarrow>
   (haclog_error \<times> rotate_handler haclog_handler option \<times> rotate_handler \<times> world) option" where
  "haclog_file_rotate_handler_init gm junk locals filepath max_bytes backup_count w =
     (case abs_filepath (fst locals) filepath w of
        None \<Rightarrow> None
      | Some (Inl e, w) \<Rightarrow> Some (e, None, rotate_zero, w)
      | Some (Inr path, w) \<Rightarrow>
          (case haclog_os_fopen (snd locals) path ''ab+'' w of
             None \<Rightarrow> None
           | Some (None, w) \<Rightarrow> Some (HACLOG_ERR_SYS_CALL, None, rotate_zero, w)
           | Some (Some fp, w) \<Rightarrow>
               (let (fp, offset) = c_tell_end fp w;
                    handler = \<lparr>rh_filepath = take (HACLOG_MAX_PATH - 1) path, rh_fp = Some fp,
                      rh_backup_count = backup_count, rh_max_bytes = max_bytes, rh_offset = offset\<rparr>;
                    (handler, w) =
                      (if rh_offset handler \<ge> rh_max_bytes handler
                       then snd (haclog_file_rotate_handler_rotate handler w) else (handler, w))
                in Some (HACLOG_ERR_OK, Some (rotate_ops gm junk), handler, w))))"

section \<open>Backup names\<close>

lemma num_of_append: "num_of (s @ [c]) n = 10 * num_of s n + (of_char c - 48)"
  by (induction s arbitrary: n) simp_all

lemma of_char_digit: "k < 10 \<Longrightarrow> (of_char (digit k) :: nat) = 48 + k"
proof -
  assume "k < 10"
  then have "k \<in> {0, 1, 2, 3, 4, 5, 6, 7, 8, 9}" by auto
  then show ?thesis by (elim insertE emptyE) (simp_all add: digit_def)
qed

lemma num_of_dec: "num_of (dec n) 0 = n"
proof (induction n rule: dec.induct)
  case (1 n)
  show ?case
  proof (cases "n < 10")
    case True
    then show ?thesis by (simp add: dec.simps [of n] of_char_digit)
  next
    case False
    with 1 show ?thesis by (simp add: dec.simps [of n] num_of_append of_char_digit)
  qed
qed

lemma dec_inj: "dec m = dec n \<longleftrightarrow> m = n"
  using num_of_dec by metis

lemma c_format_literal: "CHR ''%'' \<notin> set s \<Longrightarrow> c_format None s as = s"
  by (induction s) auto

definition backup :: "string \<Rightarrow> nat \<Rightarrow> string" where
  "backup f i = f @ CHR ''.'' # dec i"

lemma dec_length: "n < 10 ^ k \<Longrightarrow> 0 < k \<Longrightarrow> length (dec n) \<le> k"
proof (induction n arbitrary: k rule: dec.induct)
  case (1 n)
  show ?case
  proof (cases "n < 10")
    case True
    with 1 show ?thesis by (simp add: dec.simps [of n])
  next
    case False
    obtain k' where k': "k = Suc k'" using "1.prems" by (cases k) auto
    moreover have "0 < k'" using False "1.prems"(1) k' by (cases k') auto
    ultimately have k: "k = Suc k'" "0 < k'" by simp_all
    then have "n div 10 < 10 ^ k'" using "1.prems"(1) by simp
    with "1.IH" [OF False _ k(2)] show ?thesis by (simp add: dec.simps [of n] False k)
  qed
qed

lemma backup_name_eq:
  assumes "length f + 11 < n" and "i < 2147483648"
  shows "backup_name n f (int i) = backup f i"
proof -
  have "length (dec i) \<le> 10" using assms(2) by (intro dec_length) simp_all
  then have "length (backup f i) \<le> n - 1" using assms(1) by (simp add: backup_def)
  then show ?thesis
    using assms(2) by (simp add: backup_name_def c_snprint_def backup_def c_int_id sdec_pad_def zero_pad_def)
qed

lemma backup_inj [simp]: "backup f i = backup f j \<longleftrightarrow> i = j"
  by (simp add: backup_def dec_inj)

lemma backup_neq [simp]: "backup f i \<noteq> f" "f \<noteq> backup f i"
  by (simp_all add: backup_def)

lemma parent_dir_append: "CHR ''/'' \<notin> set s \<Longrightarrow> parent_dir (p @ s) = parent_dir p"
proof (induction s rule: rev_induct)
  case (snoc c s)
  then show ?case using parent_dir_snoc [of "p @ s" c] by (cases "c = CHR ''/''") simp_all
qed simp

lemma backup_parent: "parent_dir (backup f i) = parent_dir f"
  using dec_plain parent_dir_append [of "CHR ''.'' # dec i" f] by (auto simp: backup_def)

section \<open>What a rotation does to the files\<close>

definition rotatable :: "string \<Rightarrow> world \<Rightarrow> bool" where
  "rotatable f w \<longleftrightarrow> no_faults w \<and> f \<noteq> [] \<and> f \<noteq> ''/'' \<and> dir_there (parent_dir f) w \<and> f \<notin> w_dirs w \<and>
     (\<forall>i. backup f i \<notin> w_dirs w) \<and> length f + 12 < HACLOG_MAX_PATH"

lemma rotatable_cong:
  "rotatable f w \<Longrightarrow> no_faults w' \<Longrightarrow> w_dirs w' = w_dirs w \<Longrightarrow> rotatable f w'"
  by (simp add: rotatable_def dir_there_def)

lemma os_rename_backup:
  assumes "rotatable f w" and "src \<noteq> backup f i"
  shows "\<exists>e w'. haclog_os_rename src (backup f i) w = (e, w') \<and> rotatable f w' \<and> w_dirs w' = w_dirs w \<and>
    w_files w' = (case w_files w src of None \<Rightarrow> w_files w | Some t \<Rightarrow> (w_files w)(src := None, backup f i \<mapsto> t))"
proof -
  have "dir_there (parent_dir (backup f i)) w" "backup f i \<notin> w_dirs w" "no_faults w"
    using assms(1) by (simp_all add: rotatable_def backup_parent)
  then show ?thesis using assms
    by (auto simp: haclog_os_rename_def posix_rename_def no_fault_call rotatable_def dir_there_def split: option.splits)
qed

lemma rotate_loop_shifts:
  "rotatable f w \<Longrightarrow> w_files w (backup f (Suc n)) = None \<Longrightarrow> n < 2147483647 \<Longrightarrow>
   rotatable f (rotate_loop f n w) \<and> w_dirs (rotate_loop f n w) = w_dirs w \<and>
   w_files (rotate_loop f n w) (backup f 1) = None \<and>
   (\<forall>i. 1 \<le> i \<and> i \<le> n \<longrightarrow> w_files (rotate_loop f n w) (backup f (Suc i)) = w_files w (backup f i)) \<and>
   (\<forall>p. (\<forall>i. 1 \<le> i \<and> i \<le> Suc n \<longrightarrow> p \<noteq> backup f i) \<longrightarrow> w_files (rotate_loop f n w) p = w_files w p)"
proof (induction n arbitrary: w)
  case (Suc n)
  have names: "backup_name HACLOG_MAX_PATH f (int (Suc n)) = backup f (Suc n)"
    "backup_name HACLOG_MAX_PATH f (int (Suc n) + 1) = backup f (Suc (Suc n))"
    using Suc.prems backup_name_eq [of f HACLOG_MAX_PATH "Suc n"] backup_name_eq [of f HACLOG_MAX_PATH "Suc (Suc n)"]
    by (simp_all add: rotatable_def add.commute)
  obtain e w1 where w1: "haclog_os_rename (backup f (Suc n)) (backup f (Suc (Suc n))) w = (e, w1)"
    "rotatable f w1" "w_dirs w1 = w_dirs w"
    "w_files w1 = (case w_files w (backup f (Suc n)) of None \<Rightarrow> w_files w
      | Some t \<Rightarrow> (w_files w)(backup f (Suc n) := None, backup f (Suc (Suc n)) \<mapsto> t))"
    using os_rename_backup [OF Suc.prems(1), of "backup f (Suc n)" "Suc (Suc n)"] by auto
  have files1: "w_files w1 (backup f (Suc n)) = None" "w_files w1 (backup f (Suc (Suc n))) = w_files w (backup f (Suc n))"
    "p \<noteq> backup f (Suc n) \<Longrightarrow> p \<noteq> backup f (Suc (Suc n)) \<Longrightarrow> w_files w1 p = w_files w p" for p
    using Suc.prems(2) by (auto simp: w1(4) split: option.splits)
  have loop: "rotate_loop f (Suc n) w = rotate_loop f n w1" using w1(1) by (simp only: rotate_loop.simps names prod.case)
  note IH = Suc.IH [OF w1(2) files1(1)]
  have "n < 2147483647" using Suc.prems(3) by simp
  note IH = IH [OF this]
  have "w_files (rotate_loop f n w1) (backup f (Suc i)) = w_files w (backup f i)" if "1 \<le> i" "i \<le> Suc n" for i
  proof (cases "i = Suc n")
    case True
    have "\<forall>i. 1 \<le> i \<and> i \<le> Suc n \<longrightarrow> backup f (Suc (Suc n)) \<noteq> backup f i" by simp
    with IH have "w_files (rotate_loop f n w1) (backup f (Suc (Suc n))) = w_files w1 (backup f (Suc (Suc n)))" by blast
    then show ?thesis using True files1(2) by simp
  next
    case False
    with that have "1 \<le> i \<and> i \<le> n" by simp
    with IH have "w_files (rotate_loop f n w1) (backup f (Suc i)) = w_files w1 (backup f i)" by blast
    then show ?thesis using files1(3) [of "backup f i"] False that by simp
  qed
  moreover have "w_files (rotate_loop f n w1) p = w_files w p" if "\<forall>i. 1 \<le> i \<and> i \<le> Suc (Suc n) \<longrightarrow> p \<noteq> backup f i" for p
  proof -
    from that have "\<forall>i. 1 \<le> i \<and> i \<le> Suc n \<longrightarrow> p \<noteq> backup f i" by simp
    with IH have "w_files (rotate_loop f n w1) p = w_files w1 p" by blast
    then show ?thesis using files1(3) [of p] that by simp
  qed
  ultimately show ?case using IH w1(3) unfolding loop by auto
qed simp

lemma rotate_result:
  assumes ok: "rotatable f w" and K: "int K = rh_backup_count handler" "1 \<le> K" "K < 2147483648"
    and f: "rh_filepath handler = f"
  shows "\<exists>w'. haclog_file_rotate_handler_rotate handler w =
      (HACLOG_ERR_OK, handler\<lparr>rh_fp := Some (F_file f True True 0), rh_offset := 0\<rparr>, w') \<and>
    rotatable f w' \<and> w_dirs w' = w_dirs w \<and> w_files w' f = Some [] \<and>
    w_files w' (backup f 1) = w_files w f \<and>
    (\<forall>i. 1 \<le> i \<and> i < K \<longrightarrow> w_files w' (backup f (Suc i)) = w_files w (backup f i)) \<and>
    (\<forall>p. p \<noteq> f \<and> (\<forall>i. 1 \<le> i \<and> i \<le> K \<longrightarrow> p \<noteq> backup f i) \<longrightarrow> w_files w' p = w_files w p)"
proof -
  have c: "c_int (rh_backup_count handler) = int K" using K by (simp add: c_int_id flip: K(1))
  have "length f + 11 < HACLOG_MAX_PATH - 1" using ok unfolding rotatable_def by linarith
  then have name: "backup_name (HACLOG_MAX_PATH - 1) f (int K) = backup f K" using K(3) by (rule backup_name_eq)
  have name1: "c_snprint HACLOG_MAX_PATH ''%s.1'' [C_str f] = backup f 1"
  proof -
    have "length (f @ ''.1'') \<le> HACLOG_MAX_PATH - 1" using ok unfolding rotatable_def by (simp, linarith)
    moreover have "backup f 1 = f @ ''.1''" by (simp add: backup_def dec.simps digit_def)
    ultimately show ?thesis by (simp add: c_snprint_def)
  qed
  obtain found w1 where w1: "haclog_path_exists (backup f K) w = (found, w1)" "found \<longleftrightarrow> w_files w (backup f K) \<noteq> None"
    "w_files w1 = w_files w" "rotatable f w1" "w_dirs w1 = w_dirs w"
    using ok by (auto simp: haclog_path_exists_def posix_access_def no_fault_call rotatable_def dir_there_def
        backup_def append_eq_Cons_conv)
  define w2 where "w2 = (if found then snd (haclog_os_remove (backup f K) w1) else w1)"
  have w2: "rotatable f w2" "w_dirs w2 = w_dirs w" "w_files w2 (backup f K) = None"
    "\<And>p. p \<noteq> backup f K \<Longrightarrow> w_files w2 p = w_files w p"
    using w1 unfolding w2_def haclog_os_remove_def posix_remove_def rotatable_def dir_there_def
    by (auto simp: no_fault_call split: if_splits)
  have "w_files w2 (backup f (Suc (K - 1))) = None" "K - 1 < 2147483647" using w2(3) K by simp_all
  note loop = rotate_loop_shifts [OF w2(1) this]
  define w3 where "w3 = rotate_loop f (K - 1) w2"
  have w3: "rotatable f w3" "w_dirs w3 = w_dirs w" "w_files w3 (backup f 1) = None"
    "\<And>i. 1 \<le> i \<Longrightarrow> i \<le> K - 1 \<Longrightarrow> w_files w3 (backup f (Suc i)) = w_files w2 (backup f i)"
    "\<And>p. \<forall>i. 1 \<le> i \<and> i \<le> K \<longrightarrow> p \<noteq> backup f i \<Longrightarrow> w_files w3 p = w_files w2 p"
    using loop w2(2) K(2) unfolding w3_def by auto
  obtain e w4 where w4: "haclog_os_rename f (backup f 1) w3 = (e, w4)" "rotatable f w4" "w_dirs w4 = w_dirs w3"
    "w_files w4 = (case w_files w3 f of None \<Rightarrow> w_files w3 | Some t \<Rightarrow> (w_files w3)(f := None, backup f 1 \<mapsto> t))"
    using os_rename_backup [OF w3(1), of f 1] by auto
  have files4: "w_files w4 f = None" "w_files w4 (backup f 1) = w_files w f"
    "\<And>p. p \<noteq> f \<Longrightarrow> p \<noteq> backup f 1 \<Longrightarrow> w_files w4 p = w_files w3 p"
    using w3(3,5) w2(4) [of f] unfolding w4(4) by (auto split: option.splits)
  obtain w5 where w5: "posix_fopen f ''ab+'' w4 = (Some (F_file f True True 0), w5)" "rotatable f w5"
    "w_dirs w5 = w_dirs w4" "w_files w5 = (w_files w4)(f \<mapsto> [])"
    using w4(2) files4(1) by (auto simp: posix_fopen_def no_fault_call rotatable_def dir_there_def Let_def)
  have "haclog_file_rotate_handler_rotate handler w =
      (HACLOG_ERR_OK, handler\<lparr>rh_fp := Some (F_file f True True 0), rh_offset := 0\<rparr>, w5)"
  proof -
    have k: "nat (int K - 1) = K - 1" by simp
    have h0: "rh_filepath (case rh_fp handler of None \<Rightarrow> handler | Some fp \<Rightarrow> handler\<lparr>rh_fp := None\<rparr>) = f"
      "rh_backup_count (case rh_fp handler of None \<Rightarrow> handler | Some fp \<Rightarrow> handler\<lparr>rh_fp := None\<rparr>) =
        rh_backup_count handler"
      "(case rh_fp handler of None \<Rightarrow> handler | Some fp \<Rightarrow> handler\<lparr>rh_fp := None\<rparr>)\<lparr>rh_fp := x, rh_offset := 0\<rparr> =
        handler\<lparr>rh_fp := x, rh_offset := 0\<rparr>" for x
      using f by (auto split: option.splits)
    show ?thesis
      unfolding haclog_file_rotate_handler_rotate_def Let_def
      by (simp only: h0 c name name1 w1(1) prod.case k w2_def [symmetric] w3_def [symmetric] w4(1) w5(1) option.case)
  qed
  moreover have "w_files w5 (backup f (Suc i)) = w_files w (backup f i)" if "1 \<le> i" "i < K" for i
    using that w5(4) files4(3) w3(4) [of i] w2(4) [of "backup f i"] by simp
  moreover have "w_files w5 p = w_files w p" if "p \<noteq> f" "\<forall>i. 1 \<le> i \<and> i \<le> K \<longrightarrow> p \<noteq> backup f i" for p
  proof -
    from that(2) K(2) have "p \<noteq> backup f 1" "p \<noteq> backup f K" by auto
    then show ?thesis using that w5(4) files4(3) [of p] w3(5) [of p] w2(4) [of p] by simp
  qed
  ultimately show ?thesis using w5 w4(3) w3(2) files4(2)
    by (intro exI [of _ w5]) simp
qed

section \<open>The rotating handler keeps the contract\<close>

lemma c_s64_add: "c_s64 (c_s64 x + y) = c_s64 (x + y)"
  unfolding c_s64_def signed_take_bit_eq_take_bit_shift
  by (simp add: take_bit_eq_mod mod_simps algebra_simps)

text \<open>Between operations: an open, rotatable file, whose size is the offset the handler keeps.\<close>

definition rotate_ready :: "rotate_handler \<Rightarrow> world \<Rightarrow> bool" where
  "rotate_ready h w \<longleftrightarrow> appends (rh_fp h) (rh_filepath h) w \<and> rotatable (rh_filepath h) w \<and>
     rh_offset h = c_s64 (int (length (file_text (rh_filepath h) w))) \<and>
     1 \<le> rh_backup_count h \<and> rh_backup_count h < 2147483648"

definition rotate_out :: "meta_info \<Rightarrow> rotate_handler \<Rightarrow> world \<Rightarrow> string" where
  "rotate_out m h w = file_text (rh_filepath h) w"

definition rotate_due :: "rotate_handler \<Rightarrow> bool" where
  "rotate_due h \<longleftrightarrow> rh_max_bytes h \<le> c_s64 (rh_offset h + 1)"

definition rotate_fin :: "meta_info \<Rightarrow> rotate_handler \<Rightarrow> world \<Rightarrow> string" where
  "rotate_fin m h w = file_text (if rotate_due h then backup (rh_filepath h) 1 else rh_filepath h) w"

definition rotate_dest :: "rotate_handler \<Rightarrow> string \<times> int \<times> int" where
  "rotate_dest h = (rh_filepath h, rh_backup_count h, rh_max_bytes h)"

lemma rotatable_files: "rotatable f w \<Longrightarrow> no_faults w' \<Longrightarrow> w_dirs w' = w_dirs w \<Longrightarrow> rotatable f w'"
  by (rule rotatable_cong)

lemma rotate_fwrite:
  assumes "rotate_ready st w"
  obtains fp fp' w' where "rh_fp st = Some fp" "c_fwrite bs fp w = (int (length bs), fp', w')"
    "rotate_ready (st\<lparr>rh_fp := Some fp', rh_offset := c_s64 (rh_offset st + int (length bs))\<rparr>) w'"
    "file_text (rh_filepath st) w' = file_text (rh_filepath st) w @ bs"
    "\<And>p. p \<noteq> rh_filepath st \<Longrightarrow> w_files w' p = w_files w p"
proof -
  from assms obtain fp where fp: "rh_fp st = Some fp" by (auto simp: rotate_ready_def appends_def)
  with assms fwrite_file [of fp "rh_filepath st" w bs] obtain fp' w' where
    w': "c_fwrite bs fp w = (int (length bs), fp', w')" "appends (Some fp') (rh_filepath st) w'"
    "w_files w' = (w_files w)(rh_filepath st \<mapsto> file_text (rh_filepath st) w @ bs)" "w_dirs w' = w_dirs w"
    by (auto simp: rotate_ready_def)
  have "rotatable (rh_filepath st) w'"
    using assms w'(2,4) by (auto simp: rotate_ready_def dest: appends_faults intro: rotatable_cong)
  with that [OF fp w'(1)] w' assms file_text_written [OF w'(3)] show ?thesis
    by (simp add: rotate_ready_def c_s64_add)
qed

lemma rotate_after:
  assumes "rotate_ready st w"
  shows "\<exists>st' w'. haclog_file_rotate_handler_after_write m st w = Some (0, st', w') \<and> rotate_ready st' w' \<and>
    rotate_dest st' = rotate_dest st \<and> rotate_fin m st w' = rotate_out m st w @ [CHR 0x0A] \<and>
    (rotate_due st \<longrightarrow> rh_offset st' = 0 \<and> file_text (rh_filepath st) w' = [] \<and>
       (\<forall>i. 1 \<le> i \<and> i < nat (rh_backup_count st) \<longrightarrow>
          w_files w' (backup (rh_filepath st) (Suc i)) = w_files w (backup (rh_filepath st) i))) \<and>
    (\<not> rotate_due st \<longrightarrow> rh_offset st' = c_s64 (rh_offset st + 1) \<and>
       (\<forall>p. p \<noteq> rh_filepath st \<longrightarrow> w_files w' p = w_files w p))"
proof -
  let ?f = "rh_filepath st"
  obtain fp fp' w1 where w1: "rh_fp st = Some fp" "c_fwrite [CHR 0x0A] fp w = (1, fp', w1)"
    "rotate_ready (st\<lparr>rh_fp := Some fp', rh_offset := c_s64 (rh_offset st + 1)\<rparr>) w1"
    "file_text ?f w1 = file_text ?f w @ [CHR 0x0A]" "\<And>p. p \<noteq> ?f \<Longrightarrow> w_files w1 p = w_files w p"
    by (rule rotate_fwrite [OF assms, of "[CHR 0x0A]"]) simp
  let ?st = "st\<lparr>rh_fp := Some fp', rh_offset := c_s64 (rh_offset st + 1)\<rparr>"
  show ?thesis
  proof (cases "rotate_due st")
    case False
    then show ?thesis using w1
      by (simp add: haclog_file_rotate_handler_after_write_def rotate_due_def rotate_fin_def rotate_dest_def rotate_out_def)
  next
    case True
    define K where "K = nat (rh_backup_count st)"
    have K: "int K = rh_backup_count ?st" "1 \<le> K" "K < 2147483648"
      using assms by (auto simp: K_def rotate_ready_def nat_less_iff Suc_le_eq)
    have rot: "rotatable ?f w1" using w1(3) by (simp add: rotate_ready_def)
    obtain w' where w': "haclog_file_rotate_handler_rotate ?st w1 =
        (HACLOG_ERR_OK, ?st\<lparr>rh_fp := Some (F_file ?f True True 0), rh_offset := 0\<rparr>, w')"
      "rotatable ?f w'" "w_files w' ?f = Some []" "w_files w' (backup ?f 1) = w_files w1 ?f"
      "\<forall>i. 1 \<le> i \<and> i < K \<longrightarrow> w_files w' (backup ?f (Suc i)) = w_files w1 (backup ?f i)"
      using rotate_result [OF rot K] by auto
    have "no_faults w'" using w'(2) by (simp add: rotatable_def)
    then have "appends (Some (F_file ?f True True 0)) ?f w'" using w'(3) by (auto simp: appends_def)
    with w' assms have "rotate_ready (?st\<lparr>rh_fp := Some (F_file ?f True True 0), rh_offset := 0\<rparr>) w'"
      by (simp add: rotate_ready_def file_text_def c_s64_def)
    moreover have "file_text (backup ?f 1) w' = file_text ?f w @ [CHR 0x0A]"
      using w'(4) w1(4) by (simp add: file_text_def)
    moreover have "w_files w' (backup ?f (Suc i)) = w_files w (backup ?f i)" if "1 \<le> i \<and> i < K" for i
      using w'(5) that w1(5) by simp
    ultimately show ?thesis using w1(1,2) w'(1,3) True unfolding K_def [symmetric]
      by (simp add: haclog_file_rotate_handler_after_write_def rotate_due_def rotate_fin_def rotate_dest_def rotate_out_def
          file_text_def)
  qed
qed

text \<open>Between lines the log file is below the limit.\<close>

definition rotate_idle :: "rotate_handler \<Rightarrow> world \<Rightarrow> bool" where
  "rotate_idle h w \<longleftrightarrow> rotate_ready h w \<and> (0 < rh_max_bytes h \<longrightarrow> rh_offset h < rh_max_bytes h)"

interpretation rotate_sink: line_sink "rotate_ops gm junk" rotate_idle "\<lambda>m. rotate_ready" rotate_dest rotate_dest
  rotate_out rotate_fin "\<lambda>h m. []" "\<lambda>h m. [CHR 0x0A]"
proof unfold_locales
  fix st :: rotate_handler and w m n msg bs fmt as
  show "rotate_idle st w \<Longrightarrow> \<exists>n st' w'. hd_before_write (rotate_ops gm junk) m st w = Some (n, st', w') \<and>
      rotate_ready st' w' \<and> rotate_out m st' w' = rotate_out m st w @ [] \<and>
      rotate_dest st' = rotate_dest st \<and> rotate_dest st' = rotate_dest st \<and> [CHR 0x0A] = [CHR 0x0A]"
    by (simp add: rotate_ops_def haclog_file_rotate_handler_before_write_def rotate_idle_def)
  show "rotate_ready st w \<Longrightarrow> 0 < n \<Longrightarrow> n \<le> int (length msg) \<Longrightarrow> n < 2147483648 \<Longrightarrow>
      \<exists>st' w'. hd_write (rotate_ops gm junk) msg n st w = Some (n, st', w') \<and>
      rotate_ready st' w' \<and> rotate_out m st' w' = rotate_out m st w @ take (nat n) msg \<and>
      rotate_dest st' = rotate_dest st \<and> rotate_dest st' = rotate_dest st \<and> [CHR 0x0A] = [CHR 0x0A]"
    by (erule rotate_fwrite [where bs = "take (nat n) msg"])
      (auto simp: rotate_ops_def haclog_file_rotate_handler_write_def rotate_out_def rotate_dest_def c_int_id)
  show "rotate_ready st w \<Longrightarrow> bs = c_format None fmt as \<Longrightarrow> length bs < 2147483648 \<Longrightarrow>
      \<exists>st' w'. hd_writev (rotate_ops gm junk) fmt as st w = Some (int (length bs), st', w') \<and>
      rotate_ready st' w' \<and> rotate_out m st' w' = rotate_out m st w @ bs \<and>
      rotate_dest st' = rotate_dest st \<and> rotate_dest st' = rotate_dest st \<and> [CHR 0x0A] = [CHR 0x0A]"
    by (erule rotate_fwrite [where bs = bs])
      (auto simp: rotate_ops_def haclog_file_rotate_handler_writev_def c_vfprintf_def Let_def rotate_out_def rotate_dest_def)
  show "rotate_ready st w \<Longrightarrow> \<exists>n st' w'. hd_after_write (rotate_ops gm junk) m st w = Some (n, st', w') \<and>
      rotate_idle st' w' \<and> rotate_dest st' = rotate_dest st \<and>
      rotate_fin m st w' = rotate_out m st w @ [CHR 0x0A]"
    using rotate_after [of st w m] by (auto simp: rotate_ops_def rotate_idle_def rotate_due_def rotate_dest_def)
qed

section \<open>Properties\<close>

text \<open>
  C18: rotation. With K backups (at least one), when no call fails and the names are free for files,
  \<open>haclog_file_rotate_handler_rotate\<close> moves every backup one number up and the log file to backup 1,
  drops only backup K, continues with an empty log file and offset 0, and leaves every other file as
  it was.
\<close>

theorem rotate_shifts_backups:
  assumes "rotatable f w" and "int K = rh_backup_count handler" and "1 \<le> K" and "K < 2147483648"
    and "rh_filepath handler = f"
  shows "\<exists>w'. haclog_file_rotate_handler_rotate handler w =
      (HACLOG_ERR_OK, handler\<lparr>rh_fp := Some (F_file f True True 0), rh_offset := 0\<rparr>, w') \<and>
    w_files w' f = Some [] \<and> w_files w' (backup f 1) = w_files w f \<and>
    (\<forall>i. 1 \<le> i \<and> i < K \<longrightarrow> w_files w' (backup f (Suc i)) = w_files w (backup f i)) \<and>
    (\<forall>p. p \<noteq> f \<and> (\<forall>i. 1 \<le> i \<and> i \<le> K \<longrightarrow> p \<noteq> backup f i) \<longrightarrow> w_files w' p = w_files w p)"
  using rotate_result [OF assms] by blast

definition demo_rotate :: "rotate_handler" where
  "demo_rotate = \<lparr>rh_filepath = ''/x'', rh_fp = Some (F_file ''/x'' True True 0), rh_backup_count = 2,
     rh_max_bytes = 3, rh_offset = 3\<rparr>"

definition demo_logs :: world where
  "demo_logs = demo_sys\<lparr>w_files := [''/x'' \<mapsto> ''new'', ''/x.1'' \<mapsto> ''old'', ''/x.2'' \<mapsto> ''oldest'', ''/y'' \<mapsto> ''other'']\<rparr>"

lemma demo_backups: "backup ''/x'' 1 = ''/x.1''" "backup ''/x'' 2 = ''/x.2''"
  by (simp_all add: backup_def dec.simps digit_def)

lemma demo_rotatable: "rotatable ''/x'' demo_logs"
  by (simp add: rotatable_def demo_logs_def demo_sys_def no_faults_def dir_there_def parent_dir_def HACLOG_MAX_PATH_def)

lemma rotate_shifts_backups_witness:
  "\<exists>w'. haclog_file_rotate_handler_rotate demo_rotate demo_logs =
      (HACLOG_ERR_OK, demo_rotate\<lparr>rh_offset := 0\<rparr>, w') \<and>
    w_files w' ''/x'' = Some [] \<and> w_files w' ''/x.1'' = Some ''new'' \<and> w_files w' ''/x.2'' = Some ''old'' \<and>
    w_files w' ''/y'' = Some ''other''"
proof -
  have prems: "int 2 = rh_backup_count demo_rotate" "(1::nat) \<le> 2" "(2::nat) < 2147483648" "rh_filepath demo_rotate = ''/x''"
    by (simp_all add: demo_rotate_def)
  from rotate_shifts_backups [OF demo_rotatable prems] obtain w' where
    w': "haclog_file_rotate_handler_rotate demo_rotate demo_logs =
      (HACLOG_ERR_OK, demo_rotate\<lparr>rh_fp := Some (F_file ''/x'' True True 0), rh_offset := 0\<rparr>, w')"
    "w_files w' ''/x'' = Some []" "w_files w' (backup ''/x'' 1) = w_files demo_logs ''/x''"
    "\<forall>i. 1 \<le> i \<and> i < 2 \<longrightarrow> w_files w' (backup ''/x'' (Suc i)) = w_files demo_logs (backup ''/x'' i)"
    "\<forall>p. p \<noteq> ''/x'' \<and> (\<forall>i. 1 \<le> i \<and> i \<le> 2 \<longrightarrow> p \<noteq> backup ''/x'' i) \<longrightarrow> w_files w' p = w_files demo_logs p"
    by blast
  have "w_files w' (backup ''/x'' 2) = w_files demo_logs (backup ''/x'' 1)"
    using w'(4) [rule_format, of 1] by (simp add: numeral_2_eq_2)
  moreover have "w_files w' ''/y'' = w_files demo_logs ''/y''"
    using w'(5) [rule_format, of "''/y''"] by (simp add: backup_def)
  ultimately show ?thesis using w'(1-3) unfolding demo_backups
    by (intro exI [of _ w']) (simp add: demo_rotate_def demo_logs_def)
qed

lemma fopen_file_line: "c_tell_end (F_file p True True 0) w = (F_file p True True (length (file_text p w)), int (length (file_text p w)))"
  if "w_files w p \<noteq> None"
  using that by (auto simp: c_tell_end_def file_text_def)

text \<open>
  The limit on the file. \<open>haclog_file_rotate_handler_init\<close> on an existing or new file leaves a
  handler that is between lines: its file is open, its offset is the file's size (mod \<open>2 ^ 64\<close>), and
  the size is below a positive \<open>max_bytes\<close>, the old contents having been rotated away when it was not.
\<close>

theorem rotate_init_idle:
  assumes "no_faults w" and p: "file_name p d b" and "way_free d w" and "p \<notin> w_dirs w"
    and "length (snd (snd (snd locals))) = HACLOG_MAX_PATH"
    and names: "\<forall>i. backup p i \<notin> w_dirs w \<union> dirs_of d" and K: "1 \<le> backup_count" "backup_count < 2147483648"
    and size: "length (file_text p w) < 4611686018427387904"
  shows "\<exists>st w'. haclog_file_rotate_handler_init gm junk locals p max_bytes backup_count w =
      Some (HACLOG_ERR_OK, Some (rotate_ops gm junk), st, w') \<and> rotate_idle st w' \<and> rotate_dest st = (p, backup_count, max_bytes)"
proof -
  obtain w1 where w1: "haclog_os_fopen (snd locals) p ''ab+'' w = Some (Some (F_file p True True 0), w1)" "no_faults w1"
    "w_files w1 = (w_files w)(p \<mapsto> file_text p w)" "w_dirs w \<subseteq> w_dirs w1" "w_dirs w1 \<subseteq> w_dirs w \<union> dirs_of d"
    "dir_there d w1" "p \<notin> w_dirs w1"
    using os_fopen_append [OF assms(1-4) _ assms(5), of "''ab+''"] by auto
  let ?len = "int (length (file_text p w))"
  let ?st = "\<lparr>rh_filepath = p, rh_fp = Some (F_file p True True (length (file_text p w))),
    rh_backup_count = backup_count, rh_max_bytes = max_bytes, rh_offset = ?len\<rparr>"
  have p': "p \<noteq> []" "p \<noteq> ''/''" "length p \<le> 1000" using p by (auto simp: file_name_def append_eq_Cons_conv)
  have text1: "file_text p w1 = file_text p w" using w1(3) by (simp add: file_text_def)
  have rot: "rotatable p w1"
    using w1 p' names file_name_parent [OF p] by (auto simp: rotatable_def HACLOG_MAX_PATH_def)
  have ready: "rotate_ready ?st w1"
    using rot w1(2,3) K size text1 by (auto simp: rotate_ready_def appends_def c_s64_def signed_take_bit_int_eq_self)
  have init: "haclog_file_rotate_handler_init gm junk locals p max_bytes backup_count w =
      (let (handler, w') = (if ?len \<ge> max_bytes then snd (haclog_file_rotate_handler_rotate ?st w1) else (?st, w1))
       in Some (HACLOG_ERR_OK, Some (rotate_ops gm junk), handler, w'))"
    using w1(1,3) p'(3) fopen_file_line [of w1 p]
    by (simp add: haclog_file_rotate_handler_init_def abs_filepath_def file_name_isabs [OF p] Let_def text1
        HACLOG_MAX_PATH_def)
  show ?thesis
  proof (cases "?len \<ge> max_bytes")
    case False
    then show ?thesis using init ready by (simp add: rotate_idle_def rotate_dest_def)
  next
    case True
    define k where "k = nat backup_count"
    have k: "int k = rh_backup_count ?st" "1 \<le> k" "k < 2147483648" using K by (auto simp: k_def nat_less_iff Suc_le_eq)
    obtain w' where w': "haclog_file_rotate_handler_rotate ?st w1 =
        (HACLOG_ERR_OK, ?st\<lparr>rh_fp := Some (F_file p True True 0), rh_offset := 0\<rparr>, w')"
      "rotatable p w'" "w_files w' p = Some []"
      using rotate_result [OF rot k] by auto
    have "no_faults w'" using w'(2) by (simp add: rotatable_def)
    then have "appends (Some (F_file p True True 0)) p w'" using w'(3) by (auto simp: appends_def)
    with w' K show ?thesis using init True
      by (simp add: rotate_idle_def rotate_ready_def rotate_dest_def file_text_def c_s64_def)
  qed
qed

lemma demo_locals: "length (snd (snd (snd ((replicate 1024 NUL, replicate 1024 NUL), replicate 1024 NUL, replicate 1024 NUL, replicate 1024 NUL)))) =
    HACLOG_MAX_PATH"
  by (simp only: snd_conv length_replicate HACLOG_MAX_PATH_def)

lemma demo_log_name:
  "file_name ''/x'' [] ''x''" "way_free [] demo_logs" "''/x'' \<notin> w_dirs demo_logs" "no_faults demo_logs"
  by (simp_all add: file_name_def NUL_def is_sep_def way_free_def demo_logs_def demo_sys_def no_faults_def)

lemma rotate_init_idle_witness:
  "\<exists>st w'. haclog_file_rotate_handler_init demo_gmtime (replicate 256 NUL)
      ((replicate 1024 NUL, replicate 1024 NUL), replicate 1024 NUL, replicate 1024 NUL, replicate 1024 NUL)
      ''/x'' 3 2 demo_logs =
    Some (HACLOG_ERR_OK, Some (rotate_ops demo_gmtime (replicate 256 NUL)), st, w') \<and> rotate_idle st w' \<and>
    rotate_dest st = (''/x'', 2, 3)"
proof -
  have "\<forall>i. backup ''/x'' i \<notin> w_dirs demo_logs \<union> dirs_of []"
    by (simp add: demo_logs_def demo_sys_def dirs_of_def)
  moreover have "length (file_text ''/x'' demo_logs) < 4611686018427387904"
    by (simp add: file_text_def demo_logs_def)
  moreover have "(1::int) \<le> 2" "(2::int) < 2147483648" by simp_all
  ultimately show ?thesis
    using rotate_init_idle [OF demo_log_name(4,1,2,3) demo_locals] by blast
qed

text \<open>
  C20: a line through the rotating handler. Between lines, when no call fails, \<open>haclog_handler_write\<close>
  appends the meta line, the message and a newline to what the log file held and returns
  the length of the first two; the finished line stays whole at the end of the log file, or of backup 1
  when it made the file reach the limit; the handler is between lines again, its file below the limit.
\<close>

theorem rotate_line:
  assumes "rotate_idle st w"
    and "haclog_path_basename (loc_file (mi_loc m)) junk 256 = Some (e, buf)" and "cstr_at buf 0 = Some name"
    and "0 \<le> n" and "n \<le> int (length msg)"
    and "line = c_format None meta_format (meta_args gm name m)" and "int (length line) + n < 2147483648"
  shows "\<exists>st' w'. haclog_handler_write (rotate_ops gm junk) m msg n st w = Some (int (length line) + n, st', w') \<and>
    rotate_idle st' w' \<and> rotate_dest st' = rotate_dest st \<and>
    (\<exists>g\<in>{rh_filepath st, backup (rh_filepath st) 1}.
       file_text g w' = file_text (rh_filepath st) w @ line @ take (nat n) msg @ [CHR 0x0A])"
proof -
  have "hd_write_meta (rotate_ops gm junk) = haclog_handler_default_write_meta gm junk"
    by (simp add: rotate_ops_def)
  from rotate_sink.write_line [OF assms(1) this assms(2-7)] obtain st1 st' w' where
    w': "haclog_handler_write (rotate_ops gm junk) m msg n st w = Some (int (length line) + n, st', w')"
    "rotate_idle st' w'" "rotate_dest st' = rotate_dest st" "rotate_dest st1 = rotate_dest st"
    "rotate_fin m st1 w' = rotate_out m st w @ [] @ line @ take (nat n) msg @ [CHR 0x0A]" by blast
  then show ?thesis
    by (intro exI [of _ st'] exI [of _ w'])
      (cases "rotate_due st1"; auto simp: rotate_fin_def rotate_out_def rotate_dest_def)
qed

lemma rotate_line_witness:
  "\<exists>st' w'. haclog_handler_write (rotate_ops demo_gmtime (replicate 256 NUL)) (demo_meta 768) ''hi'' 2
      (demo_rotate\<lparr>rh_max_bytes := 4\<rparr>) demo_logs = Some (52, st', w') \<and>
    (\<exists>g\<in>{''/x'', ''/x.1''}. file_text g w' = ''newWARNING|1970-01-01T00:00:00.000000005|a.c:7|f|9 - hi'' @ [CHR 0x0A])"
proof -
  obtain buf where buf: "haclog_path_basename (loc_file (mi_loc (demo_meta 768))) (replicate 256 NUL) 256 =
      Some (HACLOG_ERR_OK, buf)" "cstr_at buf 0 = Some ''a.c''" using demo_name by blast
  let ?st = "demo_rotate\<lparr>rh_max_bytes := 4\<rparr>"
  have "appends (rh_fp ?st) ''/x'' demo_logs"
    using demo_log_name(4) by (auto simp: appends_def demo_rotate_def demo_logs_def)
  then have idle: "rotate_idle ?st demo_logs" using demo_rotatable
    by (simp add: rotate_idle_def rotate_ready_def demo_rotate_def file_text_def demo_logs_def c_s64_def)
  have len: "(0::int) \<le> 2" "(2::int) \<le> int (length ''hi'')" by simp_all
  have fits: "int (length (''WARNING|1970-01-01T00:00:00.000000005|a.c:7|f|9 - '')) + 2 < 2147483648" by simp
  have path: "rh_filepath ?st = ''/x''" and held: "file_text ''/x'' demo_logs = ''new''"
    by (simp_all add: demo_rotate_def file_text_def demo_logs_def)
  from rotate_line [OF idle buf len demo_line [symmetric] fits] show ?thesis
    unfolding path held demo_backups by auto
qed

lemma write_closed:
  assumes "rh_fp st = None"
    and "haclog_path_basename (loc_file (mi_loc m)) junk 256 = Some (e, buf)" and "cstr_at buf 0 = Some name"
  shows "haclog_handler_write (rotate_ops gm junk) m msg n st w = Some (0, st, w)"
  using assms by (simp add: haclog_handler_write_def rotate_ops_def haclog_file_rotate_handler_before_write_def
      haclog_handler_default_write_meta_def haclog_file_rotate_handler_writev_def
      haclog_file_rotate_handler_write_def haclog_file_rotate_handler_after_write_def)

text \<open>
  C29: a failed rotation is final. When \<open>haclog_file_rotate_handler_rotate\<close> reports an error, the handler
  has no file any more, and every later line through it is dropped without a trace:
  \<open>haclog_handler_write\<close> returns 0 and changes neither handler nor system.
\<close>

theorem failed_rotation_final:
  assumes "haclog_file_rotate_handler_rotate handler w = (err, st, w1)" and "err \<noteq> HACLOG_ERR_OK"
    and "haclog_path_basename (loc_file (mi_loc m)) junk 256 = Some (e, buf)" and "cstr_at buf 0 = Some name"
  shows "rh_fp st = None \<and> haclog_handler_write (rotate_ops gm junk) m msg n st w2 = Some (0, st, w2)"
proof -
  have "rh_fp st = None"
    using assms(1,2) by (auto simp: haclog_file_rotate_handler_rotate_def Let_def split: prod.splits option.splits)
  then show ?thesis using write_closed assms(3,4) by blast
qed

lemma failed_rotation_final_witness:
  "\<exists>st w1. haclog_file_rotate_handler_rotate demo_rotate (demo_logs\<lparr>w_fault := \<lambda>n. Some 0\<rparr>) =
      (HACLOG_ERR_SYS_CALL, st, w1) \<and>
    haclog_handler_write (rotate_ops demo_gmtime (replicate 256 NUL)) (demo_meta 768) ''hi'' 2 st demo_logs =
      Some (0, st, demo_logs)"
proof -
  let ?w = "demo_logs\<lparr>w_fault := \<lambda>n. Some 0\<rparr>"
  obtain buf where buf: "haclog_path_basename (loc_file (mi_loc (demo_meta 768))) (replicate 256 NUL) 256 =
      Some (HACLOG_ERR_OK, buf)" "cstr_at buf 0 = Some ''a.c''" using demo_name by blast
  obtain st w1 where r: "haclog_file_rotate_handler_rotate demo_rotate ?w = (HACLOG_ERR_SYS_CALL, st, w1)"
    by (auto simp: haclog_file_rotate_handler_rotate_def Let_def demo_rotate_def haclog_path_exists_def
        posix_access_def next_call_def haclog_os_rename_def posix_rename_def posix_fopen_def demo_logs_def c_int_id)
  then have "haclog_handler_write (rotate_ops demo_gmtime (replicate 256 NUL)) (demo_meta 768) ''hi'' 2 st demo_logs =
      Some (0, st, demo_logs)"
    using failed_rotation_final [OF r _ buf] by simp
  with r show ?thesis by blast
qed

end
