(* ===== verification/Haclog_Time_Rot.thy ===== *)
theory Haclog_Time_Rot
  imports Haclog_Rotate
begin

text \<open>
  \<open>haclog_file_time_rot_handler.c\<close>: lines appended to a file whose name carries the time of the period it
  was opened in. The clock and the time zone are arguments.
\<close>

section \<open>State\<close>

definition HACLOG_TIME_ROTATE_UNIT_SEC :: int where "HACLOG_TIME_ROTATE_UNIT_SEC = of_char CHR ''s''"
definition HACLOG_TIME_ROTATE_UNIT_MIN :: int where "HACLOG_TIME_ROTATE_UNIT_MIN = of_char CHR ''m''"
definition HACLOG_TIME_ROTATE_UNIT_HOUR :: int where "HACLOG_TIME_ROTATE_UNIT_HOUR = of_char CHR ''h''"
definition HACLOG_TIME_ROTATE_UNIT_DAY :: int where "HACLOG_TIME_ROTATE_UNIT_DAY = of_char CHR ''d''"

lemmas rotate_unit_defs = HACLOG_TIME_ROTATE_UNIT_SEC_def HACLOG_TIME_ROTATE_UNIT_MIN_def
  HACLOG_TIME_ROTATE_UNIT_HOUR_def HACLOG_TIME_ROTATE_UNIT_DAY_def

record time_rot_handler =
  th_filepath :: string
  th_fp :: "c_file option"
  th_rotate_unit :: int
  th_rotate_mod :: int
  th_last_sec :: int
  th_last_tm :: tm
  th_use_local_time :: int

text \<open>\<open>gmtime_r\<close>, \<open>localtime_r\<close>, and the value \<open>time(NULL)\<close> returns.\<close>

record clock =
  ck_gmtime :: "int \<Rightarrow> tm"
  ck_localtime :: "int \<Rightarrow> tm"
  ck_now :: int

section \<open>When to rotate\<close>

text \<open>A field divided by \<open>rotate_mod\<close>, an unsigned division; \<open>None\<close> is the division by zero.\<close>

definition field_mod :: "int \<Rightarrow> int \<Rightarrow> int option" where
  "field_mod x m = (if m = 0 then None else Some (c_int (c_u32 x div m)))"

definition same_day :: "tm \<Rightarrow> tm \<Rightarrow> bool" where
  "same_day a b \<longleftrightarrow> tm_mday a = tm_mday b \<and> tm_mon a = tm_mon b \<and> tm_year a = tm_year b"

definition haclog_file_time_rot_handler_detect ::
  "clock \<Rightarrow> time_rot_handler \<Rightarrow> meta_info \<Rightarrow> (bool \<times> time_rot_handler) option" where
  "haclog_file_time_rot_handler_detect ck handler meta =
     (let sec = fst (mi_ts meta);
          sec = (if sec = 0 then ck_now ck else sec)
      in if th_last_sec handler \<ge> sec then Some (False, handler)
         else
           (let curr_tm = (if th_use_local_time handler \<noteq> 0 then ck_localtime ck sec else ck_gmtime ck sec);
                last_tm = th_last_tm handler;
                m = th_rotate_mod handler;
                u = th_rotate_unit handler;
                differ = (\<lambda>f rest. case (field_mod (f curr_tm) m, field_mod (f last_tm) m) of
                  (Some a, Some b) \<Rightarrow> Some (a \<noteq> b \<or> rest) | _ \<Rightarrow> None);
                need_rot =
                  (if u = HACLOG_TIME_ROTATE_UNIT_SEC
                   then differ tm_sec (tm_min curr_tm \<noteq> tm_min last_tm \<or> tm_hour curr_tm \<noteq> tm_hour last_tm \<or>
                          \<not> same_day curr_tm last_tm)
                   else if u = HACLOG_TIME_ROTATE_UNIT_MIN
                   then differ tm_min (tm_hour curr_tm \<noteq> tm_hour last_tm \<or> \<not> same_day curr_tm last_tm)
                   else if u = HACLOG_TIME_ROTATE_UNIT_HOUR
                   then differ tm_hour (\<not> same_day curr_tm last_tm)
                   else if u = HACLOG_TIME_ROTATE_UNIT_DAY
                   then differ tm_mday (tm_mon curr_tm \<noteq> tm_mon last_tm \<or> tm_year curr_tm \<noteq> tm_year last_tm)
                   else Some False)
            in map_option (\<lambda>need_rot. (need_rot, handler\<lparr>th_last_sec := sec, th_last_tm := curr_tm\<rparr>)) need_rot))"

text \<open>
  The name of the period's file. For another unit than the four, \<open>buf\<close> is not written and the name is
  whatever the uninitialised array holds.
\<close>

definition time_rot_args :: "time_rot_handler \<Rightarrow> carg list" where
  "time_rot_args handler =
     (let t = th_last_tm handler
      in [C_str (th_filepath handler), C_int (tm_year t + 1900), C_int (tm_mon t + 1), C_int (tm_mday t),
          C_int (tm_hour t), C_int (tm_min t), C_int (tm_sec t)])"

definition time_rot_name :: "block \<Rightarrow> time_rot_handler \<Rightarrow> string option" where
  "time_rot_name buf handler =
     (let u = th_rotate_unit handler; as = time_rot_args handler
      in if u = HACLOG_TIME_ROTATE_UNIT_SEC
         then Some (c_snprint HACLOG_MAX_PATH ''%s.%d%02d%02dT%02d%02d%02d'' as)
         else if u = HACLOG_TIME_ROTATE_UNIT_MIN
         then Some (c_snprint HACLOG_MAX_PATH ''%s.%d%02d%02dT%02d%02d'' as)
         else if u = HACLOG_TIME_ROTATE_UNIT_HOUR
         then Some (c_snprint HACLOG_MAX_PATH ''%s.%d%02d%02dT%02d'' as)
         else if u = HACLOG_TIME_ROTATE_UNIT_DAY
         then Some (c_snprint HACLOG_MAX_PATH ''%s.%d%02d%02d'' as)
         else cstr_at buf 0)"

text \<open>\<open>locals\<close>: \<open>buf\<close>, and the arrays of \<open>haclog_os_fopen\<close>.\<close>

definition haclog_file_time_rot_handler_rotate ::
  "block \<times> (block \<times> block \<times> block) \<Rightarrow> time_rot_handler \<Rightarrow> world \<Rightarrow>
   (haclog_error \<times> time_rot_handler \<times> world) option" where
  "haclog_file_time_rot_handler_rotate locals handler w =
     (let handler = (case th_fp handler of None \<Rightarrow> handler | Some fp \<Rightarrow> handler\<lparr>th_fp := None\<rparr>)
      in case time_rot_name (fst locals) handler of
           None \<Rightarrow> None
         | Some buf \<Rightarrow>
             (case haclog_os_fopen (snd locals) buf ''ab+'' w of
                None \<Rightarrow> None
              | Some (None, w) \<Rightarrow> Some (HACLOG_ERR_SYS_CALL, handler\<lparr>th_fp := None\<rparr>, w)
              | Some (Some fp, w) \<Rightarrow> Some (HACLOG_ERR_OK, handler\<lparr>th_fp := Some fp\<rparr>, w)))"

section \<open>The handler\<close>

definition haclog_file_time_rot_handler_before_write :: "meta_info \<Rightarrow> time_rot_handler act" where
  "haclog_file_time_rot_handler_before_write meta handler w = Some (0, handler, w)"

definition haclog_file_time_rot_handler_after_write ::
  "clock \<Rightarrow> block \<times> (block \<times> block \<times> block) \<Rightarrow> meta_info \<Rightarrow> time_rot_handler act" where
  "haclog_file_time_rot_handler_after_write ck locals meta handler w =
     (case th_fp handler of
        None \<Rightarrow> Some (0, handler, w)
      | Some fp \<Rightarrow>
          (case c_fwrite [CHR 0x0A] fp w of
             (_, fp, w) \<Rightarrow>
               (case haclog_file_time_rot_handler_detect ck (handler\<lparr>th_fp := Some fp\<rparr>) meta of
                  None \<Rightarrow> None
                | Some (False, handler) \<Rightarrow> Some (0, handler, w)
                | Some (True, handler) \<Rightarrow>
                    (case haclog_file_time_rot_handler_rotate locals handler w of
                       None \<Rightarrow> None
                     | Some (e, handler, w) \<Rightarrow>
                         if e \<noteq> HACLOG_ERR_OK
                         then (case c_vfprintf ''failed rotate log handler'' [] F_stderr w of
                                 (_, _, w) \<Rightarrow> Some (0, handler, w))
                         else Some (0, handler, w)))))"

definition haclog_file_time_rot_handler_write :: "string \<Rightarrow> int \<Rightarrow> time_rot_handler act" where
  "haclog_file_time_rot_handler_write msg msglen handler w =
     (case th_fp handler of
        None \<Rightarrow> Some (0, handler, w)
      | Some fp \<Rightarrow>
          (case c_fwrite (take (nat msglen) msg) fp w of
             (n, fp, w) \<Rightarrow> Some (c_int n, handler\<lparr>th_fp := Some fp\<rparr>, w)))"

definition haclog_file_time_rot_handler_writev :: "time_rot_handler writev" where
  "haclog_file_time_rot_handler_writev fmt_str args handler w =
     (case th_fp handler of
        None \<Rightarrow> Some (0, handler, w)
      | Some fp \<Rightarrow>
          (case c_vfprintf fmt_str args fp w of
             (n, fp, w) \<Rightarrow> Some (n, handler\<lparr>th_fp := Some fp\<rparr>, w)))"

definition haclog_file_time_rot_handler_destroy :: "time_rot_handler \<Rightarrow> world \<Rightarrow> time_rot_handler \<times> world" where
  "haclog_file_time_rot_handler_destroy handler w =
     (case th_fp handler of None \<Rightarrow> (handler, w) | Some fp \<Rightarrow> (handler\<lparr>th_fp := None\<rparr>, w))"

definition time_rot_ops ::
  "clock \<Rightarrow> block \<times> (block \<times> block \<times> block) \<Rightarrow> block \<Rightarrow> time_rot_handler haclog_handler" where
  "time_rot_ops ck locals junk = \<lparr>hd_before_write = haclog_file_time_rot_handler_before_write,
     hd_write_meta = haclog_handler_default_write_meta (ck_gmtime ck) junk,
     hd_write = haclog_file_time_rot_handler_write, hd_writev = haclog_file_time_rot_handler_writev,
     hd_after_write = haclog_file_time_rot_handler_after_write ck locals,
     hd_destroy = haclog_file_time_rot_handler_destroy, hd_level = HACLOG_LEVEL_INFO\<rparr>"

definition tm_zero :: tm where
  "tm_zero = \<lparr>tm_sec = 0, tm_min = 0, tm_hour = 0, tm_mday = 0, tm_mon = 0, tm_year = 0\<rparr>"

definition time_rot_zero :: time_rot_handler where
  "time_rot_zero = \<lparr>th_filepath = [], th_fp = None, th_rotate_unit = 0, th_rotate_mod = 0, th_last_sec = 0,
     th_last_tm = tm_zero, th_use_local_time = 0\<rparr>"

definition haclog_file_time_rotate_handler_init ::
  "clock \<Rightarrow> block \<times> (block \<times> block \<times> block) \<Rightarrow> block \<Rightarrow> block \<times> block \<Rightarrow> string \<Rightarrow> int \<Rightarrow> int \<Rightarrow> int \<Rightarrow> world \<Rightarrow>
   (haclog_error \<times> time_rot_handler haclog_handler option \<times> time_rot_handler \<times> world) option" where
  "haclog_file_time_rotate_handler_init ck rot_locals junk locals filepath rotate_unit rotate_mod use_local_time w =
     (case abs_filepath locals filepath w of
        None \<Rightarrow> None
      | Some (Inl e, w) \<Rightarrow> Some (e, None, time_rot_zero, w)
      | Some (Inr path, w) \<Rightarrow>
          (let sec = ck_now ck;
               handler = \<lparr>th_filepath = take (HACLOG_MAX_PATH - 1) path, th_fp = None, th_rotate_unit = rotate_unit,
                 th_rotate_mod = rotate_mod, th_last_sec = sec,
                 th_last_tm = (if use_local_time \<noteq> 0 then ck_localtime ck sec else ck_gmtime ck sec),
                 th_use_local_time = use_local_time\<rparr>
           in case haclog_file_time_rot_handler_rotate rot_locals handler w of
                None \<Rightarrow> None
              | Some (ret, handler, w) \<Rightarrow>
                  if ret \<noteq> HACLOG_ERR_OK then Some (ret, None, handler, w)
                  else Some (HACLOG_ERR_OK, Some (time_rot_ops ck rot_locals junk), handler, w)))"

section \<open>The rotation test\<close>

definition unit_ok :: "int \<Rightarrow> bool" where
  "unit_ok u \<longleftrightarrow> u \<in> {HACLOG_TIME_ROTATE_UNIT_SEC, HACLOG_TIME_ROTATE_UNIT_MIN,
     HACLOG_TIME_ROTATE_UNIT_HOUR, HACLOG_TIME_ROTATE_UNIT_DAY}"

text \<open>The period of \<open>m\<close> units an instant is in: the fields from the year down, the last divided by m.\<close>

definition period :: "int \<Rightarrow> int \<Rightarrow> tm \<Rightarrow> int list" where
  "period u m t =
     (if u = HACLOG_TIME_ROTATE_UNIT_SEC then [tm_year t, tm_mon t, tm_mday t, tm_hour t, tm_min t, tm_sec t div m]
      else if u = HACLOG_TIME_ROTATE_UNIT_MIN then [tm_year t, tm_mon t, tm_mday t, tm_hour t, tm_min t div m]
      else if u = HACLOG_TIME_ROTATE_UNIT_HOUR then [tm_year t, tm_mon t, tm_mday t, tm_hour t div m]
      else [tm_year t, tm_mon t, tm_mday t div m])"

definition tm_ok :: "tm \<Rightarrow> bool" where
  "tm_ok t \<longleftrightarrow> 0 \<le> tm_sec t \<and> tm_sec t \<le> 60 \<and> 0 \<le> tm_min t \<and> tm_min t < 60 \<and> 0 \<le> tm_hour t \<and> tm_hour t < 24 \<and>
     1 \<le> tm_mday t \<and> tm_mday t \<le> 31"

lemma field_mod_eq: "0 \<le> x \<Longrightarrow> x < 2147483648 \<Longrightarrow> 0 < m \<Longrightarrow> field_mod x m = Some (x div m)"
proof -
  assume x: "0 \<le> x" "x < 2147483648" and m: "0 < m"
  have "x div m \<le> x div 1" by (rule zdiv_mono2) (use x m in simp_all)
  then have "x div m \<le> x" by simp
  moreover have "0 \<le> x div m" using x m by (simp add: pos_imp_zdiv_nonneg_iff)
  ultimately have "c_int (x div m) = x div m" using x by (intro c_int_id) linarith+
  then show ?thesis using x m by (simp add: field_mod_def c_u32_id)
qed

definition local_tm :: "clock \<Rightarrow> time_rot_handler \<Rightarrow> int \<Rightarrow> tm" where
  "local_tm ck h sec = (if th_use_local_time h \<noteq> 0 then ck_localtime ck sec else ck_gmtime ck sec)"

lemma detect_total:
  assumes "th_rotate_mod h \<noteq> 0"
  shows "\<exists>rot h'. haclog_file_time_rot_handler_detect ck h m = Some (rot, h') \<and> th_filepath h' = th_filepath h \<and>
    th_fp h' = th_fp h \<and> th_rotate_unit h' = th_rotate_unit h \<and> th_rotate_mod h' = th_rotate_mod h \<and>
    th_use_local_time h' = th_use_local_time h"
  using assms by (simp add: haclog_file_time_rot_handler_detect_def field_mod_def Let_def ex_bool_eq)

text \<open>
  C22: when the file changes. For a unit of the four, a positive \<open>rotate_mod\<close> and calendar fields in
  their ranges, \<open>haclog_file_time_rot_handler_detect\<close> asks for a rotation exactly when the message is
  later than the last rotation test and lies in another period; the test then moves to the
  message's time, and stays where it is for a message that is not later.
\<close>

theorem detect_period:
  assumes "unit_ok (th_rotate_unit h)" and "0 < th_rotate_mod h" and "sec = fst (mi_ts m)" and "sec \<noteq> 0"
    and "tm_ok (th_last_tm h)" and "tm_ok (local_tm ck h sec)"
  shows "haclog_file_time_rot_handler_detect ck h m =
    (if sec \<le> th_last_sec h then Some (False, h)
     else Some (period (th_rotate_unit h) (th_rotate_mod h) (local_tm ck h sec) \<noteq>
                  period (th_rotate_unit h) (th_rotate_mod h) (th_last_tm h),
                h\<lparr>th_last_sec := sec, th_last_tm := local_tm ck h sec\<rparr>))"
proof (cases "sec \<le> th_last_sec h")
  case True
  then show ?thesis using assms(3,4) by (simp add: haclog_file_time_rot_handler_detect_def)
next
  case False
  let ?c = "local_tm ck h sec" and ?l = "th_last_tm h" and ?m = "th_rotate_mod h"
  have fields: "field_mod (tm_sec ?c) ?m = Some (tm_sec ?c div ?m)" "field_mod (tm_sec ?l) ?m = Some (tm_sec ?l div ?m)"
    "field_mod (tm_min ?c) ?m = Some (tm_min ?c div ?m)" "field_mod (tm_min ?l) ?m = Some (tm_min ?l div ?m)"
    "field_mod (tm_hour ?c) ?m = Some (tm_hour ?c div ?m)" "field_mod (tm_hour ?l) ?m = Some (tm_hour ?l div ?m)"
    "field_mod (tm_mday ?c) ?m = Some (tm_mday ?c div ?m)" "field_mod (tm_mday ?l) ?m = Some (tm_mday ?l div ?m)"
    using assms(2,5,6) by (simp_all add: field_mod_eq tm_ok_def)
  have "haclog_file_time_rot_handler_detect ck h m =
      map_option (\<lambda>need_rot. (need_rot, h\<lparr>th_last_sec := sec, th_last_tm := ?c\<rparr>))
        (let differ = (\<lambda>f rest. case (field_mod (f ?c) ?m, field_mod (f ?l) ?m) of
            (Some a, Some b) \<Rightarrow> Some (a \<noteq> b \<or> rest) | _ \<Rightarrow> None)
         in if th_rotate_unit h = HACLOG_TIME_ROTATE_UNIT_SEC
            then differ tm_sec (tm_min ?c \<noteq> tm_min ?l \<or> tm_hour ?c \<noteq> tm_hour ?l \<or> \<not> same_day ?c ?l)
            else if th_rotate_unit h = HACLOG_TIME_ROTATE_UNIT_MIN
            then differ tm_min (tm_hour ?c \<noteq> tm_hour ?l \<or> \<not> same_day ?c ?l)
            else if th_rotate_unit h = HACLOG_TIME_ROTATE_UNIT_HOUR then differ tm_hour (\<not> same_day ?c ?l)
            else if th_rotate_unit h = HACLOG_TIME_ROTATE_UNIT_DAY
            then differ tm_mday (tm_mon ?c \<noteq> tm_mon ?l \<or> tm_year ?c \<noteq> tm_year ?l) else Some False)"
    unfolding haclog_file_time_rot_handler_detect_def Let_def assms(3) [symmetric]
    by (simp only: if_not_P [OF assms(4)] if_not_P [OF False] local_tm_def)
  moreover have "th_rotate_unit h = HACLOG_TIME_ROTATE_UNIT_SEC \<or> th_rotate_unit h = HACLOG_TIME_ROTATE_UNIT_MIN \<or>
      th_rotate_unit h = HACLOG_TIME_ROTATE_UNIT_HOUR \<or> th_rotate_unit h = HACLOG_TIME_ROTATE_UNIT_DAY"
    using assms(1) by (simp add: unit_ok_def)
  ultimately show ?thesis using False
    by (elim disjE) (auto simp: Let_def fields period_def same_day_def rotate_unit_defs)
qed

definition demo_clock :: clock where
  "demo_clock = \<lparr>ck_gmtime = demo_gmtime, ck_localtime = demo_gmtime, ck_now = 50\<rparr>"

definition demo_time_rot :: time_rot_handler where
  "demo_time_rot = \<lparr>th_filepath = ''/x'', th_fp = Some (F_file ''/x.old'' True True 0),
     th_rotate_unit = HACLOG_TIME_ROTATE_UNIT_MIN, th_rotate_mod = 1, th_last_sec = 50,
     th_last_tm = demo_gmtime 50, th_use_local_time = 0\<rparr>"

lemma detect_period_witness:
  "haclog_file_time_rot_handler_detect demo_clock demo_time_rot (demo_meta 768\<lparr>mi_ts := (70, 0)\<rparr>) =
     Some (True, demo_time_rot\<lparr>th_last_sec := 70, th_last_tm := demo_gmtime 70\<rparr>)"
proof -
  have "unit_ok (th_rotate_unit demo_time_rot)" "0 < th_rotate_mod demo_time_rot"
    "70 = fst (mi_ts (demo_meta 768\<lparr>mi_ts := (70, 0)\<rparr>))" "(70::int) \<noteq> 0" "tm_ok (th_last_tm demo_time_rot)"
    "tm_ok (local_tm demo_clock demo_time_rot 70)"
    by (simp_all add: unit_ok_def demo_time_rot_def demo_clock_def tm_ok_def demo_gmtime_def local_tm_def)
  from detect_period [OF this] show ?thesis
    by (simp add: demo_time_rot_def demo_clock_def demo_gmtime_def local_tm_def period_def rotate_unit_defs)
qed

section \<open>The names of the periods' files\<close>

definition name_part :: "string \<Rightarrow> bool" where
  "name_part s \<longleftrightarrow> (\<forall>c\<in>set s. \<not> is_sep c \<and> c \<noteq> NUL) \<and> length s \<le> 12"

lemma sdec_part: "w \<le> 2 \<Longrightarrow> name_part (sdec_pad w (c_int n))"
proof -
  assume w: "w \<le> 2"
  have pad: "\<forall>c\<in>set (zero_pad k (dec i)). \<not> is_sep c \<and> c \<noteq> NUL" for k i
    using dec_plain by (fastforce simp: zero_pad_def is_sep_def NUL_def)
  have len: "length (zero_pad k (dec i)) \<le> 11" if "k \<le> 2" "i < 100000000000" for k i
    using dec_length [of i 11] that by (simp add: zero_pad_def)
  have "nat (- c_int n) < 100000000000" "nat (c_int n) < 100000000000"
    using c_int_range [of n] by linarith+
  with w pad len [of "w - 1" "nat (- c_int n)"] len [of w "nat (c_int n)"] show ?thesis
    by (auto simp: sdec_pad_def name_part_def is_sep_def NUL_def)
qed

lemma time_rot_name_ok:
  assumes u: "unit_ok (th_rotate_unit h)" and len: "length (th_filepath h) \<le> 900"
  obtains s where "time_rot_name buf h = Some (th_filepath h @ CHR ''.'' # s)"
    "\<forall>c\<in>set s. \<not> is_sep c \<and> c \<noteq> NUL" "length s \<le> 80"
proof -
  let ?t = "th_last_tm h"
  let ?y = "sdec_pad 0 (c_int (tm_year ?t + 1900))" and ?mo = "sdec_pad 2 (c_int (tm_mon ?t + 1))"
    and ?d = "sdec_pad 2 (c_int (tm_mday ?t))" and ?ho = "sdec_pad 2 (c_int (tm_hour ?t))"
    and ?mi = "sdec_pad 2 (c_int (tm_min ?t))" and ?s = "sdec_pad 2 (c_int (tm_sec ?t))"
  have parts: "name_part ?y" "name_part ?mo" "name_part ?d" "name_part ?ho" "name_part ?mi" "name_part ?s"
    by (simp_all add: sdec_part)
  have T: "\<not> is_sep CHR ''T'' \<and> CHR ''T'' \<noteq> NUL" by (simp add: is_sep_def NUL_def)
  have fit: "c_snprint HACLOG_MAX_PATH fmt (time_rot_args h) = th_filepath h @ CHR ''.'' # s"
    if "c_format None fmt (time_rot_args h) = th_filepath h @ CHR ''.'' # s" "length s \<le> 80" for fmt s
    using that len by (simp add: c_snprint_def HACLOG_MAX_PATH_def)
  have texts: "c_format None ''%s.%d%02d%02d'' (time_rot_args h) = th_filepath h @ CHR ''.'' # ?y @ ?mo @ ?d"
    "c_format None ''%s.%d%02d%02dT%02d'' (time_rot_args h) = th_filepath h @ CHR ''.'' # ?y @ ?mo @ ?d @ CHR ''T'' # ?ho"
    "c_format None ''%s.%d%02d%02dT%02d%02d'' (time_rot_args h) =
       th_filepath h @ CHR ''.'' # ?y @ ?mo @ ?d @ CHR ''T'' # ?ho @ ?mi"
    "c_format None ''%s.%d%02d%02dT%02d%02d%02d'' (time_rot_args h) =
       th_filepath h @ CHR ''.'' # ?y @ ?mo @ ?d @ CHR ''T'' # ?ho @ ?mi @ ?s"
    by (simp_all add: time_rot_args_def Let_def numeral_2_eq_2)
  consider "th_rotate_unit h = HACLOG_TIME_ROTATE_UNIT_SEC" | "th_rotate_unit h = HACLOG_TIME_ROTATE_UNIT_MIN"
    | "th_rotate_unit h = HACLOG_TIME_ROTATE_UNIT_HOUR" | "th_rotate_unit h = HACLOG_TIME_ROTATE_UNIT_DAY"
    using u by (auto simp: unit_ok_def)
  then show ?thesis
  proof cases
    case 1
    from fit [OF texts(4)] parts T show ?thesis
      by (intro that [of "?y @ ?mo @ ?d @ CHR ''T'' # ?ho @ ?mi @ ?s"])
        (auto simp: time_rot_name_def Let_def name_part_def 1 rotate_unit_defs)
  next
    case 2
    from fit [OF texts(3)] parts T show ?thesis
      by (intro that [of "?y @ ?mo @ ?d @ CHR ''T'' # ?ho @ ?mi"])
        (auto simp: time_rot_name_def Let_def name_part_def 2 rotate_unit_defs)
  next
    case 3
    from fit [OF texts(2)] parts T show ?thesis
      by (intro that [of "?y @ ?mo @ ?d @ CHR ''T'' # ?ho"])
        (auto simp: time_rot_name_def Let_def name_part_def 3 rotate_unit_defs)
  next
    case 4
    from fit [OF texts(1)] parts show ?thesis
      by (intro that [of "?y @ ?mo @ ?d"]) (auto simp: time_rot_name_def Let_def name_part_def 4 rotate_unit_defs)
  qed
qed

section \<open>The time-rotating handler keeps the contract\<close>

text \<open>
  A free log name: every period's file can be created beside it. \<open>d\<close> is the directory.
\<close>

definition periods_free :: "string \<Rightarrow> string \<Rightarrow> world \<Rightarrow> bool" where
  "periods_free p d w \<longleftrightarrow> no_faults w \<and> way_free d w \<and> length p \<le> 900 \<and> (\<exists>b. file_name p d b) \<and>
     (\<forall>s. p @ CHR ''.'' # s \<notin> w_dirs w \<union> dirs_of d)"

definition time_rot_conf :: "time_rot_handler \<Rightarrow> string \<times> int \<times> int \<times> int" where
  "time_rot_conf h = (th_filepath h, th_rotate_unit h, th_rotate_mod h, th_use_local_time h)"

definition time_rot_ready :: "string \<Rightarrow> time_rot_handler \<Rightarrow> world \<Rightarrow> bool" where
  "time_rot_ready d h w \<longleftrightarrow> appends (th_fp h) (fp_path (th_fp h)) w \<and> periods_free (th_filepath h) d w \<and>
     unit_ok (th_rotate_unit h) \<and> th_rotate_mod h \<noteq> 0 \<and> (\<exists>s. fp_path (th_fp h) = th_filepath h @ CHR ''.'' # s)"

definition time_rot_out :: "meta_info \<Rightarrow> time_rot_handler \<Rightarrow> world \<Rightarrow> string" where
  "time_rot_out m h w = file_text (fp_path (th_fp h)) w"

lemma name_not_prefix: "file_name p d b \<Longrightarrow> d = q @ r \<Longrightarrow> q \<noteq> p @ s"
  by (auto simp: file_name_def dest: arg_cong [where f = length])

lemma periods_free_write:
  assumes "periods_free p d w" and "w_files w' = (w_files w)(p @ s \<mapsto> t)"
    and "w_dirs w' \<subseteq> w_dirs w \<union> dirs_of d" and "no_faults w'"
  shows "periods_free p d w'"
proof -
  from assms(1) obtain b where b: "file_name p d b" by (auto simp: periods_free_def)
  have "way_free d w'"
    using assms(1,2) name_not_prefix [OF b] by (auto simp: way_free_def periods_free_def)
  then show ?thesis using assms(1,3,4) by (auto simp: periods_free_def)
qed

lemma time_rot_fwrite:
  assumes "time_rot_ready d st w"
  obtains fp fp' w' where "th_fp st = Some fp" "c_fwrite bs fp w = (int (length bs), fp', w')"
    "time_rot_ready d (st\<lparr>th_fp := Some fp'\<rparr>) w'" "fp_path (Some fp') = fp_path (th_fp st)"
    "file_text (fp_path (th_fp st)) w' = file_text (fp_path (th_fp st)) w @ bs"
proof -
  let ?f = "fp_path (th_fp st)"
  from assms obtain s where s: "?f = th_filepath st @ CHR ''.'' # s"
    unfolding time_rot_ready_def by blast
  from assms obtain fp where fp: "th_fp st = Some fp" "appends (Some fp) ?f w"
    unfolding time_rot_ready_def by (cases "th_fp st") (simp_all add: appends_def)
  from fwrite_file [OF fp(2), of bs] obtain fp' w' where
    w': "c_fwrite bs fp w = (int (length bs), fp', w')" "appends (Some fp') ?f w'"
    "w_files w' = (w_files w)(?f \<mapsto> file_text ?f w @ bs)" "w_dirs w' = w_dirs w" by blast
  have free: "periods_free (th_filepath st) d w" using assms by (simp add: time_rot_ready_def)
  have "periods_free (th_filepath st) d w'"
    by (rule periods_free_write [OF free w'(3) [unfolded s]])
      (use w'(2,4) in \<open>auto dest: appends_faults\<close>)
  moreover have "fp_path (Some fp') = ?f" using w'(2) by (rule appends_path)
  moreover from this have "time_rot_ready d (st\<lparr>th_fp := Some fp'\<rparr>) w'" if "periods_free (th_filepath st) d w'"
    using assms w'(2) s that unfolding time_rot_ready_def by simp
  ultimately show ?thesis using that [OF fp(1) w'(1)] file_text_written [OF w'(3)] by simp
qed

lemma file_name_suffix:
  assumes "file_name p d b" "length p \<le> 900" "\<forall>c\<in>set s. \<not> is_sep c \<and> c \<noteq> NUL" "length s \<le> 80"
  shows "file_name (p @ CHR ''.'' # s) d (b @ CHR ''.'' # s)"
proof -
  have dot: "\<not> is_sep (CHR ''.'')" "CHR ''.'' \<noteq> NUL" by (simp_all add: is_sep_def NUL_def)
  from assms(1) have p: "p = d @ CHR ''/'' # b" and nul: "NUL \<notin> set p" and b: "\<forall>x\<in>set b. \<not> is_sep x"
    and rest: "d = [] \<or> hd d = CHR ''/''" "\<not> (2 \<le> length d \<and> last d = CHR '':'')"
    unfolding file_name_def by blast+
  from p have "p @ CHR ''.'' # s = d @ CHR ''/'' # b @ CHR ''.'' # s" by simp
  moreover have "NUL \<notin> set (p @ CHR ''.'' # s)"
    using nul assms(3) dot(2) by auto
  moreover have "\<forall>x\<in>set (b @ CHR ''.'' # s). \<not> is_sep x"
    using b assms(3) dot(1) by auto
  moreover have "length (p @ CHR ''.'' # s) \<le> 1000" using assms(2,4) by simp
  ultimately show ?thesis unfolding file_name_def using rest by simp
qed

lemma time_rot_rotate:
  assumes "time_rot_ready d st w" and locals: "length (snd (snd (snd locals))) = HACLOG_MAX_PATH"
  shows "\<exists>st' w'. haclog_file_time_rot_handler_rotate locals st w = Some (HACLOG_ERR_OK, st', w') \<and>
    time_rot_ready d st' w' \<and> time_rot_conf st' = time_rot_conf st \<and> (\<forall>g. file_text g w' = file_text g w)"
proof -
  let ?st = "case th_fp st of None \<Rightarrow> st | Some fp \<Rightarrow> st\<lparr>th_fp := None\<rparr>" and ?p = "th_filepath st"
  have fields: "th_filepath ?st = ?p" "th_rotate_unit ?st = th_rotate_unit st" "th_rotate_mod ?st = th_rotate_mod st"
    "th_use_local_time ?st = th_use_local_time st"
    by (simp_all split: option.splits)
  from assms(1) have ok: "unit_ok (th_rotate_unit ?st)" "length (th_filepath ?st) \<le> 900"
    by (simp_all add: time_rot_ready_def periods_free_def fields)
  obtain s where s: "time_rot_name (fst locals) ?st = Some (?p @ CHR ''.'' # s)"
    "\<forall>c\<in>set s. \<not> is_sep c \<and> c \<noteq> NUL" "length s \<le> 80"
    using time_rot_name_ok [OF ok] unfolding fields by blast
  from assms(1) obtain b where b: "file_name ?p d b" "length ?p \<le> 900" "no_faults w" "way_free d w"
    "?p @ CHR ''.'' # s \<notin> w_dirs w"
    unfolding time_rot_ready_def periods_free_def by blast
  have "file_name (?p @ CHR ''.'' # s) d (b @ CHR ''.'' # s)"
    by (rule file_name_suffix [OF b(1,2) s(2,3)])
  from os_fopen_append [OF b(3) this b(4,5) _ locals, of "''ab+''"] obtain w' where
    w': "haclog_os_fopen (snd locals) (?p @ CHR ''.'' # s) ''ab+'' w =
      Some (Some (F_file (?p @ CHR ''.'' # s) True True 0), w')" "no_faults w'"
    "w_files w' = (w_files w)(?p @ CHR ''.'' # s \<mapsto> file_text (?p @ CHR ''.'' # s) w)"
    "w_dirs w' \<subseteq> w_dirs w \<union> dirs_of d" by auto
  let ?st' = "?st\<lparr>th_fp := Some (F_file (?p @ CHR ''.'' # s) True True 0)\<rparr>"
  have run: "haclog_file_time_rot_handler_rotate locals st w = Some (HACLOG_ERR_OK, ?st', w')"
    using s(1) w'(1) by (simp add: haclog_file_time_rot_handler_rotate_def)
  have "periods_free ?p d w'"
    by (rule periods_free_write [OF _ w'(3,4,2)]) (use assms(1) in \<open>simp add: time_rot_ready_def\<close>)
  moreover have "appends (th_fp ?st') (?p @ CHR ''.'' # s) w'"
    using w'(2,3) by (auto simp: appends_def intro: exI [of _ True])
  moreover have "fp_path (th_fp ?st') = ?p @ CHR ''.'' # s" by (simp add: fp_path_def)
  moreover have "th_rotate_mod st \<noteq> 0" using assms(1) by (simp add: time_rot_ready_def)
  ultimately have "time_rot_ready d ?st' w'"
    using ok(1) unfolding time_rot_ready_def by (simp add: fields)
  moreover have "time_rot_conf ?st' = time_rot_conf st" by (simp add: time_rot_conf_def fields)
  moreover have "\<forall>g. file_text g w' = file_text g w" using w'(3) by (simp add: file_text_def)
  ultimately show ?thesis using run by blast
qed

lemma time_rot_after:
  assumes "time_rot_ready d st w" and locals: "length (snd (snd (snd locals))) = HACLOG_MAX_PATH"
  shows "\<exists>st' w'. haclog_file_time_rot_handler_after_write ck locals m st w = Some (0, st', w') \<and>
    time_rot_ready d st' w' \<and> time_rot_conf st' = time_rot_conf st \<and>
    time_rot_out m st w' = time_rot_out m st w @ [CHR 0x0A]"
proof -
  obtain fp fp' w1 where w1: "th_fp st = Some fp" "c_fwrite [CHR 0x0A] fp w = (1, fp', w1)"
    "time_rot_ready d (st\<lparr>th_fp := Some fp'\<rparr>) w1"
    "file_text (fp_path (th_fp st)) w1 = file_text (fp_path (th_fp st)) w @ [CHR 0x0A]"
    by (rule time_rot_fwrite [OF assms(1), of "[CHR 0x0A]"]) simp
  let ?st = "st\<lparr>th_fp := Some fp'\<rparr>"
  have "th_rotate_mod ?st \<noteq> 0" using w1(3) by (simp add: time_rot_ready_def)
  from detect_total [OF this] obtain rot st1 where
    det: "haclog_file_time_rot_handler_detect ck ?st m = Some (rot, st1)" "th_filepath st1 = th_filepath ?st"
    "th_fp st1 = th_fp ?st" "th_rotate_unit st1 = th_rotate_unit ?st" "th_rotate_mod st1 = th_rotate_mod ?st"
    "th_use_local_time st1 = th_use_local_time ?st" by blast
  have st1: "time_rot_ready d st1 w1" "time_rot_conf st1 = time_rot_conf st"
    using w1(3) det by (simp_all add: time_rot_ready_def time_rot_conf_def)
  show ?thesis
  proof (cases rot)
    case False
    then show ?thesis using w1 det(1) st1
      by (simp add: haclog_file_time_rot_handler_after_write_def time_rot_out_def)
  next
    case True
    obtain st' w' where "haclog_file_time_rot_handler_rotate locals st1 w1 = Some (HACLOG_ERR_OK, st', w')"
      "time_rot_ready d st' w'" "time_rot_conf st' = time_rot_conf st1" "\<forall>g. file_text g w' = file_text g w1"
      using time_rot_rotate [OF st1(1) locals] by blast
    then show ?thesis using w1 det(1) st1 True
      by (simp add: haclog_file_time_rot_handler_after_write_def time_rot_out_def)
  qed
qed

text \<open>The arrays the rotation uses, as large as the code declares them.\<close>

typedef rot_locals = "{l :: block \<times> (block \<times> block \<times> block). length (snd (snd (snd l))) = HACLOG_MAX_PATH}"
  by (rule exI [of _ "([], [], [], replicate HACLOG_MAX_PATH NUL)"]) simp

interpretation time_rot_sink: line_sink "time_rot_ops ck (Rep_rot_locals locals) junk" "time_rot_ready d"
  "\<lambda>m. time_rot_ready d" "\<lambda>h. fp_path (th_fp h)" time_rot_conf time_rot_out time_rot_out
  "\<lambda>h m. []" "\<lambda>h m. [CHR 0x0A]"
proof unfold_locales
  fix st :: time_rot_handler and w m n msg bs fmt as
  show "time_rot_ready d st w \<Longrightarrow>
      \<exists>n st' w'. hd_before_write (time_rot_ops ck (Rep_rot_locals locals) junk) m st w = Some (n, st', w') \<and>
      time_rot_ready d st' w' \<and> time_rot_out m st' w' = time_rot_out m st w @ [] \<and>
      fp_path (th_fp st') = fp_path (th_fp st) \<and> time_rot_conf st' = time_rot_conf st \<and> [CHR 0x0A] = [CHR 0x0A]"
    by (simp add: time_rot_ops_def haclog_file_time_rot_handler_before_write_def)
  show "time_rot_ready d st w \<Longrightarrow> 0 < n \<Longrightarrow> n \<le> int (length msg) \<Longrightarrow> n < 2147483648 \<Longrightarrow>
      \<exists>st' w'. hd_write (time_rot_ops ck (Rep_rot_locals locals) junk) msg n st w = Some (n, st', w') \<and>
      time_rot_ready d st' w' \<and> time_rot_out m st' w' = time_rot_out m st w @ take (nat n) msg \<and>
      fp_path (th_fp st') = fp_path (th_fp st) \<and> time_rot_conf st' = time_rot_conf st \<and> [CHR 0x0A] = [CHR 0x0A]"
    by (erule time_rot_fwrite [where bs = "take (nat n) msg"])
      (auto simp: time_rot_ops_def haclog_file_time_rot_handler_write_def time_rot_out_def time_rot_conf_def c_int_id)
  show "time_rot_ready d st w \<Longrightarrow> bs = c_format None fmt as \<Longrightarrow> length bs < 2147483648 \<Longrightarrow>
      \<exists>st' w'. hd_writev (time_rot_ops ck (Rep_rot_locals locals) junk) fmt as st w = Some (int (length bs), st', w') \<and>
      time_rot_ready d st' w' \<and> time_rot_out m st' w' = time_rot_out m st w @ bs \<and>
      fp_path (th_fp st') = fp_path (th_fp st) \<and> time_rot_conf st' = time_rot_conf st \<and> [CHR 0x0A] = [CHR 0x0A]"
    by (erule time_rot_fwrite [where bs = bs])
      (auto simp: time_rot_ops_def haclog_file_time_rot_handler_writev_def c_vfprintf_def Let_def time_rot_out_def
        time_rot_conf_def)
  show "time_rot_ready d st w \<Longrightarrow>
      \<exists>n st' w'. hd_after_write (time_rot_ops ck (Rep_rot_locals locals) junk) m st w = Some (n, st', w') \<and>
      time_rot_ready d st' w' \<and> time_rot_conf st' = time_rot_conf st \<and>
      time_rot_out m st w' = time_rot_out m st w @ [CHR 0x0A]"
    using time_rot_after [of d st w "Rep_rot_locals locals" ck m] Rep_rot_locals [of locals]
    by (auto simp: time_rot_ops_def)
qed

text \<open>
  C21: a line through the time-rotating handler. Between lines, when no call fails,
  \<open>haclog_handler_write\<close> appends the meta line, the message and a newline to the file that was open and
  returns the length of the first two, whether or not the line ends the period; the handler is between
  lines again, its configuration as it was.
\<close>

theorem time_rot_line:
  assumes "time_rot_ready d st w" and "length (snd (snd (snd locals))) = HACLOG_MAX_PATH"
    and "haclog_path_basename (loc_file (mi_loc m)) junk 256 = Some (e, buf)" and "cstr_at buf 0 = Some name"
    and "0 \<le> n" and "n \<le> int (length msg)"
    and "line = c_format None meta_format (meta_args (ck_gmtime ck) name m)" and "int (length line) + n < 2147483648"
  shows "\<exists>st' w'. haclog_handler_write (time_rot_ops ck locals junk) m msg n st w = Some (int (length line) + n, st', w') \<and>
    time_rot_ready d st' w' \<and> time_rot_conf st' = time_rot_conf st \<and>
    file_text (fp_path (th_fp st)) w' = file_text (fp_path (th_fp st)) w @ line @ take (nat n) msg @ [CHR 0x0A]"
proof -
  obtain rl where locals: "locals = Rep_rot_locals rl"
    using assms(2) Rep_rot_locals_cases [of locals] by blast
  have "hd_write_meta (time_rot_ops ck (Rep_rot_locals rl) junk) = haclog_handler_default_write_meta (ck_gmtime ck) junk"
    by (simp add: time_rot_ops_def)
  from time_rot_sink.write_line [OF assms(1) this assms(3-8)] obtain st1 st' w' where
    "haclog_handler_write (time_rot_ops ck (Rep_rot_locals rl) junk) m msg n st w = Some (int (length line) + n, st', w')"
    "time_rot_ready d st' w'" "time_rot_conf st' = time_rot_conf st" "fp_path (th_fp st1) = fp_path (th_fp st)"
    "time_rot_out m st1 w' = time_rot_out m st w @ [] @ line @ take (nat n) msg @ [CHR 0x0A]" by blast
  then show ?thesis unfolding locals time_rot_out_def by auto
qed

lemma time_rot_line_witness:
  "\<exists>st' w'. haclog_handler_write (time_rot_ops demo_clock ([], [], [], replicate HACLOG_MAX_PATH NUL) (replicate 256 NUL))
      (demo_meta 768) ''hi'' 2 demo_time_rot (demo_sys\<lparr>w_files := [''/x.old'' \<mapsto> ''old'']\<rparr>) = Some (52, st', w') \<and>
    file_text ''/x.old'' w' = ''oldWARNING|1970-01-01T00:00:00.000000005|a.c:7|f|9 - hi'' @ [CHR 0x0A]"
proof -
  let ?w = "demo_sys\<lparr>w_files := [''/x.old'' \<mapsto> ''old'']\<rparr>"
  obtain buf where buf: "haclog_path_basename (loc_file (mi_loc (demo_meta 768))) (replicate 256 NUL) 256 =
      Some (HACLOG_ERR_OK, buf)" "cstr_at buf 0 = Some ''a.c''" using demo_name by blast
  have app: "appends (th_fp demo_time_rot) ''/x.old'' ?w"
    by (auto simp: appends_def demo_time_rot_def demo_sys_def no_faults_def)
  have path: "fp_path (th_fp demo_time_rot) = ''/x.old''" by (simp add: demo_time_rot_def fp_path_def)
  have free: "periods_free ''/x'' '''' ?w"
    by (auto simp: periods_free_def demo_sys_def no_faults_def way_free_def file_name_def dirs_of_def is_sep_def NUL_def
        intro!: exI [of _ "''x''"])
  have idle: "time_rot_ready [] demo_time_rot ?w"
    using app free unfolding time_rot_ready_def path by (simp add: demo_time_rot_def unit_ok_def)
  have len: "(0::int) \<le> 2" "(2::int) \<le> int (length ''hi'')" by simp_all
  have fits: "int (length (''WARNING|1970-01-01T00:00:00.000000005|a.c:7|f|9 - '')) + 2 < 2147483648" by simp
  have locals: "length (snd (snd (snd ([], [], [], replicate HACLOG_MAX_PATH NUL)))) = HACLOG_MAX_PATH" by simp
  have line: "c_format None meta_format (meta_args (ck_gmtime demo_clock) ''a.c'' (demo_meta 768)) =
      ''WARNING|1970-01-01T00:00:00.000000005|a.c:7|f|9 - ''"
    using demo_line by (simp add: demo_clock_def)
  have held: "file_text ''/x.old'' ?w = ''old''" by (simp add: file_text_def)
  from time_rot_line [OF idle locals buf len line [symmetric] fits] show ?thesis
    unfolding path held by auto
qed

end
