(* ===== verification/Haclog_Spinlock.thy ===== *)
theory Haclog_Spinlock
  imports Haclog_Simulation
begin

text \<open>
  \<open>haclog_spinlock.c\<close> on the test-and-set byte of \<open>haclog_thread.h\<close>, and what a component that takes and
  releases the lock around its critical sections gets from it: the locale \<open>spinlock_user\<close>.
\<close>

section \<open>The lock\<close>

text \<open>The byte is set while the lock is held.\<close>

definition HACLOG_SPINLOCK_STATUS_UNLOCK :: bool where
  "HACLOG_SPINLOCK_STATUS_UNLOCK = False"

definition HACLOG_SPINLOCK_STATUS_LOCK :: bool where
  "HACLOG_SPINLOCK_STATUS_LOCK = True"

text \<open>
  \<open>!__atomic_test_and_set(ptr, memorder)\<close>: the byte it leaves, and whether it was clear before.
\<close>

definition haclog_atomic_test_and_set :: "bool \<Rightarrow> bool \<times> bool" where
  "haclog_atomic_test_and_set b = (HACLOG_SPINLOCK_STATUS_LOCK, \<not> b)"

definition haclog_atomic_clear :: "bool \<Rightarrow> bool" where
  "haclog_atomic_clear b = HACLOG_SPINLOCK_STATUS_UNLOCK"

text \<open>
  The loop of \<open>haclog_spinlock_lock\<close> over the values of the byte its test-and-set finds, one per round,
  with a yield between: the byte it leaves, or \<open>None\<close> when it still waits as the observations end.
\<close>

fun haclog_spinlock_lock :: "bool list \<Rightarrow> (bool \<times> bool list) option" where
  "haclog_spinlock_lock [] = None"
| "haclog_spinlock_lock (b # seen) =
     (case haclog_atomic_test_and_set b of
        (b', free) \<Rightarrow> if \<not> free then haclog_spinlock_lock seen else Some (b', seen))"

definition haclog_spinlock_unlock :: "bool \<Rightarrow> bool" where
  "haclog_spinlock_unlock spinlock = haclog_atomic_clear spinlock"

lemmas spinlock_defs = haclog_atomic_test_and_set_def haclog_spinlock_unlock_def haclog_atomic_clear_def
  HACLOG_SPINLOCK_STATUS_LOCK_def HACLOG_SPINLOCK_STATUS_UNLOCK_def

section \<open>Components that use the lock\<close>

text \<open>
  \<open>byte\<close> is the lock's byte and \<open>inside\<close> says which threads are between taking and releasing it.
  A step of the component takes the lock, releases it, or changes neither.
\<close>

definition lock_inv :: "bool \<Rightarrow> ('t \<Rightarrow> bool) \<Rightarrow> bool" where
  "lock_inv b held \<longleftrightarrow> (\<forall>t u. held t \<longrightarrow> held u \<longrightarrow> t = u) \<and> (b \<longleftrightarrow> (\<exists>t. held t))"

locale spinlock_user =
  fixes start :: "'s \<Rightarrow> bool" and step :: "'s \<Rightarrow> 's \<Rightarrow> bool"
    and byte :: "'s \<Rightarrow> bool" and inside :: "'s \<Rightarrow> 't \<Rightarrow> bool"
  assumes unlocked_start: "start s \<Longrightarrow> \<not> byte s \<and> (\<forall>t. \<not> inside s t)"
    and lock_use: "step s s' \<Longrightarrow>
      (byte s' = byte s \<and> inside s' = inside s) \<or>
      (\<exists>t. haclog_atomic_test_and_set (byte s) = (byte s', True) \<and> inside s' = (inside s)(t := True)) \<or>
      (\<exists>t. inside s t \<and> byte s' = haclog_spinlock_unlock (byte s) \<and> inside s' = (inside s)(t := False))"
begin

lemma lock_inv_start: "start s \<Longrightarrow> lock_inv (byte s) (inside s)"
  using unlocked_start by (auto simp: lock_inv_def)

lemma lock_inv_step: "lock_inv (byte s) (inside s) \<Longrightarrow> step s s' \<Longrightarrow> lock_inv (byte s') (inside s')"
  using lock_use [of s s'] by (auto simp: lock_inv_def spinlock_defs split: if_splits)

end

sublocale spinlock_user \<subseteq> lock: invariant_system start step "\<lambda>s. lock_inv (byte s) (inside s)"
  by unfold_locales (blast intro: lock_inv_start lock_inv_step)+

context spinlock_user
begin

text \<open>Never two threads between taking and releasing, and the byte says whether there is one.\<close>

lemma mutual_exclusion: "run_of start step s \<Longrightarrow> inside s t \<Longrightarrow> inside s u \<Longrightarrow> t = u"
  using lock.run_inv [of s] by (auto simp: lock_inv_def)

lemma byte_when_inside: "run_of start step s \<Longrightarrow> byte s \<longleftrightarrow> (\<exists>t. inside s t)"
  using lock.run_inv [of s] by (auto simp: lock_inv_def)

end

end
