(* ===== verification/Haclog_Registry.thy ===== *)
theory Haclog_Registry
  imports Haclog_Spinlock
begin

text \<open>
  The life of thread contexts: \<open>haclog_thread_context.c\<close>, the list operations of \<open>haclog_context.c\<close> and
  the backend loop of \<open>haclog_log.c\<close>, for any number of logging threads, interleaved at their accesses
  to shared memory. A thread's byte ring appears as the queue of its published records, which
  \<open>Haclog_Ring_Props\<close> shows it to be.
\<close>

section \<open>State\<close>

datatype thread_status =
    HACLOG_THREAD_CONTEXT_STATUS_NORMAL
  | HACLOG_THREAD_CONTEXT_STATUS_WAIT_REMOVE
  | HACLOG_THREAD_CONTEXT_STATUS_DONE

record 'm thread_context =
  tc_bytes_buf :: "'m list option"
  tc_tid :: nat
  tc_status :: thread_status

text \<open>
  Where a thread is: outside, or in \<open>haclog_thread_context_init\<close> (\<open>Alloc\<close>),
  \<open>haclog_context_insert_thread_context\<close> (\<open>Insert\<close> to \<open>Unlock\<close>), logging (\<open>Ready\<close>), or in
  \<open>haclog_thread_context_cleanup\<close> (\<open>Join\<close> to \<open>Free\<close>). \<open>Push\<close> carries \<open>node->next\<close>.
\<close>

datatype thread_pc =
    T_Out
  | T_Alloc
  | T_Insert
  | T_Lock
  | T_Link
  | T_Push "nat list"
  | T_Unlock
  | T_Ready
  | T_Join
  | T_Remove
  | T_Wait
  | T_Free

text \<open>
  Where the backend is, with the nodes it has still to visit: moving the new contexts
  (\<open>B_Lock\<close> to \<open>B_Unlock\<close>), consuming (\<open>B_Consume\<close>, \<open>B_Read\<close> with the records before the loaded writer
  position), or looking for contexts to remove (\<open>B_Scan\<close> with the nodes before \<open>node\<close> and from it on).
\<close>

datatype backend_pc =
    B_Lock
  | B_Move
  | B_Pop nat "nat list"
  | B_Take nat
  | B_Unlock
  | B_Consume "nat list"
  | B_Read nat "nat list"
  | B_Scan "nat list" "nat list"
  | B_Mark "nat list" "nat list"
  | B_Unlink "nat list" "nat list"

text \<open>
  Contexts are named by their address; \<open>gs_mem\<close> holds the allocated ones. \<open>gs_logged\<close> and
  \<open>gs_written\<close> are ghost state: what each thread published, and what the backend passed on to the
  handlers, with the thread id of the context it came from.
\<close>

record 'm registry =
  gs_spinlock :: bool
  gs_add_list :: "nat list"
  gs_head :: "nat list"
  gs_mem :: "nat \<rightharpoonup> 'm thread_context"
  gs_local :: "nat \<Rightarrow> nat option"
  gs_pc :: "nat \<Rightarrow> thread_pc"
  gs_backend :: backend_pc
  gs_logged :: "nat \<Rightarrow> 'm list"
  gs_written :: "(nat \<times> 'm) list"

definition goto :: "nat \<Rightarrow> thread_pc \<Rightarrow> 'm registry \<Rightarrow> 'm registry" where
  "goto t pc s = s\<lparr>gs_pc := (gs_pc s)(t := pc)\<rparr>"

definition put_ctx :: "nat \<Rightarrow> 'm thread_context \<Rightarrow> 'm registry \<Rightarrow> 'm registry" where
  "put_ctx c x s = s\<lparr>gs_mem := (gs_mem s)(c \<mapsto> x)\<rparr>"

definition reg_start :: "'m registry \<Rightarrow> bool" where
  "reg_start s \<longleftrightarrow> s = \<lparr>gs_spinlock = HACLOG_SPINLOCK_STATUS_UNLOCK, gs_add_list = [], gs_head = [],
     gs_mem = Map.empty, gs_local = (\<lambda>t. None), gs_pc = (\<lambda>t. T_Out), gs_backend = B_Lock,
     gs_logged = (\<lambda>t. []), gs_written = []\<rparr>"

section \<open>Steps of a logging thread\<close>

text \<open>
  \<open>haclog_thread_context_init\<close> up to the insertion. When the buffer cannot be made, the cleanup
  skips the join, \<open>bytes_buf\<close> being NULL.
\<close>

inductive init_step :: "nat \<Rightarrow> 'm registry \<Rightarrow> 'm registry \<Rightarrow> bool" for t where
  init_alloc:
    "gs_pc s t = T_Out \<Longrightarrow> gs_local s t = None \<Longrightarrow> gs_mem s c = None \<Longrightarrow>
     init_step t s (goto t T_Alloc (put_ctx c
       \<lparr>tc_bytes_buf = None, tc_tid = 0, tc_status = HACLOG_THREAD_CONTEXT_STATUS_NORMAL\<rparr>
       (s\<lparr>gs_local := (gs_local s)(t \<mapsto> c)\<rparr>)))"
| init_no_memory:
    "gs_pc s t = T_Out \<Longrightarrow> gs_local s t = None \<Longrightarrow> init_step t s s"
| init_buffer:
    "gs_pc s t = T_Alloc \<Longrightarrow> gs_local s t = Some c \<Longrightarrow> gs_mem s c = Some x \<Longrightarrow>
     init_step t s (goto t T_Insert (put_ctx c
       (x\<lparr>tc_bytes_buf := Some [], tc_tid := t, tc_status := HACLOG_THREAD_CONTEXT_STATUS_NORMAL\<rparr>) s))"
| init_no_buffer:
    "gs_pc s t = T_Alloc \<Longrightarrow> init_step t s (goto t T_Remove s)"

text \<open>\<open>haclog_context_insert_thread_context\<close>; when it fails, the context is cleaned up.\<close>

inductive insert_step :: "nat \<Rightarrow> 'm registry \<Rightarrow> 'm registry \<Rightarrow> bool" for t where
  insert_node:
    "gs_pc s t = T_Insert \<Longrightarrow> insert_step t s (goto t T_Lock s)"
| insert_no_memory:
    "gs_pc s t = T_Insert \<Longrightarrow> insert_step t s (goto t T_Join s)"
| insert_lock:
    "gs_pc s t = T_Lock \<Longrightarrow> haclog_atomic_test_and_set (gs_spinlock s) = (b, free) \<Longrightarrow>
     insert_step t s (goto t (if free then T_Link else T_Lock) (s\<lparr>gs_spinlock := b\<rparr>))"
| insert_link:
    "gs_pc s t = T_Link \<Longrightarrow> insert_step t s (goto t (T_Push (gs_add_list s)) s)"
| insert_push:
    "gs_pc s t = T_Push ns \<Longrightarrow> gs_local s t = Some c \<Longrightarrow>
     insert_step t s (goto t T_Unlock (s\<lparr>gs_add_list := c # ns\<rparr>))"
| insert_unlock:
    "gs_pc s t = T_Unlock \<Longrightarrow>
     insert_step t s (goto t T_Ready (s\<lparr>gs_spinlock := haclog_spinlock_unlock (gs_spinlock s)\<rparr>))"

text \<open>A log statement publishes a record.\<close>

inductive log_step :: "nat \<Rightarrow> 'm registry \<Rightarrow> 'm registry \<Rightarrow> bool" for t where
  log_publish:
    "gs_pc s t = T_Ready \<Longrightarrow> gs_local s t = Some c \<Longrightarrow> gs_mem s c = Some x \<Longrightarrow> tc_bytes_buf x = Some q \<Longrightarrow>
     log_step t s (put_ctx c (x\<lparr>tc_bytes_buf := Some (q @ [m])\<rparr>)
       (s\<lparr>gs_logged := (gs_logged s)(t := gs_logged s t @ [m])\<rparr>))"

text \<open>
  \<open>haclog_thread_context_cleanup\<close>: wait until the ring is empty, have the context removed, free it.
\<close>

inductive cleanup_step :: "nat \<Rightarrow> 'm registry \<Rightarrow> 'm registry \<Rightarrow> bool" for t where
  cleanup_start:
    "gs_pc s t = T_Ready \<Longrightarrow> cleanup_step t s (goto t T_Join s)"
| cleanup_join:
    "gs_pc s t = T_Join \<Longrightarrow> gs_local s t = Some c \<Longrightarrow> gs_mem s c = Some x \<Longrightarrow> tc_bytes_buf x = Some [] \<Longrightarrow>
     cleanup_step t s (goto t T_Remove s)"
| cleanup_free:
    "gs_pc s t = T_Free \<Longrightarrow> gs_local s t = Some c \<Longrightarrow>
     cleanup_step t s (goto t T_Out (s\<lparr>gs_mem := (gs_mem s)(c := None), gs_local := (gs_local s)(t := None)\<rparr>))"

text \<open>
  \<open>haclog_context_remove_thread_context\<close>: ask to be removed, and look for the backend's answer, with a
  sleep between.
\<close>

inductive remove_step :: "nat \<Rightarrow> 'm registry \<Rightarrow> 'm registry \<Rightarrow> bool" for t where
  remove_ask:
    "gs_pc s t = T_Remove \<Longrightarrow> gs_local s t = Some c \<Longrightarrow> gs_mem s c = Some x \<Longrightarrow>
     remove_step t s (goto t T_Wait
       (put_ctx c (x\<lparr>tc_status := HACLOG_THREAD_CONTEXT_STATUS_WAIT_REMOVE\<rparr>) s))"
| remove_wait:
    "gs_pc s t = T_Wait \<Longrightarrow> gs_local s t = Some c \<Longrightarrow> gs_mem s c = Some x \<Longrightarrow>
     remove_step t s
       (goto t (if tc_status x = HACLOG_THREAD_CONTEXT_STATUS_DONE then T_Free else T_Wait) s)"

section \<open>Steps of the backend\<close>

text \<open>\<open>haclog_handle_new_thread_ctx\<close>\<close>

inductive new_ctx_step :: "'m registry \<Rightarrow> 'm registry \<Rightarrow> bool" where
  new_lock:
    "gs_backend s = B_Lock \<Longrightarrow> haclog_atomic_test_and_set (gs_spinlock s) = (b, free) \<Longrightarrow>
     new_ctx_step s (s\<lparr>gs_spinlock := b, gs_backend := (if free then B_Move else B_Lock)\<rparr>)"
| new_node:
    "gs_backend s = B_Move \<Longrightarrow> gs_add_list s = c # ns \<Longrightarrow> new_ctx_step s (s\<lparr>gs_backend := B_Pop c ns\<rparr>)"
| new_pop:
    "gs_backend s = B_Pop c ns \<Longrightarrow> new_ctx_step s (s\<lparr>gs_add_list := ns, gs_backend := B_Take c\<rparr>)"
| new_take:
    "gs_backend s = B_Take c \<Longrightarrow> new_ctx_step s (s\<lparr>gs_head := c # gs_head s, gs_backend := B_Move\<rparr>)"
| new_end:
    "gs_backend s = B_Move \<Longrightarrow> gs_add_list s = [] \<Longrightarrow> new_ctx_step s (s\<lparr>gs_backend := B_Unlock\<rparr>)"
| new_unlock:
    "gs_backend s = B_Unlock \<Longrightarrow>
     new_ctx_step s (s\<lparr>gs_spinlock := haclog_spinlock_unlock (gs_spinlock s), gs_backend := B_Consume (gs_head s)\<rparr>)"

text \<open>The loop over the nodes and \<open>haclog_consume\<close>, a record at a time.\<close>

inductive consume_step :: "'m registry \<Rightarrow> 'm registry \<Rightarrow> bool" where
  consume_load:
    "gs_backend s = B_Consume (c # cs) \<Longrightarrow> gs_mem s c = Some x \<Longrightarrow> tc_bytes_buf x = Some q \<Longrightarrow>
     consume_step s (s\<lparr>gs_backend := B_Read (length q) (c # cs)\<rparr>)"
| consume_record:
    "gs_backend s = B_Read (Suc k) (c # cs) \<Longrightarrow> gs_mem s c = Some x \<Longrightarrow> tc_bytes_buf x = Some (m # q) \<Longrightarrow>
     consume_step s (put_ctx c (x\<lparr>tc_bytes_buf := Some q\<rparr>)
       (s\<lparr>gs_written := gs_written s @ [(tc_tid x, m)], gs_backend := B_Read k (c # cs)\<rparr>))"
| consume_next:
    "gs_backend s = B_Read 0 (c # cs) \<Longrightarrow> consume_step s (s\<lparr>gs_backend := B_Consume cs\<rparr>)"
| consume_end:
    "gs_backend s = B_Consume [] \<Longrightarrow> consume_step s (s\<lparr>gs_backend := B_Scan [] (gs_head s)\<rparr>)"

text \<open>\<open>haclog_handle_remove_thread_ctx\<close>\<close>

inductive remove_ctx_step :: "'m registry \<Rightarrow> 'm registry \<Rightarrow> bool" where
  remove_load:
    "gs_backend s = B_Scan prev (c # cs) \<Longrightarrow> gs_mem s c = Some x \<Longrightarrow>
     remove_ctx_step s (s\<lparr>gs_backend :=
       (if tc_status x = HACLOG_THREAD_CONTEXT_STATUS_WAIT_REMOVE then B_Mark prev (c # cs)
        else B_Scan (prev @ [c]) cs)\<rparr>)"
| remove_done:
    "gs_backend s = B_Mark prev (c # cs) \<Longrightarrow> gs_mem s c = Some x \<Longrightarrow>
     remove_ctx_step s (put_ctx c (x\<lparr>tc_status := HACLOG_THREAD_CONTEXT_STATUS_DONE\<rparr>)
       (s\<lparr>gs_backend := B_Unlink prev (c # cs)\<rparr>))"
| remove_unlink:
    "gs_backend s = B_Unlink prev (c # cs) \<Longrightarrow>
     remove_ctx_step s (s\<lparr>gs_head := prev @ cs, gs_backend := B_Scan prev cs\<rparr>)"
| remove_end:
    "gs_backend s = B_Scan prev [] \<Longrightarrow> remove_ctx_step s (s\<lparr>gs_backend := B_Lock\<rparr>)"

section \<open>Runs\<close>

definition thread_step :: "nat \<Rightarrow> 'm registry \<Rightarrow> 'm registry \<Rightarrow> bool" where
  "thread_step t s s' \<longleftrightarrow> init_step t s s' \<or> insert_step t s s' \<or> log_step t s s' \<or> cleanup_step t s s' \<or>
     remove_step t s s'"

definition backend_step :: "'m registry \<Rightarrow> 'm registry \<Rightarrow> bool" where
  "backend_step s s' \<longleftrightarrow> new_ctx_step s s' \<or> consume_step s s' \<or> remove_ctx_step s s'"

lemma backend_stepE:
  assumes "backend_step s s'"
  obtains "new_ctx_step s s'" | "consume_step s s'" | "remove_ctx_step s s'"
  using assms unfolding backend_step_def by blast

lemma thread_stepE:
  assumes "thread_step t s s'"
  obtains "init_step t s s'" | "insert_step t s s'" | "log_step t s s'" | "cleanup_step t s s'" | "remove_step t s s'"
  using assms unfolding thread_step_def by blast

definition reg_step :: "'m registry \<Rightarrow> 'm registry \<Rightarrow> bool" where
  "reg_step s s' \<longleftrightarrow> (\<exists>t. thread_step t s s') \<or> backend_step s s'"

abbreviation reg_reachable :: "'m registry \<Rightarrow> bool" where
  "reg_reachable \<equiv> run_of reg_start reg_step"

end
