(* ===== verification/Haclog_Registry_Inv.thy ===== *)
theory Haclog_Registry_Inv
  imports Haclog_Registry
begin

text \<open>
  The invariant of the registry. Every listed context is allocated and belongs to a thread that has
  registered it and not yet been answered; each thread's records are in its ring or written, in order.
\<close>

section \<open>The lock\<close>

text \<open>The backend holds the lock as \<open>None\<close>, thread \<open>t\<close> as \<open>Some t\<close>.\<close>

fun backend_inside :: "backend_pc \<Rightarrow> bool" where
  "backend_inside B_Move = True"
| "backend_inside (B_Pop c ns) = True"
| "backend_inside (B_Take c) = True"
| "backend_inside B_Unlock = True"
| "backend_inside _ = False"

fun thread_inside :: "thread_pc \<Rightarrow> bool" where
  "thread_inside T_Link = True"
| "thread_inside (T_Push ns) = True"
| "thread_inside T_Unlock = True"
| "thread_inside _ = False"

definition reg_inside :: "'m registry \<Rightarrow> nat option \<Rightarrow> bool" where
  "reg_inside s h = (case h of None \<Rightarrow> backend_inside (gs_backend s) | Some t \<Rightarrow> thread_inside (gs_pc s t))"

lemma goto_simps [simp]:
  "gs_pc (goto t p s) = (gs_pc s)(t := p)" "gs_local (goto t p s) = gs_local s" "gs_mem (goto t p s) = gs_mem s"
  "gs_add_list (goto t p s) = gs_add_list s" "gs_head (goto t p s) = gs_head s"
  "gs_backend (goto t p s) = gs_backend s" "gs_spinlock (goto t p s) = gs_spinlock s"
  "gs_logged (goto t p s) = gs_logged s" "gs_written (goto t p s) = gs_written s"
  by (simp_all add: goto_def)

lemma put_ctx_simps [simp]:
  "gs_mem (put_ctx c x s) = (gs_mem s)(c \<mapsto> x)" "gs_pc (put_ctx c x s) = gs_pc s"
  "gs_local (put_ctx c x s) = gs_local s"
  "gs_add_list (put_ctx c x s) = gs_add_list s" "gs_head (put_ctx c x s) = gs_head s"
  "gs_backend (put_ctx c x s) = gs_backend s" "gs_spinlock (put_ctx c x s) = gs_spinlock s"
  "gs_logged (put_ctx c x s) = gs_logged s" "gs_written (put_ctx c x s) = gs_written s"
  by (simp_all add: put_ctx_def)

lemma reg_inside_thread:
  "gs_backend s' = gs_backend s \<Longrightarrow> gs_pc s' = (gs_pc s)(t := p) \<Longrightarrow>
   reg_inside s' = (reg_inside s)(Some t := thread_inside p)"
  by (auto simp: reg_inside_def fun_eq_iff split: option.splits)

lemma reg_inside_backend:
  "gs_pc s' = gs_pc s \<Longrightarrow> reg_inside s' = (reg_inside s)(None := backend_inside (gs_backend s'))"
  by (auto simp: reg_inside_def fun_eq_iff split: option.splits)

lemma reg_inside_at: "reg_inside s (Some t) = thread_inside (gs_pc s t)" "reg_inside s None = backend_inside (gs_backend s)"
  by (simp_all add: reg_inside_def)

definition lock_kept :: "'m registry \<Rightarrow> 'm registry \<Rightarrow> bool" where
  "lock_kept s s' \<longleftrightarrow>
     (gs_spinlock s' = gs_spinlock s \<and> reg_inside s' = reg_inside s) \<or>
     (\<exists>t. haclog_atomic_test_and_set (gs_spinlock s) = (gs_spinlock s', True) \<and> reg_inside s' = (reg_inside s)(t := True)) \<or>
     (\<exists>t. reg_inside s t \<and> gs_spinlock s' = haclog_spinlock_unlock (gs_spinlock s) \<and> reg_inside s' = (reg_inside s)(t := False))"

lemma lock_kept_thread:
  assumes "gs_backend s' = gs_backend s" "\<And>u. u \<noteq> t \<Longrightarrow> gs_pc s' u = gs_pc s u"
    "gs_spinlock s' = gs_spinlock s" "thread_inside (gs_pc s' t) = thread_inside (gs_pc s t)"
  shows "lock_kept s s'"
proof -
  have "reg_inside s' u = reg_inside s u" for u
    using assms by (cases "u = Some t") (auto simp: reg_inside_def split: option.splits)
  then show ?thesis using assms(3) by (auto simp: lock_kept_def)
qed

lemma lock_kept_backend:
  assumes "gs_pc s' = gs_pc s" "gs_spinlock s' = gs_spinlock s"
    "backend_inside (gs_backend s') = backend_inside (gs_backend s)"
  shows "lock_kept s s'"
  using reg_inside_backend [OF assms(1)] assms(2,3) by (simp add: lock_kept_def reg_inside_at fun_upd_idem_iff)

lemma thread_lock_kept:
  assumes "thread_step t s s'" shows "lock_kept s s'"
proof -
  from assms show ?thesis
  proof (cases rule: thread_stepE)
    case 1
    then show ?thesis
    proof cases
      case init_no_memory
      then show ?thesis by (simp add: lock_kept_def)
    qed (rule lock_kept_thread [where t = t]; simp)+
  next
    case 2
    then show ?thesis
    proof cases
      case (insert_lock b free)
      have "reg_inside s' = (reg_inside s)(Some t := free)"
        using reg_inside_thread [of s' s t "if free then T_Link else T_Lock"] insert_lock by simp
      moreover have "\<not> reg_inside s (Some t)" using insert_lock by (simp add: reg_inside_at)
      ultimately show ?thesis using insert_lock
        by (cases free) (auto simp: lock_kept_def spinlock_defs fun_upd_idem_iff)
    next
      case insert_unlock
      have "reg_inside s' = (reg_inside s)(Some t := False)"
        using reg_inside_thread [of s' s t T_Ready] insert_unlock by simp
      moreover have "reg_inside s (Some t)" using insert_unlock by (simp add: reg_inside_at)
      ultimately show ?thesis using insert_unlock by (auto simp: lock_kept_def)
    qed (rule lock_kept_thread [where t = t]; simp)+
  next
    case 3
    then show ?thesis by cases (rule lock_kept_thread [where t = t]; simp)
  next
    case 4
    then show ?thesis by cases (rule lock_kept_thread [where t = t]; simp)+
  next
    case 5
    then show ?thesis by cases (rule lock_kept_thread [where t = t]; simp)+
  qed
qed

lemma backend_lock_kept:
  assumes "backend_step s s'" shows "lock_kept s s'"
proof -
  from assms show ?thesis
  proof (cases rule: backend_stepE)
    case 1
    then show ?thesis
    proof cases
      case (new_lock b free)
      have "reg_inside s' = (reg_inside s)(None := free)"
        using reg_inside_backend [of s' s] new_lock by simp
      moreover have "\<not> reg_inside s None" using new_lock by (simp add: reg_inside_at)
      ultimately show ?thesis using new_lock
        by (cases free) (auto simp: lock_kept_def spinlock_defs fun_upd_idem_iff)
    next
      case new_unlock
      have "reg_inside s' = (reg_inside s)(None := False)"
        using reg_inside_backend [of s' s] new_unlock by simp
      moreover have "reg_inside s None" using new_unlock by (simp add: reg_inside_at)
      ultimately show ?thesis using new_unlock by (auto simp: lock_kept_def)
    qed (rule lock_kept_backend; simp)+
  next
    case 2
    then show ?thesis by cases (rule lock_kept_backend; simp)+
  next
    case 3
    then show ?thesis by cases (rule lock_kept_backend; simp)+
  qed
qed

interpretation ctx_lock: spinlock_user reg_start reg_step gs_spinlock reg_inside
proof unfold_locales
  fix s s' :: "'m registry"
  show "reg_start s \<Longrightarrow> \<not> gs_spinlock s \<and> (\<forall>t. \<not> reg_inside s t)"
    by (simp add: reg_start_def reg_inside_def spinlock_defs split: option.splits)
  assume "reg_step s s'"
  then have "lock_kept s s'"
    unfolding reg_step_def using thread_lock_kept backend_lock_kept by blast
  then show "(gs_spinlock s' = gs_spinlock s \<and> reg_inside s' = reg_inside s) \<or>
      (\<exists>t. haclog_atomic_test_and_set (gs_spinlock s) = (gs_spinlock s', True) \<and> reg_inside s' = (reg_inside s)(t := True)) \<or>
      (\<exists>t. reg_inside s t \<and> gs_spinlock s' = haclog_spinlock_unlock (gs_spinlock s) \<and> reg_inside s' = (reg_inside s)(t := False))"
    unfolding lock_kept_def .
qed

section \<open>The invariant\<close>

text \<open>
  The nodes the backend works through: not yet one it has just taken off the add list, no more the one
  whose context it has answered.
\<close>

definition linked :: "'m registry \<Rightarrow> nat list" where
  "linked s = (case gs_backend s of
     B_Take c \<Rightarrow> c # gs_head s
   | B_Unlink prev cs \<Rightarrow> prev @ tl cs
   | _ \<Rightarrow> gs_head s)"

abbreviation listed :: "'m registry \<Rightarrow> nat list" where
  "listed s \<equiv> gs_add_list s @ linked s"

text \<open>What a thread's own context looks like while it is at a point of the code.\<close>

fun ctx_ok :: "thread_pc \<Rightarrow> nat \<Rightarrow> 'm thread_context \<Rightarrow> bool" where
  "ctx_ok T_Out t x = True"
| "ctx_ok T_Alloc t x =
     (tc_bytes_buf x = None \<and> tc_status x = HACLOG_THREAD_CONTEXT_STATUS_NORMAL)"
| "ctx_ok T_Remove t x =
     (tc_bytes_buf x \<in> {None, Some []} \<and> tc_status x = HACLOG_THREAD_CONTEXT_STATUS_NORMAL)"
| "ctx_ok T_Wait t x =
     (tc_bytes_buf x \<in> {None, Some []} \<and> tc_status x \<noteq> HACLOG_THREAD_CONTEXT_STATUS_NORMAL)"
| "ctx_ok T_Free t x =
     (tc_bytes_buf x \<in> {None, Some []} \<and> tc_status x = HACLOG_THREAD_CONTEXT_STATUS_DONE)"
| "ctx_ok _ t x =
     (tc_bytes_buf x \<noteq> None \<and> tc_tid x = t \<and> tc_status x = HACLOG_THREAD_CONTEXT_STATUS_NORMAL)"

fun registered :: "thread_pc \<Rightarrow> bool" where
  "registered T_Unlock = True"
| "registered T_Ready = True"
| "registered T_Join = True"
| "registered T_Remove = True"
| "registered T_Wait = True"
| "registered _ = False"

definition thread_ok :: "'m registry \<Rightarrow> nat \<Rightarrow> bool" where
  "thread_ok s t \<longleftrightarrow>
     (case gs_local s t of
        None \<Rightarrow> gs_pc s t = T_Out
      | Some c \<Rightarrow> gs_pc s t \<noteq> T_Out \<and> (\<exists>x. gs_mem s c = Some x \<and> ctx_ok (gs_pc s t) t x)) \<and>
     (\<forall>ns. gs_pc s t = T_Push ns \<longrightarrow> ns = gs_add_list s)"

definition owners_ok :: "'m registry \<Rightarrow> bool" where
  "owners_ok s \<longleftrightarrow> (\<forall>t u c. gs_local s t = Some c \<longrightarrow> gs_local s u = Some c \<longrightarrow> t = u)"

definition listed_ok :: "'m registry \<Rightarrow> nat \<Rightarrow> bool" where
  "listed_ok s c \<longleftrightarrow> (\<exists>t x. gs_local s t = Some c \<and> gs_mem s c = Some x \<and> registered (gs_pc s t) \<and>
     tc_bytes_buf x \<noteq> None \<and> tc_tid x = t \<and> tc_status x \<noteq> HACLOG_THREAD_CONTEXT_STATUS_DONE)"

definition backend_ok :: "'m registry \<Rightarrow> bool" where
  "backend_ok s \<longleftrightarrow> (case gs_backend s of
     B_Pop c ns \<Rightarrow> gs_add_list s = c # ns
   | B_Unlock \<Rightarrow> gs_add_list s = []
   | B_Consume cs \<Rightarrow> (\<exists>ds. gs_head s = ds @ cs)
   | B_Read k cs \<Rightarrow> (\<exists>ds c cs' x q. cs = c # cs' \<and> gs_head s = ds @ cs \<and> gs_mem s c = Some x \<and>
       tc_bytes_buf x = Some q \<and> k \<le> length q)
   | B_Scan prev cs \<Rightarrow> gs_head s = prev @ cs
   | B_Mark prev cs \<Rightarrow> (\<exists>c cs' x. cs = c # cs' \<and> gs_head s = prev @ cs \<and> gs_mem s c = Some x \<and>
       tc_status x = HACLOG_THREAD_CONTEXT_STATUS_WAIT_REMOVE)
   | B_Unlink prev cs \<Rightarrow> cs \<noteq> [] \<and> gs_head s = prev @ cs
   | _ \<Rightarrow> True)"

text \<open>The records of thread t that the backend has not read, and those it has passed on.\<close>

definition pending_of :: "'m registry \<Rightarrow> nat \<Rightarrow> 'm list" where
  "pending_of s t = (case gs_local s t of None \<Rightarrow> [] | Some c \<Rightarrow>
     (case gs_mem s c of None \<Rightarrow> [] | Some x \<Rightarrow> (case tc_bytes_buf x of None \<Rightarrow> [] | Some q \<Rightarrow> q)))"

definition written_of :: "'m registry \<Rightarrow> nat \<Rightarrow> 'm list" where
  "written_of s t = map snd (filter (\<lambda>r. fst r = t) (gs_written s))"

definition reg_inv :: "'m registry \<Rightarrow> bool" where
  "reg_inv s \<longleftrightarrow> lock_inv (gs_spinlock s) (reg_inside s) \<and> (\<forall>t. thread_ok s t) \<and> owners_ok s \<and>
     distinct (listed s) \<and> (\<forall>c\<in>set (listed s). listed_ok s c) \<and> backend_ok s \<and>
     (\<forall>t. written_of s t @ pending_of s t = gs_logged s t)"

lemma reg_inv_parts:
  assumes "reg_inv s"
  shows "lock_inv (gs_spinlock s) (reg_inside s)" "thread_ok s t" "owners_ok s" "distinct (listed s)"
    "c \<in> set (listed s) \<Longrightarrow> listed_ok s c" "backend_ok s" "written_of s t @ pending_of s t = gs_logged s t"
  using assms by (auto simp: reg_inv_def)

text \<open>
  A step of thread t changes no other thread's context; what is left to show is about t, its context
  and the lists.
\<close>

lemma thread_frame:
  assumes inv: "reg_inv s" and lock: "lock_kept s s'"
    and others: "\<And>u. u \<noteq> t \<Longrightarrow> gs_pc s' u = gs_pc s u \<and> gs_local s' u = gs_local s u \<and> gs_logged s' u = gs_logged s u"
    and mem: "\<And>c. gs_local s t \<noteq> Some c \<Longrightarrow> gs_mem s c \<noteq> None \<Longrightarrow> gs_mem s' c = gs_mem s c"
    and same: "gs_backend s' = gs_backend s" "gs_head s' = gs_head s" "gs_written s' = gs_written s"
    and fresh: "\<And>c. gs_local s' t = Some c \<Longrightarrow> gs_local s t = Some c \<or> gs_mem s c = None"
    and add: "gs_add_list s' = gs_add_list s \<or>
      (\<exists>c. gs_local s t = Some c \<and> gs_local s' t = Some c \<and> gs_add_list s' = c # gs_add_list s \<and>
        \<not> registered (gs_pc s t) \<and> thread_inside (gs_pc s t) \<and> listed_ok s' c)"
    and ok: "thread_ok s' t" and own: "written_of s t @ pending_of s' t = gs_logged s' t"
    and ctx: "\<And>c. gs_local s t = Some c \<Longrightarrow> listed_ok s c \<Longrightarrow> listed_ok s' c"
    and grow: "\<And>c x. gs_local s t = Some c \<Longrightarrow> listed_ok s c \<Longrightarrow> gs_mem s c = Some x \<Longrightarrow>
      \<exists>x'. gs_mem s' c = Some x' \<and> (tc_status x = HACLOG_THREAD_CONTEXT_STATUS_WAIT_REMOVE \<longrightarrow> tc_status x' = tc_status x) \<and>
        (\<forall>q. tc_bytes_buf x = Some q \<longrightarrow> (\<exists>q'. tc_bytes_buf x' = Some (q @ q')))"
  shows "reg_inv s'"
proof -
  have l: "lock_inv (gs_spinlock s) (reg_inside s)" using reg_inv_parts(1) [OF inv] .
  then have l': "lock_inv (gs_spinlock s') (reg_inside s')"
    using lock by (auto simp: lock_inv_def lock_kept_def spinlock_defs split: if_splits)
  have ctxs: "\<exists>x. gs_mem s c = Some x" if "gs_local s u = Some c" for u c
    using reg_inv_parts(2) [OF inv, of u] that by (auto simp: thread_ok_def)
  have uniq: "u = v" if "gs_local s u = Some c" "gs_local s v = Some c" for u v c
    using reg_inv_parts(3) [OF inv] that unfolding owners_ok_def by blast
  have keep: "gs_mem s' c = gs_mem s c" if "u \<noteq> t" "gs_local s u = Some c" for u c
    using mem [of c] uniq [of u c t] ctxs [of u c] that by auto
  have "thread_ok s' u" for u
  proof (cases "u = t")
    case False
    have "gs_add_list s' = gs_add_list s" if "gs_pc s u = T_Push ns" for ns
    proof (rule ccontr)
      assume "gs_add_list s' \<noteq> gs_add_list s"
      then have "reg_inside s (Some t)" "reg_inside s (Some u)" using add that by (auto simp: reg_inside_def)
      with l False show False by (auto simp: lock_inv_def)
    qed
    then show ?thesis using reg_inv_parts(2) [OF inv, of u] others [OF False] keep [OF False]
      by (auto simp: thread_ok_def split: option.splits)
  qed (use ok in simp)
  moreover have "owners_ok s'"
    using others fresh uniq ctxs unfolding owners_ok_def by (metis option.distinct(1))
  moreover have linked: "linked s' = linked s" by (simp only: linked_def same)
  have listed: "listed_ok s' c" if "c \<in> set (listed s)" for c
  proof -
    from reg_inv_parts(5) [OF inv that] have lo: "listed_ok s c" .
    then obtain u where u: "gs_local s u = Some c" by (auto simp: listed_ok_def)
    show ?thesis
    proof (cases "u = t")
      case True
      then show ?thesis using ctx [of c] u lo by simp
    next
      case False
      from lo obtain v where "gs_local s v = Some c" "registered (gs_pc s v)" "\<exists>x. gs_mem s c = Some x \<and>
          tc_bytes_buf x \<noteq> None \<and> tc_tid x = v \<and> tc_status x \<noteq> HACLOG_THREAD_CONTEXT_STATUS_DONE"
        unfolding listed_ok_def by blast
      moreover from this(1) u uniq have "v = u" by blast
      ultimately show ?thesis using others [OF False] keep [OF False u] by (auto simp: listed_ok_def)
    qed
  qed
  have "c \<notin> set (listed s)" if c: "gs_local s t = Some c" "\<not> registered (gs_pc s t)" for c
  proof
    assume "c \<in> set (listed s)"
    from reg_inv_parts(5) [OF inv this] obtain u where "gs_local s u = Some c" "registered (gs_pc s u)"
      unfolding listed_ok_def by blast
    with uniq [of u c t] c show False by simp
  qed
  then have "distinct (listed s')" "\<forall>c\<in>set (listed s'). listed_ok s' c"
    using add listed reg_inv_parts(4) [OF inv] unfolding linked by auto
  moreover have "written_of s' u @ pending_of s' u = gs_logged s' u" for u
  proof (cases "u = t")
    case True
    then show ?thesis using own same(3) by (simp add: written_of_def)
  next
    case False
    then show ?thesis using reg_inv_parts(7) [OF inv, of u] others [OF False] keep [OF False] same(3)
      by (auto simp: written_of_def pending_of_def split: option.splits)
  qed
  moreover have "backend_ok s'"
  proof -
    have grown: "\<exists>x'. gs_mem s' c = Some x' \<and>
        (tc_status x = HACLOG_THREAD_CONTEXT_STATUS_WAIT_REMOVE \<longrightarrow> tc_status x' = tc_status x) \<and>
        (\<forall>q. tc_bytes_buf x = Some q \<longrightarrow> (\<exists>q'. tc_bytes_buf x' = Some (q @ q')))"
      if "c \<in> set (listed s)" "gs_mem s c = Some x" for c x
    proof -
      from reg_inv_parts(5) [OF inv that(1)] have lo: "listed_ok s c" .
      then obtain u where u: "gs_local s u = Some c" by (auto simp: listed_ok_def)
      show ?thesis
      proof (cases "u = t")
        case True
        then show ?thesis using grow [of c x] u lo that(2) by simp
      next
        case False
        then show ?thesis using keep [OF False u] that(2) by simp
      qed
    qed
    have b: "backend_ok s" using reg_inv_parts(6) [OF inv] .
    have added: "gs_add_list s' = gs_add_list s" if "backend_inside (gs_backend s)"
    proof (rule ccontr)
      assume "gs_add_list s' \<noteq> gs_add_list s"
      then have "reg_inside s (Some t)" "reg_inside s None" using add that by (auto simp: reg_inside_def)
      with l show False by (auto simp: lock_inv_def)
    qed
    show ?thesis
    proof (cases "gs_backend s")
      case (B_Read k cs)
      then obtain ds c cs' x q where c: "cs = c # cs'" "gs_head s = ds @ cs" "gs_mem s c = Some x"
        "tc_bytes_buf x = Some q" "k \<le> length q" using b by (auto simp: backend_ok_def)
      moreover have "c \<in> set (listed s)" using c(1,2) B_Read by (simp add: linked_def)
      ultimately show ?thesis using grown [of c x] same B_Read by (fastforce simp: backend_ok_def)
    next
      case (B_Mark prev cs)
      then obtain c cs' x where c: "cs = c # cs'" "gs_head s = prev @ cs" "gs_mem s c = Some x"
        "tc_status x = HACLOG_THREAD_CONTEXT_STATUS_WAIT_REMOVE" using b by (auto simp: backend_ok_def)
      moreover have "c \<in> set (listed s)" using c(1,2) B_Mark by (simp add: linked_def)
      ultimately show ?thesis using grown [of c x] same B_Mark by (fastforce simp: backend_ok_def)
    qed (use b same added in \<open>auto simp: backend_ok_def\<close>)
  qed
  ultimately show ?thesis using l' by (simp add: reg_inv_def)
qed

section \<open>Every step keeps it\<close>

lemma thread_at:
  assumes "reg_inv s" "gs_pc s t = pc"
  shows "pc = T_Out \<Longrightarrow> gs_local s t = None"
    and "pc \<noteq> T_Out \<Longrightarrow> \<exists>c x. gs_local s t = Some c \<and> gs_mem s c = Some x \<and> ctx_ok pc t x"
    and "pc = T_Push ns \<Longrightarrow> ns = gs_add_list s"
  using reg_inv_parts(2) [OF assms(1), of t] assms(2) by (auto simp: thread_ok_def split: option.splits)

lemmas frame_defs = thread_ok_def pending_of_def listed_ok_def owners_ok_def

lemma thread_step_inv:
  assumes inv: "reg_inv s" and st: "thread_step t s s'"
  shows "reg_inv s'"
proof -
  note frame = thread_frame [OF inv thread_lock_kept [OF st], of t]
  note at = reg_inv_parts(7) [OF inv, of t] reg_inv_parts(3) [OF inv] thread_at [OF inv refl, of t]
  from st show ?thesis
  proof (cases rule: thread_stepE)
    case 1
    then show ?thesis
    proof cases
      case init_no_memory
      with inv show ?thesis by simp
    qed (rule frame; use at in \<open>auto simp: frame_defs\<close>)+
  next
    case 2
    then show ?thesis by cases (rule frame; use at in \<open>auto simp: frame_defs\<close>)+
  next
    case 3
    then show ?thesis by cases (rule frame; use at in \<open>auto simp: frame_defs\<close>)
  next
    case 4
    then show ?thesis by cases (rule frame; use at in \<open>auto simp: frame_defs\<close>)+
  next
    case 5
    then show ?thesis by cases (rule frame; use at in \<open>auto simp: frame_defs\<close>)+
  qed
qed

text \<open>A step of the backend changes no thread's program counter.\<close>

lemma backend_frame:
  assumes inv: "reg_inv s" and lock: "lock_kept s s'"
    and same: "gs_pc s' = gs_pc s" "gs_local s' = gs_local s" "gs_logged s' = gs_logged s"
    and add: "gs_add_list s' = gs_add_list s \<or> backend_inside (gs_backend s)"
    and ctx: "\<And>t c x. gs_local s t = Some c \<Longrightarrow> gs_mem s c = Some x \<Longrightarrow> ctx_ok (gs_pc s t) t x \<Longrightarrow>
      \<exists>x'. gs_mem s' c = Some x' \<and> ctx_ok (gs_pc s t) t x'"
    and lists: "distinct (listed s')" "\<And>c. c \<in> set (listed s') \<Longrightarrow> c \<in> set (listed s)"
      "\<And>c. c \<in> set (listed s') \<Longrightarrow> listed_ok s c \<Longrightarrow> listed_ok s' c"
    and backend: "backend_ok s'"
    and own: "\<And>t. written_of s' t @ pending_of s' t = written_of s t @ pending_of s t"
  shows "reg_inv s'"
proof -
  have l: "lock_inv (gs_spinlock s) (reg_inside s)" using reg_inv_parts(1) [OF inv] .
  then have l': "lock_inv (gs_spinlock s') (reg_inside s')"
    using lock by (auto simp: lock_inv_def lock_kept_def spinlock_defs split: if_splits)
  have "thread_ok s' t" for t
  proof -
    have "gs_add_list s' = gs_add_list s" if "gs_pc s t = T_Push ns" for ns
    proof (rule ccontr)
      assume "gs_add_list s' \<noteq> gs_add_list s"
      then have "reg_inside s None" "reg_inside s (Some t)" using add that by (auto simp: reg_inside_def)
      with l show False by (auto simp: lock_inv_def)
    qed
    then show ?thesis using reg_inv_parts(2) [OF inv, of t] ctx [of t] same
      by (auto simp: thread_ok_def split: option.splits)
  qed
  moreover have "owners_ok s'" using reg_inv_parts(3) [OF inv] same by (simp add: owners_ok_def)
  moreover have "\<forall>c\<in>set (listed s'). listed_ok s' c" using lists(2,3) reg_inv_parts(5) [OF inv] by blast
  moreover have "\<forall>t. written_of s' t @ pending_of s' t = gs_logged s' t"
    using own reg_inv_parts(7) [OF inv] same by simp
  ultimately show ?thesis using l' lists(1) backend by (simp add: reg_inv_def)
qed

lemma new_ctx_step_inv:
  assumes inv: "reg_inv s" and st: "new_ctx_step s s'"
  shows "reg_inv s'"
proof -
  have lock: "lock_kept s s'" using st by (intro backend_lock_kept) (simp add: backend_step_def)
  note frame = backend_frame [OF inv lock]
  note at = reg_inv_parts(4,6) [OF inv]
  from st show ?thesis
    by cases (rule frame; use at in \<open>auto simp: listed_ok_def backend_ok_def linked_def written_of_def pending_of_def
        split: option.splits if_splits\<close>)+
qed

lemma consume_step_inv:
  assumes inv: "reg_inv s" and st: "consume_step s s'"
  shows "reg_inv s'"
proof -
  have lock: "lock_kept s s'" using st by (intro backend_lock_kept) (simp add: backend_step_def)
  note frame = backend_frame [OF inv lock]
  note at = reg_inv_parts(4,6) [OF inv]
  from st show ?thesis
  proof cases
    case (consume_record k c cs x m q)
    then obtain ds where ds: "gs_head s = ds @ c # cs" using at by (auto simp: backend_ok_def)
    then have "c \<in> set (listed s)" using consume_record by (simp add: linked_def)
    from reg_inv_parts(5) [OF inv this] obtain t where
      t: "gs_local s t = Some c" "tc_tid x = t" using consume_record by (auto simp: listed_ok_def)
    have uniq: "u = t" if "gs_local s u = Some c" for u
      using reg_inv_parts(3) [OF inv] t(1) that unfolding owners_ok_def by blast
    have ctx: "ctx_ok pc u (x\<lparr>tc_bytes_buf := Some q\<rparr>)" if "ctx_ok pc u x" for pc u
      using that consume_record by (cases pc) auto
    show ?thesis
    proof (rule frame)
      show "written_of s' u @ pending_of s' u = written_of s u @ pending_of s u" for u
        using consume_record t uniq [of u]
        by (auto simp: written_of_def pending_of_def split: option.splits)
    qed (use consume_record at ds ctx in \<open>auto simp: listed_ok_def backend_ok_def linked_def\<close>)
  qed (rule frame; use at in \<open>auto simp: listed_ok_def backend_ok_def linked_def written_of_def pending_of_def
        split: option.splits if_splits\<close>)+
qed

lemma remove_ctx_step_inv:
  assumes inv: "reg_inv s" and st: "remove_ctx_step s s'"
  shows "reg_inv s'"
proof -
  have lock: "lock_kept s s'" using st by (intro backend_lock_kept) (simp add: backend_step_def)
  note frame = backend_frame [OF inv lock]
  note at = reg_inv_parts(4,6) [OF inv]
  from st show ?thesis
  proof cases
    case (remove_done prev c cs x)
    then have x: "gs_head s = prev @ c # cs" "tc_status x = HACLOG_THREAD_CONTEXT_STATUS_WAIT_REMOVE"
      using at by (auto simp: backend_ok_def)
    have ctx: "ctx_ok pc u (x\<lparr>tc_status := HACLOG_THREAD_CONTEXT_STATUS_DONE\<rparr>)" if "ctx_ok pc u x" for pc u
      using that x by (cases pc) auto
    show ?thesis
      by (rule frame; use remove_done at x ctx in
          \<open>auto simp: listed_ok_def backend_ok_def linked_def written_of_def pending_of_def split: option.splits\<close>)
  qed (rule frame; use at in \<open>auto simp: listed_ok_def backend_ok_def linked_def written_of_def pending_of_def
        split: option.splits if_splits\<close>)+
qed

lemma reg_start_inv: "reg_start s \<Longrightarrow> reg_inv s"
  by (auto simp: reg_start_def reg_inv_def lock_inv_def spinlock_defs reg_inside_def thread_ok_def owners_ok_def
      linked_def backend_ok_def written_of_def pending_of_def split: option.splits)

interpretation registry: invariant_system reg_start reg_step reg_inv
proof unfold_locales
  fix s s' :: "'m registry"
  show "reg_start s \<Longrightarrow> reg_inv s" by (rule reg_start_inv)
  show "reg_inv s \<Longrightarrow> reg_step s s' \<Longrightarrow> reg_inv s'"
    unfolding reg_step_def backend_step_def
    using thread_step_inv new_ctx_step_inv consume_step_inv remove_ctx_step_inv by blast
qed

text \<open>The backend is never stuck.\<close>

lemma backend_enabled:
  assumes inv: "reg_inv s" shows "\<exists>s'. backend_step s s'"
proof -
  have b: "backend_ok s" using reg_inv_parts(6) [OF inv] .
  have ctx: "\<exists>x q. gs_mem s c = Some x \<and> tc_bytes_buf x = Some q" if "c \<in> set (listed s)" for c
    using reg_inv_parts(5) [OF inv that] by (auto simp: listed_ok_def)
  show ?thesis
  proof (cases "gs_backend s")
    case B_Lock
    then show ?thesis using new_lock [of s]
      by (cases "haclog_atomic_test_and_set (gs_spinlock s)") (auto simp: backend_step_def)
  next
    case B_Move
    then show ?thesis using new_node [of s] new_end [of s]
      by (cases "gs_add_list s") (auto simp: backend_step_def)
  next
    case (B_Pop c ns)
    then show ?thesis using new_pop [of s] by (auto simp: backend_step_def)
  next
    case (B_Take c)
    then show ?thesis using new_take [of s] by (auto simp: backend_step_def)
  next
    case B_Unlock
    then show ?thesis using new_unlock [of s] by (auto simp: backend_step_def)
  next
    case (B_Consume cs)
    then show ?thesis
    proof (cases cs)
      case (Cons c cs')
      then obtain x q where "gs_mem s c = Some x" "tc_bytes_buf x = Some q"
        using ctx [of c] b B_Consume by (auto simp: backend_ok_def linked_def)
      then show ?thesis using consume_load [of s c cs'] B_Consume Cons by (auto simp: backend_step_def)
    qed (use consume_end [of s] B_Consume in \<open>auto simp: backend_step_def\<close>)
  next
    case (B_Read k cs)
    then obtain c cs' x q where c: "cs = c # cs'" "gs_mem s c = Some x" "tc_bytes_buf x = Some q" "k \<le> length q"
      using b by (auto simp: backend_ok_def)
    show ?thesis
    proof (cases k)
      case 0
      then show ?thesis using consume_next [of s] B_Read c(1) by (auto simp: backend_step_def)
    next
      case (Suc k')
      then obtain m q' where "q = m # q'" using c(4) by (cases q) auto
      then show ?thesis using consume_record [of s k' c cs' x m q'] B_Read Suc c by (auto simp: backend_step_def)
    qed
  next
    case (B_Scan prev cs)
    then show ?thesis
    proof (cases cs)
      case (Cons c cs')
      then obtain x where "gs_mem s c = Some x"
        using ctx [of c] b B_Scan by (auto simp: backend_ok_def linked_def)
      then show ?thesis using remove_load [of s prev c cs' x] B_Scan Cons unfolding backend_step_def by blast
    qed (use remove_end [of s] B_Scan in \<open>auto simp: backend_step_def\<close>)
  next
    case (B_Mark prev cs)
    then show ?thesis using b remove_done [of s prev] unfolding backend_ok_def backend_step_def by fastforce
  next
    case (B_Unlink prev cs)
    then obtain c cs' where "cs = c # cs'" using b by (cases cs) (auto simp: backend_ok_def)
    then show ?thesis using remove_unlink [of s prev c cs'] B_Unlink unfolding backend_step_def by blast
  qed
qed

end
