(* ===== verification/Haclog_Registry_Props.thy ===== *)
theory Haclog_Registry_Props
  imports Haclog_Registry_Inv
begin

text \<open>
  What the logging threads and the backend can rely on: exclusive access to the add list, contexts that
  stay allocated while the backend reads them, records that all reach the handlers, in order, before
  a thread's cleanup frees its context; and what a registration that fails leads to.
\<close>

section \<open>A run with one thread\<close>

definition demo_init :: "nat registry" where
  "demo_init = \<lparr>gs_spinlock = False, gs_add_list = [], gs_head = [], gs_mem = Map.empty, gs_local = (\<lambda>t. None),
     gs_pc = (\<lambda>t. T_Out), gs_backend = B_Lock, gs_logged = (\<lambda>t. []), gs_written = []\<rparr>"

definition demo_ctx :: "nat list \<Rightarrow> nat thread_context" where
  "demo_ctx q = \<lparr>tc_bytes_buf = Some q, tc_tid = 7, tc_status = HACLOG_THREAD_CONTEXT_STATUS_NORMAL\<rparr>"

text \<open>Thread 7 about to insert its context, at address 1.\<close>

definition demo_insert :: "nat registry" where
  "demo_insert = demo_init\<lparr>gs_mem := [1 \<mapsto> demo_ctx []], gs_local := (\<lambda>t. None)(7 \<mapsto> 1), gs_pc := (\<lambda>t. T_Out)(7 := T_Insert)\<rparr>"

text \<open>It holds the lock.\<close>

definition demo_locked :: "nat registry" where
  "demo_locked = demo_insert\<lparr>gs_spinlock := True, gs_pc := (\<lambda>t. T_Out)(7 := T_Link)\<rparr>"

text \<open>It is registered; it has gone on to wait for its removal; it has published a record; and the backend
  is about to consume that.\<close>

definition demo_ready :: "nat registry" where
  "demo_ready = demo_init\<lparr>gs_add_list := [1], gs_mem := [1 \<mapsto> demo_ctx []], gs_local := (\<lambda>t. None)(7 \<mapsto> 1),
     gs_pc := (\<lambda>t. T_Out)(7 := T_Ready)\<rparr>"

definition demo_wait :: "nat registry" where
  "demo_wait = demo_ready\<lparr>gs_pc := (\<lambda>t. T_Out)(7 := T_Wait),
     gs_mem := [1 \<mapsto> (demo_ctx [])\<lparr>tc_status := HACLOG_THREAD_CONTEXT_STATUS_WAIT_REMOVE\<rparr>]\<rparr>"

definition demo_logged :: "nat registry" where
  "demo_logged = demo_init\<lparr>gs_add_list := [1], gs_mem := [1 \<mapsto> demo_ctx [5]], gs_local := (\<lambda>t. None)(7 \<mapsto> 1),
     gs_pc := (\<lambda>t. T_Out)(7 := T_Ready), gs_logged := (\<lambda>t. [])(7 := [5])\<rparr>"

definition demo_consume :: "nat registry" where
  "demo_consume = demo_logged\<lparr>gs_add_list := [], gs_head := [1], gs_backend := B_Consume [1]\<rparr>"

lemmas demo_defs = demo_init_def demo_ctx_def demo_insert_def demo_locked_def demo_ready_def demo_wait_def demo_logged_def demo_consume_def
  goto_def put_ctx_def spinlock_defs

lemma thread_run: "reg_reachable s \<Longrightarrow> thread_step t s s' \<Longrightarrow> s' = s'' \<Longrightarrow> reg_reachable s''"
  using run_step [of reg_start reg_step s s'] unfolding reg_step_def by blast

lemma backend_run: "reg_reachable s \<Longrightarrow> backend_step s s' \<Longrightarrow> s' = s'' \<Longrightarrow> reg_reachable s''"
  using run_step [of reg_start reg_step s s'] unfolding reg_step_def by blast

lemma demo_insert_reachable: "reg_reachable demo_insert"
proof -
  have s0: "reg_reachable demo_init"
    by (rule run_start) (simp add: reg_start_def demo_init_def spinlock_defs)
  have "thread_step 7 demo_init (goto 7 T_Alloc (put_ctx 1
      \<lparr>tc_bytes_buf = None, tc_tid = 0, tc_status = HACLOG_THREAD_CONTEXT_STATUS_NORMAL\<rparr>
      (demo_init\<lparr>gs_local := (gs_local demo_init)(7 \<mapsto> 1)\<rparr>)))" (is "thread_step 7 _ ?s1")
    unfolding thread_step_def by (intro disjI1 init_alloc) (simp_all add: demo_init_def)
  from thread_run [OF s0 this refl] have s1: "reg_reachable ?s1" .
  have "thread_step 7 ?s1 (goto 7 T_Insert (put_ctx 1 (demo_ctx []) ?s1))"
    unfolding thread_step_def
    using init_buffer [of ?s1 7 1 "\<lparr>tc_bytes_buf = None, tc_tid = 0, tc_status = HACLOG_THREAD_CONTEXT_STATUS_NORMAL\<rparr>"]
    by (simp add: demo_defs)
  from thread_run [OF s1 this] show ?thesis by (simp add: demo_defs)
qed

lemma demo_locked_reachable: "reg_reachable demo_locked"
proof -
  have "thread_step 7 demo_insert (goto 7 T_Lock demo_insert)" (is "thread_step 7 _ ?s1")
    unfolding thread_step_def by (intro disjI2 disjI1 insert_node) (simp add: demo_insert_def)
  from thread_run [OF demo_insert_reachable this refl] have s1: "reg_reachable ?s1" .
  have "thread_step 7 ?s1 (goto 7 T_Link (?s1\<lparr>gs_spinlock := True\<rparr>))"
    unfolding thread_step_def using insert_lock [of ?s1 7 True True] by (simp add: demo_defs)
  from thread_run [OF s1 this] show ?thesis by (simp add: demo_defs)
qed

lemma demo_ready_reachable: "reg_reachable demo_ready"
proof -
  have "thread_step 7 demo_locked (goto 7 (T_Push []) demo_locked)" (is "thread_step 7 _ ?s1")
    unfolding thread_step_def using insert_link [of demo_locked 7] by (simp add: demo_defs)
  from thread_run [OF demo_locked_reachable this refl] have s1: "reg_reachable ?s1" .
  have "thread_step 7 ?s1 (goto 7 T_Unlock (?s1\<lparr>gs_add_list := [1]\<rparr>))" (is "thread_step 7 _ ?s2")
    unfolding thread_step_def using insert_push [of ?s1 7 "[]" 1] by (simp add: demo_defs)
  from thread_run [OF s1 this refl] have s2: "reg_reachable ?s2" .
  have "thread_step 7 ?s2 demo_ready"
    unfolding thread_step_def using insert_unlock [of ?s2 7] by (simp add: demo_defs)
  from thread_run [OF s2 this refl] show ?thesis .
qed

lemma demo_logged_reachable: "reg_reachable demo_logged"
proof -
  have "thread_step 7 demo_ready demo_logged"
    unfolding thread_step_def using log_publish [of demo_ready 7 1 "demo_ctx []" "[]" 5]
    by (simp add: demo_defs)
  from thread_run [OF demo_ready_reachable this refl] show ?thesis .
qed

lemma demo_wait_reachable: "reg_reachable demo_wait"
proof -
  have "thread_step 7 demo_ready (goto 7 T_Join demo_ready)" (is "thread_step 7 _ ?s1")
    unfolding thread_step_def using cleanup_start [of demo_ready 7] by (simp add: demo_defs)
  from thread_run [OF demo_ready_reachable this refl] have s1: "reg_reachable ?s1" .
  have "thread_step 7 ?s1 (goto 7 T_Remove ?s1)" (is "thread_step 7 _ ?s2")
    unfolding thread_step_def using cleanup_join [of ?s1 7 1 "demo_ctx []"] by (simp add: demo_defs)
  from thread_run [OF s1 this refl] have s2: "reg_reachable ?s2" .
  have "thread_step 7 ?s2 demo_wait"
    unfolding thread_step_def using remove_ask [of ?s2 7 1 "demo_ctx []"] by (simp add: demo_defs)
  from thread_run [OF s2 this refl] show ?thesis .
qed

lemma demo_consume_reachable: "reg_reachable demo_consume"
proof -
  have "backend_step demo_logged (demo_logged\<lparr>gs_spinlock := True, gs_backend := B_Move\<rparr>)" (is "backend_step _ ?s1")
    unfolding backend_step_def using new_lock [of demo_logged True True] by (simp add: demo_defs)
  from backend_run [OF demo_logged_reachable this refl] have s1: "reg_reachable ?s1" .
  have "backend_step ?s1 (?s1\<lparr>gs_backend := B_Pop 1 []\<rparr>)" (is "backend_step _ ?s2")
    unfolding backend_step_def using new_node [of ?s1 1 "[]"] by (simp add: demo_defs)
  from backend_run [OF s1 this refl] have s2: "reg_reachable ?s2" .
  have "backend_step ?s2 (?s2\<lparr>gs_add_list := [], gs_backend := B_Take 1\<rparr>)" (is "backend_step _ ?s3")
    unfolding backend_step_def using new_pop [of ?s2 1 "[]"] by (simp add: demo_defs)
  from backend_run [OF s2 this refl] have s3: "reg_reachable ?s3" .
  have "backend_step ?s3 (?s3\<lparr>gs_head := [1], gs_backend := B_Move\<rparr>)" (is "backend_step _ ?s4")
    unfolding backend_step_def using new_take [of ?s3 1] by (simp add: demo_defs)
  from backend_run [OF s3 this refl] have s4: "reg_reachable ?s4" .
  have "backend_step ?s4 (?s4\<lparr>gs_backend := B_Unlock\<rparr>)" (is "backend_step _ ?s5")
    unfolding backend_step_def using new_end [of ?s4] by (simp add: demo_defs)
  from backend_run [OF s4 this refl] have s5: "reg_reachable ?s5" .
  have "backend_step ?s5 demo_consume"
    unfolding backend_step_def using new_unlock [of ?s5] by (simp add: demo_defs)
  from backend_run [OF s5 this refl] show ?thesis .
qed

section \<open>Properties\<close>

text \<open>
  C35: mutual exclusion. In every interleaving of the logging threads and the backend at most one of
  them is between taking and releasing the context's spinlock; in particular the list a thread read
  to link its node in front of is still the add list when it stores the node.
\<close>

theorem add_list_exclusive:
  assumes "reg_reachable s"
  shows "(\<forall>t u. thread_inside (gs_pc s t) \<and> thread_inside (gs_pc s u) \<longrightarrow> t = u) \<and>
    (\<forall>t. thread_inside (gs_pc s t) \<longrightarrow> \<not> backend_inside (gs_backend s)) \<and>
    (\<forall>t ns. gs_pc s t = T_Push ns \<longrightarrow> ns = gs_add_list s)"
proof -
  have "t = u" if "thread_inside (gs_pc s t)" "thread_inside (gs_pc s u)" for t u
    using ctx_lock.mutual_exclusion [OF assms, of "Some t" "Some u"] that by (simp add: reg_inside_def)
  moreover have "\<not> backend_inside (gs_backend s)" if "thread_inside (gs_pc s t)" for t
    using ctx_lock.mutual_exclusion [OF assms, of "Some t" None] that by (auto simp: reg_inside_def)
  moreover have "ns = gs_add_list s" if "gs_pc s t = T_Push ns" for t ns
    using reg_inv_parts(2) [OF registry.run_inv [OF assms], of t] that by (simp add: thread_ok_def)
  ultimately show ?thesis by blast
qed

lemma add_list_exclusive_witness:
  "thread_inside (gs_pc demo_locked 7) \<and> \<not> backend_inside (gs_backend demo_locked)"
proof -
  have "thread_inside (gs_pc demo_locked 7)" by (simp add: demo_defs)
  with add_list_exclusive [OF demo_locked_reachable] show ?thesis by blast
qed

text \<open>
  C33: no use after free. Whenever the backend is about to read a thread context (to consume its
  records, to read its status, or to answer its removal) the context is allocated and has its
  byte buffer, whatever its thread has done meanwhile; and the backend always has a next step.
\<close>

theorem contexts_alive:
  assumes "reg_reachable s"
  shows "(\<forall>c cs k prev. gs_backend s \<in> {B_Consume (c # cs), B_Read k (c # cs), B_Scan prev (c # cs), B_Mark prev (c # cs)} \<longrightarrow>
      (\<exists>x. gs_mem s c = Some x \<and> tc_bytes_buf x \<noteq> None)) \<and>
    (\<exists>s'. backend_step s s')"
proof -
  note inv = registry.run_inv [OF assms]
  have listed: "c \<in> set (linked s)"
    if "gs_backend s \<in> {B_Consume (c # cs), B_Read k (c # cs), B_Scan prev (c # cs), B_Mark prev (c # cs)}" for c cs k prev
    using reg_inv_parts(6) [OF inv] that by (auto simp: backend_ok_def linked_def)
  have alive: "\<exists>x. gs_mem s c = Some x \<and> tc_bytes_buf x \<noteq> None"
    if "gs_backend s \<in> {B_Consume (c # cs), B_Read k (c # cs), B_Scan prev (c # cs), B_Mark prev (c # cs)}" for c cs k prev
    using reg_inv_parts(5) [OF inv, of c] listed [OF that] by (auto simp: listed_ok_def)
  show ?thesis
  proof (intro conjI allI impI)
    show "\<exists>x. gs_mem s c = Some x \<and> tc_bytes_buf x \<noteq> None"
      if "gs_backend s \<in> {B_Consume (c # cs), B_Read k (c # cs), B_Scan prev (c # cs), B_Mark prev (c # cs)}" for c cs k prev
      by (rule alive [OF that])
    show "\<exists>s'. backend_step s s'" by (rule backend_enabled [OF inv])
  qed
qed

lemma contexts_alive_witness:
  "gs_backend demo_consume = B_Consume [1] \<and> (\<exists>x. gs_mem demo_consume 1 = Some x \<and> tc_bytes_buf x \<noteq> None) \<and>
   (\<exists>s'. backend_step demo_consume s')"
proof -
  have b: "gs_backend demo_consume = B_Consume [1]" by (simp add: demo_defs)
  with contexts_alive [OF demo_consume_reachable] show ?thesis by blast
qed



section \<open>A failed registration\<close>

definition stuck :: "nat \<Rightarrow> nat \<Rightarrow> 'm registry \<Rightarrow> bool" where
  "stuck t c s \<longleftrightarrow> gs_local s t = Some c \<and> gs_pc s t \<in> {T_Join, T_Remove, T_Wait} \<and> c \<notin> set (listed s) \<and>
     (\<forall>x. gs_mem s c = Some x \<longrightarrow> tc_status x \<noteq> HACLOG_THREAD_CONTEXT_STATUS_DONE)"

lemma stuck_thread:
  assumes inv: "reg_inv s" and st: "thread_step u s s'" and stuck: "stuck t c s"
  shows "stuck t c s'"
proof -
  have linked: "linked s' = linked s" if "gs_backend s' = gs_backend s" "gs_head s' = gs_head s"
    using that by (simp only: linked_def)
  have own: "d \<noteq> c" if "u \<noteq> t" "gs_local s u = Some d" for d
    using reg_inv_parts(3) [OF inv] stuck that unfolding owners_ok_def stuck_def by blast
  have alloc: "gs_mem s c \<noteq> None"
    using reg_inv_parts(2) [OF inv, of t] stuck by (auto simp: thread_ok_def stuck_def)
  have push: "ns = gs_add_list s" if "gs_pc s u = T_Push ns" for ns
    using reg_inv_parts(2) [OF inv, of u] that by (simp add: thread_ok_def)
  from st show ?thesis
  proof (cases rule: thread_stepE)
    case 1
    then show ?thesis using stuck own alloc linked
      by (cases; cases "u = t") (auto simp: stuck_def)
  next
    case 2
    then show ?thesis using stuck own alloc linked push
      by (cases; cases "u = t") (auto simp: stuck_def)
  next
    case 3
    then show ?thesis using stuck own alloc linked
      by (cases; cases "u = t") (auto simp: stuck_def)
  next
    case 4
    then show ?thesis using stuck own alloc linked
      by (cases; cases "u = t") (auto simp: stuck_def)
  next
    case 5
    then show ?thesis using stuck own alloc linked
      by (cases; cases "u = t") (auto simp: stuck_def)
  qed
qed

lemma stuck_backend:
  assumes inv: "reg_inv s" and st: "backend_step s s'" and stuck: "stuck t c s"
  shows "stuck t c s'"
proof -
  have b: "backend_ok s" using reg_inv_parts(6) [OF inv] .
  from st show ?thesis
  proof (cases rule: backend_stepE)
    case 1
    then show ?thesis using stuck b by cases (auto simp: stuck_def linked_def backend_ok_def split: if_splits)
  next
    case 2
    then show ?thesis using stuck by cases (auto simp: stuck_def linked_def)
  next
    case 3
    then show ?thesis using stuck b by cases (auto simp: stuck_def linked_def backend_ok_def split: if_splits)
  qed
qed

lemma stuck_run:
  assumes "reg_step\<^sup>*\<^sup>* s s'" and "reg_inv s" and "stuck t c s"
  shows "stuck t c s' \<and> reg_inv s'"
  using assms
proof (induction rule: rtranclp_induct)
  case (step s' s'')
  then have "stuck t c s'" "reg_inv s'" by auto
  with step(2) show ?case
    using stuck_thread stuck_backend registry.inv_step unfolding reg_step_def by blast
qed simp

text \<open>
  C36: a registration that fails never comes back. When \<open>haclog_context_insert_thread_context\<close> finds
  no memory for its node, or \<open>haclog_bytes_buffer_new\<close> none for the ring,
  \<open>haclog_thread_context_init\<close> calls the cleanup, which asks a backend that has never heard of the
  context to remove it: in every continuation the thread is still in the cleanup.
\<close>

theorem failed_registration_hangs:
  assumes "reg_reachable s" and "gs_pc s t = T_Insert \<and> s' = goto t T_Join s \<or> gs_pc s t = T_Alloc \<and> s' = goto t T_Remove s"
    and "reg_step\<^sup>*\<^sup>* s' s''"
  shows "thread_step t s s' \<and> gs_pc s'' t \<in> {T_Join, T_Remove, T_Wait}"
proof -
  have st: "thread_step t s s'"
    using assms(2) insert_no_memory [of s t] init_no_buffer [of s t] unfolding thread_step_def by blast
  note inv = registry.run_inv [OF assms(1)]
  then have inv': "reg_inv s'" using registry.inv_step st unfolding reg_step_def by blast
  from inv assms(2) obtain c x where c: "gs_local s t = Some c" "gs_mem s c = Some x"
    "tc_status x = HACLOG_THREAD_CONTEXT_STATUS_NORMAL" "\<not> registered (gs_pc s t)"
    using thread_at(2) [OF inv refl, of t] by auto
  have "c \<notin> set (listed s)"
  proof
    assume "c \<in> set (listed s)"
    from reg_inv_parts(5) [OF inv this] obtain u where "gs_local s u = Some c" "registered (gs_pc s u)"
      unfolding listed_ok_def by blast
    moreover from this(1) have "u = t" using reg_inv_parts(3) [OF inv] c(1) unfolding owners_ok_def by blast
    ultimately show False using c(4) by simp
  qed
  moreover have "linked (goto t pc s) = linked s" for pc by (simp only: linked_def goto_simps)
  ultimately have "stuck t c s'" using assms(2) c by (auto simp: stuck_def)
  from stuck_run [OF assms(3) inv' this] st show ?thesis by (simp add: stuck_def)
qed

lemma failed_registration_hangs_witness:
  "thread_step 7 demo_insert (goto 7 T_Join demo_insert) \<and>
   reg_step\<^sup>*\<^sup>* (goto 7 T_Join demo_insert) (goto 7 T_Remove (goto 7 T_Join demo_insert)) \<and>
   gs_pc (goto 7 T_Remove (goto 7 T_Join demo_insert)) 7 \<in> {T_Join, T_Remove, T_Wait}"
proof -
  let ?s = "goto 7 T_Join demo_insert"
  have pc: "gs_pc demo_insert 7 = T_Insert \<and> ?s = goto 7 T_Join demo_insert \<or> gs_pc demo_insert 7 = T_Alloc \<and> ?s = goto 7 T_Remove demo_insert"
    by (simp add: demo_insert_def)
  have "thread_step 7 ?s (goto 7 T_Remove ?s)"
    unfolding thread_step_def using cleanup_join [of ?s 7 1 "demo_ctx []"] by (simp add: demo_defs)
  then have run: "reg_step\<^sup>*\<^sup>* ?s (goto 7 T_Remove ?s)" unfolding reg_step_def by blast
  from failed_registration_hangs [OF demo_insert_reachable pc run] run show ?thesis by simp
qed

section \<open>A cleanup can always be completed\<close>

text \<open>
  Thread t waits for the backend's answer on context c, which is listed or answered. \<open>moves\<close> are steps
  that keep it so; the backend's own steps are such.
\<close>

definition awaiting :: "nat \<Rightarrow> nat \<Rightarrow> 'm registry \<Rightarrow> bool" where
  "awaiting t c s \<longleftrightarrow> reg_inv s \<and> gs_pc s t = T_Wait \<and> gs_local s t = Some c \<and>
     (\<exists>x. gs_mem s c = Some x \<and> (tc_status x = HACLOG_THREAD_CONTEXT_STATUS_DONE \<or> c \<in> set (listed s)))"

definition answered :: "nat \<Rightarrow> 'm registry \<Rightarrow> bool" where
  "answered c s \<longleftrightarrow> (\<exists>x. gs_mem s c = Some x \<and> tc_status x = HACLOG_THREAD_CONTEXT_STATUS_DONE)"

lemma awaiting_backend:
  assumes "awaiting t c s" "backend_step s s'"
  shows "awaiting t c s'"
proof -
  have inv: "reg_inv s" using assms(1) by (simp add: awaiting_def)
  have b: "backend_ok s" using reg_inv_parts(6) [OF inv] .
  have "reg_inv s'" using registry.inv_step [OF inv] assms(2) unfolding reg_step_def by blast
  moreover from assms(2) consider "new_ctx_step s s'" | "consume_step s s'" | "remove_ctx_step s s'"
    unfolding backend_step_def by blast
  then have "gs_pc s' t = T_Wait \<and> gs_local s' t = Some c \<and>
     (\<exists>x. gs_mem s' c = Some x \<and> (tc_status x = HACLOG_THREAD_CONTEXT_STATUS_DONE \<or> c \<in> set (listed s')))"
    by cases (insert assms(1) b; erule new_ctx_step.cases consume_step.cases remove_ctx_step.cases;
        auto simp: awaiting_def linked_def backend_ok_def split: if_splits)+
  ultimately show ?thesis by (simp add: awaiting_def)
qed

lemma answered_backend: "answered c s \<Longrightarrow> backend_step s s' \<Longrightarrow> answered c s'"
  unfolding backend_step_def answered_def
  by (elim disjE; erule new_ctx_step.cases consume_step.cases remove_ctx_step.cases; auto)

text \<open>How far the backend is from \<open>B_Lock\<close>, given the length of the ring it consumes.\<close>

definition ring_len :: "'m registry \<Rightarrow> nat \<Rightarrow> nat" where
  "ring_len s c = (case gs_mem s c of None \<Rightarrow> 0 | Some x \<Rightarrow> (case tc_bytes_buf x of None \<Rightarrow> 0 | Some q \<Rightarrow> length q))"

fun to_go :: "'m registry \<Rightarrow> backend_pc \<Rightarrow> nat" where
  "to_go s (B_Consume cs) = 2 + 3 * length (gs_head s) + sum_list (map (\<lambda>c. 2 + ring_len s c) cs)"
| "to_go s (B_Read k cs) = 3 + 3 * length (gs_head s) + k + sum_list (map (\<lambda>c. 2 + ring_len s c) (tl cs))"
| "to_go s (B_Scan prev cs) = 1 + 3 * length cs"
| "to_go s (B_Mark prev cs) = 3 * length cs"
| "to_go s (B_Unlink prev cs) = 3 * length cs - 1"
| "to_go s _ = 0"

lemma distinct_head: "reg_inv s \<Longrightarrow> gs_backend s = B_Read k cs \<Longrightarrow> distinct cs"
  using reg_inv_parts(4,6) [of s] by (auto simp: linked_def backend_ok_def)

text \<open>Between the lock's release and its next acquisition every backend step brings it nearer.\<close>

lemma backend_nearer:
  assumes inv: "reg_inv s" and st: "backend_step s s'"
    and out: "\<not> backend_inside (gs_backend s)" "gs_backend s \<noteq> B_Lock"
  shows "to_go s' (gs_backend s') < to_go s (gs_backend s)"
proof -
  have b: "backend_ok s" using reg_inv_parts(6) [OF inv] .
  from st show ?thesis
  proof (cases rule: backend_stepE)
    case 1
    then show ?thesis using out by cases auto
  next
    case 2
    then show ?thesis
    proof cases
      case (consume_load c cs x q)
      then show ?thesis by (simp add: ring_len_def)
    next
      case (consume_record k c cs x m q)
      have "distinct (c # cs)" using distinct_head [OF inv consume_record(2)] .
      then have "map (\<lambda>c. 2 + ring_len s' c) cs = map (\<lambda>c. 2 + ring_len s c) cs"
        using consume_record by (auto simp: ring_len_def)
      moreover have "gs_backend s' = B_Read k (c # cs)" "gs_head s' = gs_head s" using consume_record(1) by simp_all
      ultimately show ?thesis using consume_record(2) by (simp only: to_go.simps list.sel)
    qed (auto simp: ring_len_def)
  next
    case 3
    then show ?thesis using b by cases (auto simp: backend_ok_def)
  qed
qed

lemma run_to_lock:
  assumes "awaiting t c s" "\<not> backend_inside (gs_backend s)" "I s"
    and I: "\<And>s s'. awaiting t c s \<Longrightarrow> I s \<Longrightarrow> \<not> backend_inside (gs_backend s) \<Longrightarrow> gs_backend s \<noteq> B_Lock \<Longrightarrow>
      backend_step s s' \<Longrightarrow> I s'"
  shows "\<exists>s'. backend_step\<^sup>*\<^sup>* s s' \<and> gs_backend s' = B_Lock \<and> awaiting t c s' \<and> I s'"
  using assms(1-3)
proof (induction "to_go s (gs_backend s)" arbitrary: s rule: less_induct)
  case less
  show ?case
  proof (cases "gs_backend s = B_Lock")
    case True
    with less.prems show ?thesis by blast
  next
    case False
    have inv: "reg_inv s" using less.prems(1) by (simp add: awaiting_def)
    obtain s' where st: "backend_step s s'" using backend_enabled [OF inv] by blast
    have out: "\<not> backend_inside (gs_backend s')"
      by (rule backend_stepE [OF st]; insert less.prems(2) False;
          erule new_ctx_step.cases consume_step.cases remove_ctx_step.cases; auto)
    from less.hyps [OF backend_nearer [OF inv st less.prems(2) False] awaiting_backend [OF less.prems(1) st] out
        I [OF less.prems(1,3,2) False st]]
    show ?thesis using converse_rtranclp_into_rtranclp [of backend_step, OF st] by blast
  qed
qed

text \<open>Inside its critical section the backend empties the add list.\<close>

fun inside_go :: "'m registry \<Rightarrow> backend_pc \<Rightarrow> nat" where
  "inside_go s (B_Take c) = 3 * length (gs_add_list s) + 3"
| "inside_go s B_Move = 3 * length (gs_add_list s) + 2"
| "inside_go s (B_Pop c ns) = 3 * length (gs_add_list s) + 1"
| "inside_go s _ = 1"

lemma run_to_consume:
  assumes "awaiting t c s" "backend_inside (gs_backend s)"
  shows "\<exists>s'. backend_step\<^sup>*\<^sup>* s s' \<and> gs_backend s' = B_Consume (gs_head s') \<and> gs_add_list s' = [] \<and> awaiting t c s'"
  using assms
proof (induction "inside_go s (gs_backend s)" arbitrary: s rule: less_induct)
  case less
  have inv: "reg_inv s" using less.prems(1) by (simp add: awaiting_def)
  have b: "backend_ok s" using reg_inv_parts(6) [OF inv] .
  obtain s' where st: "backend_step s s'" using backend_enabled [OF inv] by blast
  have cases: "gs_backend s = B_Unlock \<and> gs_backend s' = B_Consume (gs_head s') \<and> gs_add_list s' = [] \<or>
      backend_inside (gs_backend s') \<and> inside_go s' (gs_backend s') < inside_go s (gs_backend s)"
    by (rule backend_stepE [OF st]; insert less.prems(2) b;
        erule new_ctx_step.cases consume_step.cases remove_ctx_step.cases; auto simp: backend_ok_def)
  have next_ok: "awaiting t c s'" by (rule awaiting_backend [OF less.prems(1) st])
  from cases show ?case
  proof
    assume "gs_backend s = B_Unlock \<and> gs_backend s' = B_Consume (gs_head s') \<and> gs_add_list s' = []"
    with st next_ok show ?thesis by blast
  next
    assume "backend_inside (gs_backend s') \<and> inside_go s' (gs_backend s') < inside_go s (gs_backend s)"
    with less.hyps [of s'] next_ok show ?thesis
      using converse_rtranclp_into_rtranclp [of backend_step, OF st] by blast
  qed
qed

text \<open>From there, the pass over the contexts reaches c.\<close>

definition will_visit :: "nat \<Rightarrow> 'm registry \<Rightarrow> bool" where
  "will_visit c s \<longleftrightarrow> answered c s \<or> (case gs_backend s of
     B_Consume cs \<Rightarrow> c \<in> set (gs_head s) | B_Read k cs \<Rightarrow> c \<in> set (gs_head s) | B_Scan prev cs \<Rightarrow> c \<in> set cs
   | B_Mark prev cs \<Rightarrow> c \<in> set cs | B_Unlink prev cs \<Rightarrow> c \<in> set (tl cs) | _ \<Rightarrow> False)"

lemma awaiting_status:
  "awaiting t c s \<Longrightarrow> gs_mem s c = Some x \<Longrightarrow> tc_status x \<noteq> HACLOG_THREAD_CONTEXT_STATUS_NORMAL"
  using thread_at(2) [of s t T_Wait] by (auto simp: awaiting_def)

lemma will_visit_step:
  assumes aw: "awaiting t c s" and v: "will_visit c s" and st: "backend_step s s'"
    and out: "\<not> backend_inside (gs_backend s)" "gs_backend s \<noteq> B_Lock"
  shows "will_visit c s'"
proof (cases "answered c s")
  case True
  then show ?thesis using answered_backend [OF _ st] by (simp add: will_visit_def)
next
  case False
  have wait: "tc_status x = HACLOG_THREAD_CONTEXT_STATUS_WAIT_REMOVE" if "gs_mem s c = Some x" for x
    using awaiting_status [OF aw that] False that by (cases "tc_status x") (auto simp: answered_def)
  from st show ?thesis
  proof (cases rule: backend_stepE)
    case 1
    then show ?thesis using out by cases auto
  next
    case 2
    then show ?thesis using v False by cases (auto simp: will_visit_def)
  next
    case 3
    then show ?thesis using v False wait by cases (auto simp: will_visit_def answered_def)
  qed
qed

lemma run_to_answer:
  assumes "awaiting t c s" "gs_backend s = B_Consume (gs_head s)" "gs_add_list s = []"
  shows "\<exists>s'. backend_step\<^sup>*\<^sup>* s s' \<and> awaiting t c s' \<and> answered c s'"
proof -
  have "will_visit c s" using assms by (auto simp: awaiting_def will_visit_def answered_def linked_def)
  moreover have "\<not> backend_inside (gs_backend s)" using assms(2) by simp
  ultimately obtain s' where "backend_step\<^sup>*\<^sup>* s s'" "gs_backend s' = B_Lock" "awaiting t c s'" "will_visit c s'"
    using run_to_lock [of t c s "will_visit c"] assms(1) will_visit_step [of t c] by blast
  then show ?thesis by (auto simp: will_visit_def)
qed

text \<open>A thread that holds the lock can release it.\<close>

lemma awaiting_thread:
  assumes aw: "awaiting t c s" and st: "insert_step u s s'" and other: "u \<noteq> t"
  shows "awaiting t c s'"
proof -
  have inv: "reg_inv s" using aw by (simp add: awaiting_def)
  have "reg_inv s'" using thread_step_inv [OF inv] st unfolding thread_step_def by blast
  moreover have linked: "linked s' = linked s" using st by cases (simp_all add: linked_def cong: backend_pc.case_cong)
  have push: "ns = gs_add_list s" if "gs_pc s u = T_Push ns" for ns
    using reg_inv_parts(2) [OF inv, of u] that by (simp add: thread_ok_def)
  have "gs_pc s' t = T_Wait \<and> gs_local s' t = Some c \<and> gs_mem s' = gs_mem s \<and> set (gs_add_list s) \<subseteq> set (gs_add_list s')"
    by (rule insert_step.cases [OF st]; insert aw other push; auto simp: awaiting_def)
  ultimately show ?thesis using aw linked by (auto simp: awaiting_def)
qed

lemma run_to_release:
  assumes aw: "awaiting t c s" and held: "thread_inside (gs_pc s u)"
  shows "\<exists>s'. reg_step\<^sup>*\<^sup>* s s' \<and> awaiting t c s' \<and> \<not> gs_spinlock s' \<and> gs_backend s' = gs_backend s"
proof -
  have other: "u \<noteq> t" using assms by (auto simp: awaiting_def)
  have step: "reg_step s s'" if "insert_step u s s'" for s s' :: "'a registry"
    using that unfolding reg_step_def thread_step_def by blast
  have unlock: "\<exists>s'. reg_step\<^sup>*\<^sup>* s s' \<and> awaiting t c s' \<and> \<not> gs_spinlock s' \<and> gs_backend s' = gs_backend s"
    if "awaiting t c s" "gs_pc s u = T_Unlock" for s :: "'a registry"
  proof -
    have "insert_step u s (goto u T_Ready (s\<lparr>gs_spinlock := haclog_spinlock_unlock (gs_spinlock s)\<rparr>))" (is "insert_step u s ?s")
      using that(2) by (rule insert_unlock)
    from awaiting_thread [OF that(1) this other] step [OF this] show ?thesis
      by (intro exI [of _ ?s]) (simp add: spinlock_defs)
  qed
  have push: "\<exists>s'. reg_step\<^sup>*\<^sup>* s s' \<and> awaiting t c s' \<and> \<not> gs_spinlock s' \<and> gs_backend s' = gs_backend s"
    if at: "awaiting t c s" "gs_pc s u = T_Push ns" for s :: "'a registry" and ns
  proof -
    obtain d where "gs_local s u = Some d"
      using thread_at(2) [OF _ at(2)] at(1) by (auto simp: awaiting_def)
    with at(2) have st: "insert_step u s (goto u T_Unlock (s\<lparr>gs_add_list := d # ns\<rparr>))" (is "insert_step u s ?s")
      by (rule insert_push)
    obtain s' where "reg_step\<^sup>*\<^sup>* ?s s'" "awaiting t c s'" "\<not> gs_spinlock s'" "gs_backend s' = gs_backend ?s"
      using unlock [OF awaiting_thread [OF at(1) st other]] by auto
    with step [OF st] show ?thesis by (intro exI [of _ s']) (simp add: converse_rtranclp_into_rtranclp)
  qed
  show ?thesis
  proof (cases "gs_pc s u")
    case T_Link
    then have st: "insert_step u s (goto u (T_Push (gs_add_list s)) s)" (is "insert_step u s ?s") by (rule insert_link)
    obtain s' where "reg_step\<^sup>*\<^sup>* ?s s'" "awaiting t c s'" "\<not> gs_spinlock s'" "gs_backend s' = gs_backend ?s"
      using push [OF awaiting_thread [OF aw st other], of "gs_add_list s"] by auto
    with step [OF st] show ?thesis by (intro exI [of _ s']) (simp add: converse_rtranclp_into_rtranclp)
  qed (use push [OF aw] unlock [OF aw] held in auto)
qed

lemma backend_runs: "backend_step\<^sup>*\<^sup>* s s' \<Longrightarrow> reg_step\<^sup>*\<^sup>* s s'"
  by (rule rtranclp_mono [THEN predicate2D]) (auto simp: reg_step_def)

lemma run_to_critical:
  assumes aw: "awaiting t c s" and at: "gs_backend s = B_Lock"
  shows "\<exists>s'. reg_step\<^sup>*\<^sup>* s s' \<and> awaiting t c s' \<and> gs_backend s' = B_Move"
proof -
  have take: "\<exists>s'. reg_step\<^sup>*\<^sup>* s s' \<and> awaiting t c s' \<and> gs_backend s' = B_Move"
    if "awaiting t c s" "gs_backend s = B_Lock" "\<not> gs_spinlock s" for s :: "'a registry"
  proof -
    have "new_ctx_step s (s\<lparr>gs_spinlock := True, gs_backend := B_Move\<rparr>)" (is "new_ctx_step s ?s")
      using new_lock [OF that(2), of True True] that(3) by (simp add: spinlock_defs)
    then have "backend_step s ?s" unfolding backend_step_def by blast
    with awaiting_backend [OF that(1) this] show ?thesis
      by (intro exI [of _ ?s]) (auto intro: backend_runs)
  qed
  show ?thesis
  proof (cases "gs_spinlock s")
    case True
    have "lock_inv (gs_spinlock s) (reg_inside s)" using aw by (auto simp: awaiting_def dest: reg_inv_parts(1))
    with True obtain h where "reg_inside s h" by (auto simp: lock_inv_def)
    then obtain u where "thread_inside (gs_pc s u)" using at by (auto simp: reg_inside_def split: option.splits)
    from run_to_release [OF aw this] obtain s1 where
      s1: "reg_step\<^sup>*\<^sup>* s s1" "awaiting t c s1" "\<not> gs_spinlock s1" "gs_backend s1 = B_Lock" using at by auto
    with take [of s1] show ?thesis by (meson rtranclp_trans)
  qed (use take [OF aw at] in blast)
qed

text \<open>
  C34: a cleanup is never blocked. From every reachable state in which a thread waits in
  \<open>haclog_context_remove_thread_context\<close> for a context the backend knows (listed, or answered
  already), the run can be continued, without any step of a log statement or of a new thread, to a state in which
  the backend has answered and the thread has freed the context and left the cleanup.
\<close>

theorem cleanup_completes:
  assumes "reg_reachable s" and "gs_pc s t = T_Wait" and "gs_local s t = Some c" and "gs_mem s c = Some x"
    and "c \<in> set (listed s) \<or> tc_status x = HACLOG_THREAD_CONTEXT_STATUS_DONE"
  shows "\<exists>s'. reg_step\<^sup>*\<^sup>* s s' \<and> gs_pc s' t = T_Out \<and> gs_local s' t = None \<and> gs_mem s' c = None"
proof -
  have aw: "awaiting t c s" using assms registry.run_inv [OF assms(1)] by (auto simp: awaiting_def)
  have from_critical: "\<exists>s'. reg_step\<^sup>*\<^sup>* s s' \<and> awaiting t c s' \<and> answered c s'"
    if "awaiting t c s" "backend_inside (gs_backend s)" for s :: "'a registry"
    using run_to_consume [OF that] run_to_answer [of t c] backend_runs by (meson rtranclp_trans)
  have "\<exists>s'. reg_step\<^sup>*\<^sup>* s s' \<and> awaiting t c s' \<and> answered c s'"
  proof (cases "backend_inside (gs_backend s)")
    case False
    obtain s1 where s1: "backend_step\<^sup>*\<^sup>* s s1" "gs_backend s1 = B_Lock" "awaiting t c s1"
      using run_to_lock [OF aw False, of "\<lambda>_. True"] by blast
    obtain s2 where s2: "reg_step\<^sup>*\<^sup>* s1 s2" "awaiting t c s2" "gs_backend s2 = B_Move"
      using run_to_critical [OF s1(3,2)] by blast
    then obtain s3 where "reg_step\<^sup>*\<^sup>* s2 s3" "awaiting t c s3" "answered c s3"
      using from_critical [of s2] by auto
    with s1 s2 show ?thesis using backend_runs by (meson rtranclp_trans)
  qed (rule from_critical [OF aw])
  then obtain s1 y where s1: "reg_step\<^sup>*\<^sup>* s s1" "gs_pc s1 t = T_Wait" "gs_local s1 t = Some c"
    "gs_mem s1 c = Some y" "tc_status y = HACLOG_THREAD_CONTEXT_STATUS_DONE"
    by (auto simp: awaiting_def answered_def)
  have "remove_step t s1 (goto t T_Free s1)" (is "remove_step t s1 ?s2")
    using remove_wait [OF s1(2-4)] s1(5) by simp
  moreover have "cleanup_step t ?s2 (goto t T_Out (?s2\<lparr>gs_mem := (gs_mem ?s2)(c := None), gs_local := (gs_local ?s2)(t := None)\<rparr>))"
    (is "cleanup_step t ?s2 ?s3")
    by (rule cleanup_free) (simp_all add: s1)
  ultimately have "reg_step s1 ?s2" "reg_step ?s2 ?s3" unfolding reg_step_def thread_step_def by blast+
  with s1(1) have "reg_step\<^sup>*\<^sup>* s ?s3" by (meson rtranclp.rtrancl_into_rtrancl)
  then show ?thesis by (intro exI [of _ ?s3]) simp
qed

lemma cleanup_completes_witness:
  "gs_pc demo_wait 7 = T_Wait \<and> (\<exists>s'. reg_step\<^sup>*\<^sup>* demo_wait s' \<and> gs_pc s' 7 = T_Out \<and> gs_mem s' 1 = None)"
proof -
  let ?x = "(demo_ctx [])\<lparr>tc_status := HACLOG_THREAD_CONTEXT_STATUS_WAIT_REMOVE\<rparr>"
  have at: "gs_pc demo_wait 7 = T_Wait" "gs_local demo_wait 7 = Some 1" "gs_mem demo_wait 1 = Some ?x"
    "1 \<in> set (listed demo_wait) \<or> tc_status ?x = HACLOG_THREAD_CONTEXT_STATUS_DONE"
    by (simp_all add: demo_defs)
  from cleanup_completes [OF demo_wait_reachable at] at(1) show ?thesis by blast
qed

end
