(* ===== verification/Haclog_Ring_Run.thy ===== *)
theory Haclog_Ring_Run
  imports Haclog_Statement
begin

text \<open>
  The two models of the byte ring tied together: a call of \<open>haclog_printf_primitive_serialize\<close> is a run
  of the writer's steps of \<open>ring_step\<close>, so what was proved of the steps holds of the functions. The
  record such a call publishes carries its statement: whoever finds its bytes in the block can read
  the statement from them.
\<close>

section \<open>Fetches and writes as steps\<close>

abbreviation ring_steps :: "ring \<Rightarrow> ring \<Rightarrow> bool" where
  "ring_steps \<equiv> ring_step\<^sup>*\<^sup>*"

text \<open>The writer of s holding these segments and this local position.\<close>

abbreviation busy :: "ring \<Rightarrow> int \<Rightarrow> block \<Rightarrow> int list \<Rightarrow> seg list \<Rightarrow> int \<Rightarrow> ring" where
  "busy s c m ns segs lw \<equiv>
     s\<lparr>rg_known_r := c, rg_bb := (rg_bb s)\<lparr>bb_buffer := m\<rparr>, rg_writer := Writer_Busy ns segs lw\<rparr>"

lemma w_fc_codes: "0 \<le> w \<Longrightarrow> haclog_bytes_buffer_w_fc b n r w p = (p', ret) \<Longrightarrow> ret < 0 \<Longrightarrow> ret = - 1 \<or> ret = - 2"
  using w_fc_result [of b n r w p ret] by auto

lemma fetch_loop_run:
  assumes "fetch_loop b n lw c loads p = Continue pos s'" "set loads \<subseteq> {bb_r (rg_bb s)}" "0 \<le> lw"
    and "b = (rg_bb s)\<lparr>bb_buffer := m\<rparr>"
  shows "ring_steps (busy s c m (n # ns) segs lw) (busy s (ss_r s') m ns (segs @ [(pos, n)]) (pos + n)) \<and>
    set (ss_loads s') \<subseteq> {bb_r (rg_bb s)} \<and> 0 \<le> pos"
  using assms
proof (induction b n lw c loads p rule: fetch_loop.induct)
  case (1 b n lw c loads p)
  obtain p1 ret where fc: "haclog_bytes_buffer_w_fc b n c lw p = (p1, ret)" by fastforce
  show ?case
  proof (cases "ret \<ge> 0")
    case True
    with "1.prems"(1) fc have s': "s' = \<lparr>ss_bb = b, ss_r = c, ss_loads = loads, ss_proc = p1\<rparr>" "pos = ret"
      by (simp_all add: fetch_loop.simps)
    have "ring_step (busy s c m (n # ns) segs lw) ((busy s c m (n # ns) segs lw)
        \<lparr>rg_writer := Writer_Busy ns (segs @ [(pos, n)]) (pos + n)\<rparr>)"
      by (rule ring_fetch [where n = n and lw = lw and p = p]) (use fc s' True "1.prems"(4) in simp_all)
    with s' "1.prems"(2) True show ?thesis by simp
  next
    case False
    with "1.prems"(1) fc obtain r' loads' where ld: "loads = r' # loads'" and ret: "ret \<noteq> - 1"
      and rest: "fetch_loop b n lw r' loads' p1 = Continue pos s'"
      by (auto simp: fetch_loop.simps [of b n lw c] Let_def split: if_splits list.splits)
    have r': "r' = bb_r (rg_bb s)" "set loads' \<subseteq> {bb_r (rg_bb s)}" using "1.prems"(2) ld by auto
    have "ret = - 2" using w_fc_codes [OF "1.prems"(3) fc] False ret by simp
    then have "ring_step (busy s c m (n # ns) segs lw)
        ((busy s c m (n # ns) segs lw)\<lparr>rg_known_r := bb_r (rg_bb (busy s c m (n # ns) segs lw))\<rparr>)"
      by (intro ring_reload [where n = n and lw = lw and p = p]) (use fc "1.prems"(4) in simp_all)
    then have "ring_step (busy s c m (n # ns) segs lw) (busy s r' m (n # ns) segs lw)"
      using r'(1) by (cases s) simp
    with "1.IH" [OF fc [symmetric] refl False ret ld rest r'(2) "1.prems"(3,4)]
    show ?thesis by (auto intro: converse_rtranclp_into_rtranclp)
  qed
qed

lemma fetch_run:
  assumes "HACLOG_FETCH_W n lw t = Continue pos t'" "0 \<le> lw" "ss_bb t = (rg_bb s)\<lparr>bb_buffer := m\<rparr>"
    and "set (ss_loads t) \<subseteq> {bb_r (rg_bb s)}"
  shows "ring_steps (busy s (ss_r t) m (n # ns) segs lw) (busy s (ss_r t') m ns (segs @ [(pos, n)]) (pos + n))"
    "set (ss_loads t') \<subseteq> {bb_r (rg_bb s)}" "0 \<le> pos"
  using fetch_loop_run [OF assms(1) [unfolded HACLOG_FETCH_W_def] assms(4,2,3)] by blast+

lemma put_slots_run:
  assumes "put_slots mem_write m a slots = Some m'" "slots_ok slots" "(pos, n) \<in> set segs" "0 \<le> pos"
    and "nat pos \<le> a" "int (a + slots_len slots) \<le> pos + n"
  shows "ring_steps (busy s c m ns segs lw) (busy s c m' ns segs lw)"
  using assms
proof (induction slots arbitrary: m a rule: slots_ok.induct)
  case (2 k bs ss)
  then obtain m1 where m1: "mem_write m a bs = Some m1" and rest: "put_slots mem_write m1 (a + k) ss = Some m'"
    by (auto split: option.splits)
  have "ring_step (busy s c m ns segs lw)
      ((busy s c m ns segs lw)\<lparr>rg_bb := (rg_bb (busy s c m ns segs lw))\<lparr>bb_buffer := m1\<rparr>\<rparr>)"
    by (rule ring_poke [where a = "int a" and bs = bs and pos = pos and n = n]) (use "2.prems" m1 in auto)
  then have "ring_step (busy s c m ns segs lw) (busy s c m1 ns segs lw)" by (cases s) simp
  with "2.IH" [OF rest] "2.prems" show ?case by (auto intro: converse_rtranclp_into_rtranclp)
qed simp

section \<open>What a published record carries\<close>

text \<open>
  Any block of the ring's size that holds the bytes the message was published with, and so the
  block when the backend comes to it, holds the statement's record.
\<close>

definition carries ::
  "int \<Rightarrow> message \<Rightarrow> int \<Rightarrow> printf_primitive \<Rightarrow> int \<times> int \<Rightarrow> (int \<times> int \<times> carg) list \<Rightarrow> bool" where
  "carries cap msg ptr prim ts vals \<longleftrightarrow>
     (\<forall>b st. bb_capacity b = cap \<longrightarrow> int (length (bb_buffer b)) = cap \<longrightarrow>
        hdr_pos cap st = fst (hd (m_segs msg)) \<longrightarrow>
        map (seg_data (bb_buffer b)) (m_segs msg) = m_data msg \<longrightarrow>
        record_at b st ptr prim ts vals (m_end msg))"

lemma slots_at_transfer:
  assumes at: "slots_at mem_read m (nat a) slots" "slots_ok slots" "int (slots_len slots) = n"
    and fits: "0 \<le> a" "a + n \<le> int (length m)" "length m' = length m"
    and same: "seg_data m' (a, n) = seg_data m (a, n)"
  shows "slots_at mem_read m' (nat a) slots"
proof (rule heap.slots_at_cong [OF at(1,2)])
  let ?k = "slots_len slots"
  have n: "nat n = ?k" using at(3) by simp
  have "nat a + ?k \<le> length m" using fits at(3) by linarith
  then obtain bs bs' where bs: "mem_read m (nat a) ?k = Some bs" "mem_read m' (nat a) ?k = Some bs'"
    using fits(3) by (simp add: mem_read_def)
  then have eq: "bs' = bs" using same n by (simp add: seg_data_def)
  fix c k assume c: "nat a \<le> c" "c + k \<le> nat a + ?k"
  then obtain i where i: "c = nat a + i" "i + k \<le> ?k" using le_Suc_ex by auto
  show "mem_read m' c k = mem_read m c k"
    using heap.rd_sub [OF bs(1) i(2)] heap.rd_sub [OF bs(2) i(2)] eq i(1) by simp
qed

lemma parts_carry:
  assumes parts: "parts_written b0 ptr prim ts slots st w_const w_str fin m"
    and ok: "slots_ok slots" "int (slots_len slots) = pr_param_size prim" "as_inv st"
    and reads: "\<forall>b pos_str. bb_capacity b < 2147483648 \<longrightarrow> slots_at mem_read (bb_buffer b) (nat w_const) slots \<longrightarrow>
       strings_at (bb_buffer b) pos_str (as_cache st) \<longrightarrow>
       int pos_str + cache_len (as_cache st) \<le> bb_capacity b \<longrightarrow>
       reads_all (pr_specs prim) b (int pos_str) (part_ptr (bb_capacity b0) w_const) vals"
    and cap: "256 \<le> bb_capacity b0" "bb_capacity b0 < 2147483648" "int (length (bb_buffer b0)) = bb_capacity b0"
    and msg: "m_segs msg = [(hdr_pos (bb_capacity b0) (bb_w b0), 48), (w_const, pr_param_size prim),
        (w_str, as_extra_len st), gap]" "m_end msg = fin" "m_data msg = map (seg_data m) (m_segs msg)"
  shows "carries (bb_capacity b0) msg ptr prim ts vals"
  unfolding carries_def
proof (intro allI impI)
  fix b :: bytes_buffer and w
  assume b: "bb_capacity b = bb_capacity b0" "int (length (bb_buffer b)) = bb_capacity b0"
    and hp: "hdr_pos (bb_capacity b0) w = fst (hd (m_segs msg))"
    and data: "map (seg_data (bb_buffer b)) (m_segs msg) = m_data msg"
  let ?h = "hdr_pos (bb_capacity b0) (bb_w b0)"
  note readb = parts_read_back [OF parts ok]
  have rooms: "0 \<le> ?h" "?h + 48 \<le> bb_capacity b0" "0 \<le> w_const" "w_const + pr_param_size prim \<le> bb_capacity b0"
    "0 \<le> w_str" "w_str + as_extra_len st \<le> bb_capacity b0"
    using parts by (auto simp: parts_written_def Let_def room_at_def)
  have len: "int (length m) = bb_capacity b0" "length (bb_buffer b) = length m"
    using readb(4) cap(3) b(2) by simp_all
  have same: "seg_data (bb_buffer b) (?h, 48) = seg_data m (?h, 48)"
    "seg_data (bb_buffer b) (w_const, pr_param_size prim) = seg_data m (w_const, pr_param_size prim)"
    "seg_data (bb_buffer b) (w_str, as_extra_len st) = seg_data m (w_str, as_extra_len st)"
    using data msg by simp_all
  have cs: "\<forall>c\<in>set (as_cache st). entry_ok c" "cache_len (as_cache st) = as_extra_len st"
    using ok(3) by (simp_all add: as_inv_def)
  note strs = cache_slots [OF cs(1), unfolded cs(2)]
  have at: "slots_at mem_read (bb_buffer b) (nat w_const) slots"
    by (rule slots_at_transfer [OF readb(1) ok(1,2) _ _ len(2) same(2)]) (use rooms len in simp_all)
  have "slots_at mem_read (bb_buffer b) (nat w_str) (concat (map str_slots (as_cache st)))"
    by (rule slots_at_transfer [OF _ _ _ _ _ len(2) same(3)])
      (use readb(2) strs rooms len in \<open>simp_all add: strings_at_def\<close>)
  then have sat: "strings_at (bb_buffer b) (nat w_str) (as_cache st)" using cs by (simp add: strings_at_def)
  have hat: "slots_at mem_read (bb_buffer b) (nat ?h)
      (hdr_slots ts w_const w_str (as_extra_len st) (c_u64 fin) ptr)"
    by (rule slots_at_transfer [OF readb(3) hdr_slots_ok(1) _ _ _ len(2) same(1)])
      (use rooms len in \<open>simp_all add: hdr_slots_ok\<close>)
  show "record_at b w ptr prim ts vals (m_end msg)"
    unfolding msg(2) by (rule parts_record [OF parts ok(3) at sat hat reads cap(1,2) b(1)]) (use hp msg in simp)
qed

section \<open>Stages of a call\<close>

text \<open>
  The call has come to the state t, with parts ns still to fetch, the segments it has, the local
  position lw and the block m, by steps of the ring g.
\<close>

definition at_stage :: "ring \<Rightarrow> ser_state \<Rightarrow> int list \<Rightarrow> seg list \<Rightarrow> int \<Rightarrow> block \<Rightarrow> bool" where
  "at_stage g t ns segs lw m \<longleftrightarrow>
     ss_bb t = (rg_bb g)\<lparr>bb_buffer := m\<rparr> \<and> ser_inv t lw \<and> set (ss_loads t) \<subseteq> {bb_r (rg_bb g)} \<and> 0 \<le> lw \<and>
     ring_steps g (busy g (ss_r t) m ns segs lw)"

lemma ring_ser_inv:
  assumes inv: "ring_inv g" and s: "ss_bb s = rg_bb g" "ss_r s = rg_known_r g" "set (ss_loads s) \<subseteq> {bb_r (rg_bb g)}"
  shows "ser_inv s (bb_w (ss_bb s))"
proof -
  note facts = ring_inv_facts [OF inv]
  have "loads_ok (rg_cap g) c (bb_w (rg_bb g)) ls"
    if "set ls \<subseteq> {bb_r (rg_bb g)}"
      "ring_dist (rg_cap g) c (bb_r (rg_bb g)) \<le> ring_dist (rg_cap g) c (bb_w (rg_bb g))" for c ls
    using that
  proof (induction ls arbitrary: c)
    case (Cons l ls)
    have "0 \<le> ring_dist (rg_cap g) (bb_r (rg_bb g)) (bb_w (rg_bb g))"
      using ring_dist_range [of "bb_r (rg_bb g)" "rg_cap g" "bb_w (rg_bb g)"] facts by simp
    with Cons facts show ?case by simp
  qed simp
  from this [OF s(3) ring_inv_parts(1) [OF inv]] facts inv show ?thesis
    by (simp add: ser_inv_def Let_def s writer_inv_start ring_inv_def bb_wf_def)
qed

lemma stage_begin:
  assumes inv: "ring_inv g" and idle: "rg_writer g = Writer_Idle" and n: "0 \<le> params" "0 \<le> extra"
    and s: "ss_bb s = rg_bb g" "ss_r s = rg_known_r g" "set (ss_loads s) \<subseteq> {bb_r (rg_bb g)}"
  shows "at_stage g s [48, params, extra, 128] [] (bb_w (rg_bb g)) (bb_buffer (rg_bb g))"
proof -
  have "ring_step g (g\<lparr>rg_writer := Writer_Busy [sizeof_serialize_hdr, params, extra, HACLOG_CACHE_INTERVAL] [] (bb_w (rg_bb g))\<rparr>)"
    by (rule ring_begin [OF idle n])
  moreover have "g\<lparr>rg_writer := Writer_Busy [sizeof_serialize_hdr, params, extra, HACLOG_CACHE_INTERVAL] [] (bb_w (rg_bb g))\<rparr> =
      busy g (ss_r s) (bb_buffer (rg_bb g)) [48, params, extra, 128] [] (bb_w (rg_bb g))"
    by (cases g) (simp add: c_arith s)
  ultimately have "ring_steps g (busy g (ss_r s) (bb_buffer (rg_bb g)) [48, params, extra, 128] [] (bb_w (rg_bb g)))"
    by simp
  then show ?thesis
    using ring_ser_inv [OF inv s] ring_inv_facts [OF inv] s by (simp add: at_stage_def)
qed

lemma stage_fetch:
  assumes st: "at_stage g t (n # ns) segs lw m" and f: "HACLOG_FETCH_W n lw t = Continue pos t'" and n: "0 \<le> n"
  shows "at_stage g t' ns (segs @ [(pos, n)]) (pos + n) m" "0 \<le> pos" "pos + n \<le> rg_cap g"
proof -
  have t: "ss_bb t = (rg_bb g)\<lparr>bb_buffer := m\<rparr>" "ser_inv t lw" "set (ss_loads t) \<subseteq> {bb_r (rg_bb g)}" "0 \<le> lw"
    "ring_steps g (busy g (ss_r t) m (n # ns) segs lw)" using st by (simp_all add: at_stage_def)
  note room = fetch_w_room [OF f n t(2)] and run = fetch_run [OF f t(4,1,3)]
  show pos: "0 \<le> pos" by (rule run(3))
  show "pos + n \<le> rg_cap g" using room(3) t(1) by (simp add: room_at_def)
  show "at_stage g t' ns (segs @ [(pos, n)]) (pos + n) m"
    unfolding at_stage_def using room(1,2) t(1) run(2) pos n rtranclp_trans [OF t(5) run(1)] by simp
qed

lemma stage_write:
  assumes st: "at_stage g t ns segs lw m" and put: "put_slots mem_write m a slots = Some m'" "slots_ok slots"
    and seg: "(pos, n) \<in> set segs" "0 \<le> pos" "nat pos \<le> a" "int (a + slots_len slots) \<le> pos + n"
  shows "at_stage g (t\<lparr>ss_proc := p, ss_bb := (ss_bb t)\<lparr>bb_buffer := m'\<rparr>\<rparr>) ns segs lw m'"
proof -
  have t: "ss_bb t = (rg_bb g)\<lparr>bb_buffer := m\<rparr>" "ser_inv t lw"
    "ring_steps g (busy g (ss_r t) m ns segs lw)" using st by (simp_all add: at_stage_def)
  have "ring_steps g (busy g (ss_r t) m' ns segs lw)"
    using t(3) put_slots_run [OF put seg] by (rule rtranclp_trans)
  with st t ser_inv_mem [OF t(2), of m' p] heap.put_slots_size [OF put(1)] show ?thesis
    by (simp add: at_stage_def)
qed

section \<open>A call is a run\<close>

lemma serialize_run:
  assumes ser: "haclog_printf_primitive_serialize ptr prim args ts s = Continue () s'"
    and inv: "ring_inv g" and idle: "rg_writer g = Writer_Idle"
    and prim: "primitive_ok prim" and args: "args_ok args"
    and s: "ss_bb s = rg_bb g" "ss_r s = rg_known_r g" "set (ss_loads s) \<subseteq> {bb_r (rg_bb g)}"
  obtains msg vals left where "ring_steps g (g\<lparr>rg_known_r := ss_r s', rg_bb := ss_bb s',
      rg_queue := rg_queue g @ [msg], rg_published := rg_published g @ [msg]\<rparr>)"
    "ref_convs (pr_specs prim) args = Some (vals, left)"
    "carries (rg_cap g) msg ptr prim ts vals"
    "bb_capacity (ss_bb s') = rg_cap g" "bb_r (ss_bb s') = bb_r (rg_bb g)"
proof -
  let ?b = "rg_bb g" and ?cap = "rg_cap g" and ?w = "bb_w (rg_bb g)"
  let ?ps = "pr_param_size prim" and ?h = "hdr_pos (rg_cap g) (bb_w (rg_bb g))"
  note facts = ring_inv_facts [OF inv]
  have sinv: "ser_inv s (bb_w (ss_bb s))" by (rule ring_ser_inv [OF inv s])
  obtain slots st vals w_const w_str fin m where P: "parts_written ?b ptr prim ts slots st w_const w_str fin m"
    "slots_ok slots" "int (slots_len slots) = ?ps" "as_inv st"
    "ref_convs (pr_specs prim) args = Some (vals, as_args st)"
    "\<forall>b pos_str. bb_capacity b < 2147483648 \<longrightarrow> slots_at mem_read (bb_buffer b) (nat w_const) slots \<longrightarrow>
       strings_at (bb_buffer b) pos_str (as_cache st) \<longrightarrow>
       int pos_str + cache_len (as_cache st) \<le> bb_capacity b \<longrightarrow>
       reads_all (pr_specs prim) b (int pos_str) (part_ptr ?cap w_const) vals"
    "ss_bb s' = ?b\<lparr>bb_buffer := m, bb_w := wrap_pos ?cap fin\<rparr>"
    and run: "parts_run s ptr prim ts slots st w_const w_str fin m (ss_r s')"
    by (rule serialize_parts [OF ser sinv prim args, unfolded s(1)])
  let ?x = "as_extra_len st"
  let ?strs = "concat (map str_slots (as_cache st))" and ?hs = "hdr_slots ts w_const w_str (as_extra_len st) (c_u64 fin) ptr"
  from run obtain s1 s2 s3 s4 p2 p3 m1 m2 where
    f1: "HACLOG_FETCH_W 48 ?w s = Continue ?h s1" and
    f2: "HACLOG_FETCH_W ?ps (?h + 48) s1 = Continue w_const s2" and
    w1: "put_slots mem_write (bb_buffer ?b) (nat w_const) slots = Some m1" and
    f3: "HACLOG_FETCH_W ?x (w_const + ?ps) (s2\<lparr>ss_proc := p2, ss_bb := ?b\<lparr>bb_buffer := m1\<rparr>\<rparr>) = Continue w_str s3" and
    w2: "put_slots mem_write m1 (nat w_str) ?strs = Some m2" and
    f4: "HACLOG_FETCH_W 128 (w_str + ?x) (s3\<lparr>ss_proc := p3, ss_bb := ?b\<lparr>bb_buffer := m2\<rparr>\<rparr>) = Continue (fin - 128) s4" and
    w3: "put_slots mem_write m2 (nat ?h) ?hs = Some m" and r': "ss_r s' = ss_r s4"
    unfolding parts_run_def Let_def s(1) by blast
  have cs: "\<forall>c\<in>set (as_cache st). entry_ok c" "cache_len (as_cache st) = ?x" using P(4) by (simp_all add: as_inv_def)
  have x0: "0 \<le> ?x" using cache_len_nonneg [OF cs(1)] cs(2) by simp
  have ps0: "0 \<le> ?ps" using P(3) by simp
  note strs = cache_slots [OF cs(1), unfolded cs(2)]
  let ?s3 = "[(?h, 48), (w_const, ?ps), (w_str, ?x)]"
  let ?s4 = "[(?h, 48), (w_const, ?ps), (w_str, ?x), (fin - 128, 128)]"
  note st1 = stage_fetch [OF stage_begin [OF inv idle ps0 x0 s] f1, simplified]
  note st2 = stage_fetch [OF st1(1) f2 ps0, simplified]
  have bb2: "ss_bb s2 = ?b" using st2(1) by (simp add: at_stage_def)
  have st2w: "at_stage g (s2\<lparr>ss_proc := p2, ss_bb := ?b\<lparr>bb_buffer := m1\<rparr>\<rparr>) [?x, 128]
      [(?h, 48), (w_const, ?ps)] (w_const + ?ps) m1"
    by (rule stage_write [OF st2(1) w1 P(2), where pos = w_const and n = ?ps, unfolded bb2]) (use st2(2) P(3) in auto)
  note st3 = stage_fetch [OF st2w f3 x0, simplified]
  have bb3: "(ss_bb s3)\<lparr>bb_buffer := m2\<rparr> = ?b\<lparr>bb_buffer := m2\<rparr>" using st3(1) by (simp add: at_stage_def)
  have st3w: "at_stage g (s3\<lparr>ss_proc := p3, ss_bb := ?b\<lparr>bb_buffer := m2\<rparr>\<rparr>) [128] ?s3 (w_str + ?x) m2"
    by (rule stage_write [OF st3(1) w2, where pos = w_str and n = ?x, unfolded bb3]) (use st3(2) strs in auto)
  note st4 = stage_fetch [OF st3w f4, simplified]
  have "at_stage g (s4\<lparr>ss_proc := p3, ss_bb := (ss_bb s4)\<lparr>bb_buffer := m\<rparr>\<rparr>) [] ?s4 fin m"
    by (rule stage_write [OF st4(1) w3 hdr_slots_ok(1), where pos = ?h and n = 48])
      (use st1(2) in \<open>auto simp: hdr_slots_ok\<close>)
  then have filled: "ring_steps g (busy g (ss_r s4) m [] ?s4 fin)" by (simp add: at_stage_def)
  let ?msg = "\<lparr>m_segs = ?s4, m_end = fin, m_data = map (seg_data m) ?s4\<rparr>"
  have fin: "0 \<le> fin" "fin \<le> ?cap" using parts_moved [OF P(1)] by simp_all
  have mv: "haclog_bytes_buffer_w_move (?b\<lparr>bb_buffer := m\<rparr>) fin p = (p, ss_bb s', 0)" for p
    using fin unfolding P(7) by (auto simp: haclog_bytes_buffer_w_move_def wrap_pos_def)
  have "ring_step (busy g (ss_r s4) m [] ?s4 fin) ((busy g (ss_r s4) m [] ?s4 fin)\<lparr>rg_bb := ss_bb s',
      rg_writer := Writer_Idle, rg_queue := rg_queue g @ [?msg], rg_published := rg_published g @ [?msg]\<rparr>)"
    using ring_publish [where s = "busy g (ss_r s4) m [] ?s4 fin" and segs = ?s4 and lw = fin and msg = ?msg] mv
    by simp
  then have t5: "ring_step (busy g (ss_r s4) m [] ?s4 fin) (g\<lparr>rg_known_r := ss_r s', rg_bb := ss_bb s',
      rg_queue := rg_queue g @ [?msg], rg_published := rg_published g @ [?msg]\<rparr>)"
    using idle r' by (cases g) simp
  have car: "carries ?cap ?msg ptr prim ts vals"
    by (rule parts_carry [OF P(1-4) P(6)]) (use facts inv in \<open>simp_all add: ring_inv_def bb_wf_def\<close>)
  from filled t5 have "ring_steps g (g\<lparr>rg_known_r := ss_r s', rg_bb := ss_bb s',
      rg_queue := rg_queue g @ [?msg], rg_published := rg_published g @ [?msg]\<rparr>)"
    by (rule rtranclp.rtrancl_into_rtrancl)
  with that [OF _ P(5) car] show ?thesis by (simp add: P(7))
qed

end
