(* ===== verification/Haclog_Log.thy ===== *)
theory Haclog_Log
  imports Haclog_Ring_Run Haclog_File_Handler
begin

text \<open>
  The backend's work on one thread's ring, \<open>haclog_consume\<close> of \<open>haclog_log.c\<close>: format the records up
  to the writer position loaded at the start, hand each to the handlers whose level it passes, and
  count them. Then the whole pipeline: a thread that logs statements, a backend that consumes them,
  in any order of calls, and a file handler at the end of it.
\<close>

section \<open>The loop over the handlers\<close>

type_synonym 'h handlers = "('h haclog_handler \<times> 'h) list"

fun write_handlers ::
  "meta_info \<Rightarrow> block \<Rightarrow> int \<Rightarrow> 'h handlers \<Rightarrow> world \<Rightarrow> ('h handlers \<times> world) option" where
  "write_handlers meta buf n [] w = Some ([], w)"
| "write_handlers meta buf n ((handler, st) # hs) w =
     (if haclog_handler_should_write handler (loc_level (mi_loc meta)) = 0 then
        map_option (\<lambda>(hs, w). ((handler, st) # hs, w)) (write_handlers meta buf n hs w)
      else
        (case haclog_handler_write handler meta buf n st w of
           None \<Rightarrow> None
         | Some (_, st, w) \<Rightarrow>
             map_option (\<lambda>(hs, w). ((handler, st) # hs, w)) (write_handlers meta buf n hs w)))"

section \<open>haclog_consume\<close>

text \<open>What the backend works with: its message buffer, the context's handlers, and the system.\<close>

record 'h backend =
  bk_buf :: block
  bk_handlers :: "'h handlers"
  bk_world :: world
  bk_proc :: proc

text \<open>One round of the loop; \<open>False\<close> when it breaks. \<open>None\<close> is undefined behaviour.\<close>

definition consume_round ::
  "expander \<Rightarrow> (int \<rightharpoonup> printf_primitive) \<Rightarrow> int \<Rightarrow> int \<Rightarrow> int \<Rightarrow> bytes_buffer \<Rightarrow> 'h backend \<Rightarrow>
   (bool \<times> bytes_buffer \<times> 'h backend) option" where
  "consume_round expand prims bufsize tid w bytes_buf s =
     (case haclog_printf_primitive_format expand prims bytes_buf w (bk_buf s) bufsize (bk_proc s) of
        None \<Rightarrow> None
      | Some res \<Rightarrow>
          (let s = s\<lparr>bk_buf := fr_buf res, bk_proc := fr_proc res\<rparr>
           in if fr_ret res < 0 then Some (False, fr_bb res, s)
              else
                (case fr_meta res of
                   None \<Rightarrow> None
                 | Some (loc, ts) \<Rightarrow>
                     (case write_handlers \<lparr>mi_loc = loc, mi_tid = tid, mi_ts = ts\<rparr> (bk_buf s)
                             (fr_ret res) (bk_handlers s) (bk_world s) of
                        None \<Rightarrow> None
                      | Some (hs, wd) \<Rightarrow>
                          Some (True, fr_bb res, s\<lparr>bk_handlers := hs, bk_world := wd\<rparr>)))))"

text \<open>The loop; \<open>None\<close> also when it does not end.\<close>

partial_function (option) consume_loop ::
  "expander \<Rightarrow> (int \<rightharpoonup> printf_primitive) \<Rightarrow> int \<Rightarrow> int \<Rightarrow> int \<Rightarrow> int \<Rightarrow> bytes_buffer \<Rightarrow> 'h backend \<Rightarrow>
   (int \<times> bytes_buffer \<times> 'h backend) option" where
  "consume_loop expand prims bufsize tid w num_consume bytes_buf s =
     (case consume_round expand prims bufsize tid w bytes_buf s of
        None \<Rightarrow> None
      | Some (again, bytes_buf, s) \<Rightarrow>
          (if again
           then consume_loop expand prims bufsize tid w (c_int (num_consume + 1)) bytes_buf s
           else Some (num_consume, bytes_buf, s)))"

definition haclog_consume ::
  "expander \<Rightarrow> (int \<rightharpoonup> printf_primitive) \<Rightarrow> int \<Rightarrow> int \<Rightarrow> bytes_buffer \<Rightarrow> 'h backend \<Rightarrow>
   (int \<times> bytes_buffer \<times> 'h backend) option" where
  "haclog_consume expand prims bufsize tid bytes_buf s =
     consume_loop expand prims bufsize tid (bb_w bytes_buf) 0 bytes_buf s"

text \<open>
  The backend's pass over its list of thread contexts, each with its id and its ring: what it
  consumed of all of them. A pass that consumed nothing is followed by a sleep.
\<close>

fun consume_all ::
  "expander \<Rightarrow> (int \<rightharpoonup> printf_primitive) \<Rightarrow> int \<Rightarrow> int \<Rightarrow> (int \<times> bytes_buffer) list \<Rightarrow> 'h backend \<Rightarrow>
   (int \<times> (int \<times> bytes_buffer) list \<times> 'h backend) option" where
  "consume_all expand prims bufsize num_consume [] s = Some (num_consume, [], s)"
| "consume_all expand prims bufsize num_consume ((tid, bytes_buf) # node) s =
     (case haclog_consume expand prims bufsize tid bytes_buf s of
        None \<Rightarrow> None
      | Some (n, bytes_buf, s) \<Rightarrow>
          map_option (\<lambda>(num, node, s). (num, (tid, bytes_buf) # node, s))
            (consume_all expand prims bufsize (c_int (num_consume + n)) node s))"

section \<open>One round reads the next record\<close>

lemma queue_ok_end: "queue_ok cap r q w \<Longrightarrow> queue_ok cap r q w' \<Longrightarrow> w = w'"
  by (induction q arbitrary: r) auto

lemma queue_end_range:
  "queue_ok cap r q w \<Longrightarrow> 0 \<le> r \<Longrightarrow> r < cap \<Longrightarrow> 0 \<le> w \<and> w < cap"
proof (induction q arbitrary: r)
  case (Cons m ms)
  then show ?case using wrap_pos_range [of "m_end m" cap] by (auto simp: msg_ok_def)
qed simp

lemma skip_before_record:
  assumes inv: "ring_inv g" and ne: "bb_r (rg_bb g) \<noteq> rg_snap g"
    and tail: "rg_cap g - bb_r (rg_bb g) < sizeof_serialize_hdr"
  shows "rg_snap g \<noteq> 0"
proof -
  let ?cap = "rg_cap g" and ?r = "bb_r (rg_bb g)"
  note facts = ring_inv_facts [OF inv]
  obtain pre post where q: "rg_queue g = pre @ post" "queue_ok ?cap ?r pre (rg_snap g)"
    using ring_inv_parts(4) [OF inv] by blast
  with ne obtain m ms where pre: "pre = m # ms" by (cases pre) auto
  let ?e = "wrap_pos ?cap (m_end m)"
  have m: "msg_ok ?cap ?r m" "queue_ok ?cap ?e ms (rg_snap g)" using q(2) pre by simp_all
  have e: "0 \<le> ?e" "?e < ?cap" using m(1) wrap_pos_range [of "m_end m" ?cap] facts by (auto simp: msg_ok_def)
  have "hdr_pos ?cap ?r = 0" using tail by (simp add: hdr_pos_def)
  then have "seg_between ?cap ?r 0 ?e (0, 48)" using m(1) by (auto simp: msg_ok_def c_arith)
  then have re: "ring_dist ?cap ?r 0 < ring_dist ?cap ?r ?e" by (auto simp: seg_between_def)
  have post: "queue_ok ?cap (rg_snap g) post (bb_w (rg_bb g))"
    using ring_inv_parts(2) [OF inv] q queue_ok_end by (metis queue_ok_append)
  have snap: "0 \<le> rg_snap g" "rg_snap g < ?cap" using queue_end_range [OF q(2)] facts by auto
  have "queue_span ?cap ?r pre < ?cap"
    using ring_inv_parts(3) [OF inv] queue_span_append [OF q(2), of post] queue_span_nonneg [OF post] snap facts q(1)
    by simp
  then have "ring_dist ?cap ?r (rg_snap g) = queue_span ?cap ?r pre"
    by (intro queue_dist [OF q(2)]) (use facts snap in auto)
  moreover have "0 \<le> queue_span ?cap ?e ms" by (rule queue_span_nonneg [OF m(2)]) (use e facts in auto)
  ultimately show ?thesis using re pre by auto
qed

definition prim_printable :: "printf_primitive \<Rightarrow> bool" where
  "prim_printable prim \<longleftrightarrow>
     primitive_ok prim \<and> specs_cover (pr_fmt prim) 0 (pr_specs prim) \<and>
     pr_fmt_len prim = int (length (pr_fmt prim)) \<and> length (pr_fmt prim) < 65536"

lemma format_run:
  assumes inv: "ring_inv g" and ne: "bb_r (rg_bb g) \<noteq> rg_snap g" and q: "rg_queue g = msg # ms"
    and carries: "carries (rg_cap g) msg ptr prim ts vals"
    and prim: "prims (c_u64 ptr) = Some prim" "prim_printable prim"
    and buf: "int (length buf) = bufsize" "1 \<le> bufsize" "bufsize \<le> 2147483647"
    and expand: "expander_ok expand"
  obtains res where
    "haclog_printf_primitive_format expand prims (rg_bb g) (rg_snap g) buf bufsize p = Some res"
    "printed_as (message_text expand (pr_fmt prim) (pr_specs prim) vals 0) bufsize (fr_buf res) (fr_ret res)"
    "fr_meta res = Some (pr_loc prim, c_s64 (fst ts), c_s64 (snd ts))"
    "ring_steps g (g\<lparr>rg_bb := fr_bb res, rg_queue := ms, rg_consumed := rg_consumed g @ [msg]\<rparr>)"
    "fr_bb res = (rg_bb g)\<lparr>bb_r := wrap_pos (rg_cap g) (m_end msg)\<rparr>"
proof -
  let ?b = "rg_bb g" and ?cap = "rg_cap g" and ?r = "bb_r (rg_bb g)"
  let ?b' = "if ?cap - ?r < 48 then ?b\<lparr>bb_r := 0\<rparr> else ?b"
  note facts = ring_inv_facts [OF inv]
  have mok: "msg_ok ?cap ?r msg" using ring_inv_parts(2) [OF inv] q by simp
  then have hd: "hdr_pos ?cap ?r = fst (hd (m_segs msg))" by (auto simp: msg_ok_def)
  have data: "map (seg_data (bb_buffer ?b)) (m_segs msg) = m_data msg"
    using ring_inv_parts(6) [OF inv] q by simp
  have "record_at ?b ?r ptr prim ts vals (m_end msg)"
    using carries hd data facts(8) by (simp add: carries_def)
  then obtain hdr where hdr: "hdr_read (bb_buffer ?b) (nat (hdr_pos ?cap ?r)) = Some hdr"
    "h_ts hdr = (c_s64 (fst ts), c_s64 (snd ts))" "h_primitive hdr = c_u64 ptr" "h_pos_end hdr = m_end msg"
    and fin: "0 \<le> m_end msg" "m_end msg \<le> ?cap" "?cap < 2147483648"
    and reads: "\<forall>b' s. bb_buffer b' = bb_buffer ?b \<longrightarrow> bb_capacity b' = ?cap \<longrightarrow>
      reads_all (pr_specs prim) b' (h_pos_str hdr) (snd (haclog_bytes_buffer_get b' (h_pos_const hdr) s)) vals"
    by (auto simp: record_at_def)
  define N where "N = nat (bufsize - 1)"
  with buf have N: "bufsize = int N + 1" "int (length buf) = int N + 1" "N < 2147483647" by simp_all
  obtain res where res: "haclog_printf_primitive_format expand prims ?b (rg_snap g) buf (int N + 1) p = Some res"
    "printed_as (message_text expand (pr_fmt prim) (pr_specs prim) vals 0) (int N + 1) (fr_buf res) (fr_ret res)"
    "fr_meta res = Some (pr_loc prim, h_ts hdr)"
    "fr_bb res = ?b\<lparr>bb_r := wrap_pos ?cap (h_pos_end hdr)\<rparr>"
  proof (rule format_message [of buf N ?b "rg_snap g" ?b' hdr prims prim p vals expand])
    show "hdr_read (bb_buffer ?b) (nat (bb_r ?b')) = Some hdr"
      using hdr(1) by (auto simp: hdr_pos_def c_arith split: if_splits)
    show "reads_all (pr_specs prim) ?b' (h_pos_str hdr)
        (snd (haclog_bytes_buffer_get ?b' (h_pos_const hdr) p)) vals"
      by (rule reads [rule_format]) simp_all
  qed (use N hdr fin prim expand ne facts in \<open>simp_all add: prim_printable_def primitive_ok_def\<close>)
  have bb: "fr_bb res = ?b\<lparr>bb_r := wrap_pos ?cap (m_end msg)\<rparr>" using res(4) hdr(4) by simp
  have "ring_steps g (g\<lparr>rg_bb := fr_bb res, rg_queue := ms, rg_consumed := rg_consumed g @ [msg]\<rparr>)"
  proof (cases "?cap - ?r < sizeof_serialize_hdr")
    case True
    let ?g = "g\<lparr>rg_bb := ?b\<lparr>bb_r := 0\<rparr>\<rparr>"
    have "ring_step ?g (?g\<lparr>rg_bb := fr_bb res, rg_queue := ms, rg_consumed := rg_consumed ?g @ [msg]\<rparr>)"
      by (rule ring_consume [where m = msg and p = p and p' = p and ret = 0])
        (use skip_before_record [OF inv ne True] q facts fin in
          \<open>auto simp: c_arith haclog_bytes_buffer_r_move_def bb wrap_pos_def\<close>)
    with ring_skip [OF ne True] show ?thesis by (auto intro: converse_rtranclp_into_rtranclp)
  next
    case False
    have "ring_step g (g\<lparr>rg_bb := fr_bb res, rg_queue := ms, rg_consumed := rg_consumed g @ [msg]\<rparr>)"
      by (rule ring_consume [OF ne False q, where p = p and p' = p and ret = 0])
        (use fin in \<open>auto simp: haclog_bytes_buffer_r_move_def bb wrap_pos_def\<close>)
    then show ?thesis by (rule r_into_rtranclp)
  qed
  with that res N hdr bb show ?thesis by simp
qed

end
