(* ===== verification/Haclog_Reject.thy ===== *)
theory Haclog_Reject
  imports Haclog_Ring_Run
begin

text \<open>
  The early return of \<open>haclog_printf_primitive_serialize\<close>: a part larger than half the ring less the
  guard interval makes the call return. Such a call is a run of the writer's steps that ends with
  \<open>ring_reject\<close>: bytes behind the published position may have changed, the position has not.
\<close>

section \<open>Giving up\<close>

definition given_up :: "ring \<Rightarrow> ser_state \<Rightarrow> int \<Rightarrow> bool" where
  "given_up g t n \<longleftrightarrow>
     (\<exists>m. ss_bb t = (rg_bb g)\<lparr>bb_buffer := m\<rparr>) \<and> rg_cap g div 2 - 128 < n \<and>
     ring_steps g (g\<lparr>rg_known_r := ss_r t, rg_bb := ss_bb t\<rparr>)"

lemma fetch_loop_gives_up:
  assumes "fetch_loop b n lw c loads p = Returned t'" "set loads \<subseteq> {bb_r (rg_bb g)}" "0 \<le> lw"
    and "b = (rg_bb g)\<lparr>bb_buffer := m\<rparr>"
  shows "ss_bb t' = b \<and> rg_cap g sdiv 2 - 128 < n \<and>
    ring_steps (busy g c m (n # ns) segs lw) (g\<lparr>rg_known_r := ss_r t', rg_bb := b, rg_writer := Writer_Idle\<rparr>)"
  using assms
proof (induction b n lw c loads p rule: fetch_loop.induct)
  case (1 b n lw c loads p)
  obtain p1 ret where fc: "haclog_bytes_buffer_w_fc b n c lw p = (p1, ret)" by fastforce
  have neg: "\<not> 0 \<le> ret" using "1.prems"(1) fc by (auto simp: fetch_loop.simps [of b n lw c])
  show ?case
  proof (cases "ret = - 1")
    case True
    then have t': "ss_r t' = c" "ss_bb t' = b"
      using "1.prems"(1) fc by (auto simp: fetch_loop.simps [of b n lw c])
    have "rg_cap g sdiv 2 - 128 < n"
      using fc True "1.prems"(3,4)
      by (auto simp: haclog_bytes_buffer_w_fc_def Let_def c_arith split: if_splits)
    moreover have "ring_step (busy g c m (n # ns) segs lw) ((busy g c m (n # ns) segs lw)\<lparr>rg_writer := Writer_Idle\<rparr>)"
      by (rule ring_reject [where n = n and lw = lw and p = p]) (use fc True "1.prems"(4) in simp_all)
    then have "ring_step (busy g c m (n # ns) segs lw) (g\<lparr>rg_known_r := ss_r t', rg_bb := b, rg_writer := Writer_Idle\<rparr>)"
      using t' "1.prems"(4) by (cases g) simp
    ultimately show ?thesis using t' by blast
  next
    case False
    with neg "1.prems"(1) fc obtain r' loads' where ld: "loads = r' # loads'"
      and rest: "fetch_loop b n lw r' loads' p1 = Returned t'"
      by (auto simp: fetch_loop.simps [of b n lw c] Let_def split: if_splits list.splits)
    have r': "r' = bb_r (rg_bb g)" "set loads' \<subseteq> {bb_r (rg_bb g)}" using "1.prems"(2) ld by auto
    have "ret = - 2" using w_fc_codes [OF "1.prems"(3) fc] False neg by simp
    then have "ring_step (busy g c m (n # ns) segs lw)
        ((busy g c m (n # ns) segs lw)\<lparr>rg_known_r := bb_r (rg_bb (busy g c m (n # ns) segs lw))\<rparr>)"
      by (intro ring_reload [where n = n and lw = lw and p = p]) (use fc "1.prems"(4) in simp_all)
    then have "ring_step (busy g c m (n # ns) segs lw) (busy g r' m (n # ns) segs lw)"
      using r'(1) by (cases g) simp
    with "1.IH" [OF fc [symmetric] refl neg False ld rest r'(2) "1.prems"(3,4)]
    show ?thesis by (auto intro: converse_rtranclp_into_rtranclp)
  qed
qed

lemma stage_gives_up:
  assumes st: "at_stage g t (n # ns) segs lw m" and f: "HACLOG_FETCH_W n lw t = Returned t'"
    and idle: "rg_writer g = Writer_Idle"
  shows "given_up g t' n"
proof -
  have t: "ss_bb t = (rg_bb g)\<lparr>bb_buffer := m\<rparr>" "set (ss_loads t) \<subseteq> {bb_r (rg_bb g)}" "0 \<le> lw"
    "ring_steps g (busy g (ss_r t) m (n # ns) segs lw)" and inv: "ser_inv t lw"
    using st by (simp_all add: at_stage_def)
  have cap: "256 \<le> rg_cap g" using inv t(1) by (simp add: ser_inv_def Let_def)
  from fetch_loop_gives_up [OF f [unfolded HACLOG_FETCH_W_def] t(2,3,1), of ns segs]
  have up: "ss_bb t' = ss_bb t" "rg_cap g sdiv 2 - 128 < n"
    "ring_steps (busy g (ss_r t) m (n # ns) segs lw) (g\<lparr>rg_known_r := ss_r t', rg_bb := ss_bb t, rg_writer := Writer_Idle\<rparr>)"
    by blast+
  have "g\<lparr>rg_known_r := ss_r t', rg_bb := ss_bb t, rg_writer := Writer_Idle\<rparr> = g\<lparr>rg_known_r := ss_r t', rg_bb := ss_bb t\<rparr>"
    using idle by (cases g) simp
  with up t(1) cap rtranclp_trans [OF t(4) up(3)] show ?thesis
    by (auto simp: given_up_def signed_divide_int_def)
qed

section \<open>The whole call\<close>

lemma ser_bind_Returned:
  "ser_bind x f = Returned s' \<longleftrightarrow> x = Returned s' \<or> (\<exists>y s1. x = Continue y s1 \<and> f y s1 = Returned s')"
  by (cases x) auto

lemma ser_get_not_Returned [simp]: "ser_get pos s \<noteq> Returned t"
  by (simp add: ser_get_def split: prod.splits)

lemma ser_mem_not_Returned [simp]: "ser_mem f s \<noteq> Returned t"
  by (simp add: ser_mem_def split: option.splits prod.splits)

text \<open>The four places the call returns from.\<close>

lemma serialize_returns:
  assumes "haclog_printf_primitive_serialize ptr prim args ts s = Returned s'"
  obtains
    (header) "HACLOG_FETCH_W sizeof_serialize_hdr (bb_w (ss_bb s)) s = Returned s'"
  | (params) w_hdr s1 where
      "HACLOG_FETCH_W sizeof_serialize_hdr (bb_w (ss_bb s)) s = Continue w_hdr s1"
      "HACLOG_FETCH_W (c_int (pr_param_size prim)) (c_int (w_hdr + sizeof_serialize_hdr)) s1 = Returned s'"
  | (stored) w_hdr s1 w_const s2 m1 st where
      "HACLOG_FETCH_W sizeof_serialize_hdr (bb_w (ss_bb s)) s = Continue w_hdr s1"
      "HACLOG_FETCH_W (c_int (pr_param_size prim)) (c_int (w_hdr + sizeof_serialize_hdr)) s1 = Continue w_const s2"
      "ser_params (take (pr_num_params prim) (pr_specs prim)) (bb_buffer (ss_bb s2))
         (snd (haclog_bytes_buffer_get (ss_bb s2) w_const (ss_proc s2))) (arg_start args) = Some (m1, st)"
      "HACLOG_FETCH_W (c_int (as_extra_len st)) (c_int (w_const + pr_param_size prim))
         (s2\<lparr>ss_proc := fst (haclog_bytes_buffer_get (ss_bb s2) w_const (ss_proc s2)),
             ss_bb := (ss_bb s2)\<lparr>bb_buffer := m1\<rparr>\<rparr>) = Returned s' \<or>
       (\<exists>w_str s3 m2.
          HACLOG_FETCH_W (c_int (as_extra_len st)) (c_int (w_const + pr_param_size prim))
            (s2\<lparr>ss_proc := fst (haclog_bytes_buffer_get (ss_bb s2) w_const (ss_proc s2)),
                ss_bb := (ss_bb s2)\<lparr>bb_buffer := m1\<rparr>\<rparr>) = Continue w_str s3 \<and>
          ser_strings (bb_buffer (ss_bb s3)) (snd (haclog_bytes_buffer_get (ss_bb s3) w_str (ss_proc s3))) st = Some m2 \<and>
          HACLOG_FETCH_W HACLOG_CACHE_INTERVAL (c_int (w_str + as_extra_len st))
            (s3\<lparr>ss_proc := fst (haclog_bytes_buffer_get (ss_bb s3) w_str (ss_proc s3)),
                ss_bb := (ss_bb s3)\<lparr>bb_buffer := m2\<rparr>\<rparr>) = Returned s')"
  using assms unfolding haclog_printf_primitive_serialize_def Let_def
  by (auto simp: ser_bind_Returned ser_get_Continue ser_mem_Continue case_prod_unfold)

lemma params_room:
  assumes ser: "ser_params specs m (part_ptr cap pos) (arg_start args) = Some (m1, st)"
    and pos: "0 \<le> pos" "pos + sum_list (map haclog_printf_spec_param_size specs) \<le> cap"
    and specs: "\<forall>spec\<in>set specs. spec_typed spec" "num_strs specs \<le> HACLOG_MAX_STR_CACHE"
    and args: "args_ok args"
  shows "as_extra_len st \<le> args_room args"
proof (cases "pos < cap")
  case True
  then have p: "part_ptr cap pos = Some (nat pos)" by (simp add: part_ptr_def)
  have "length (as_cache (arg_start args)) + num_strs specs \<le> HACLOG_MAX_STR_CACHE"
    using specs(2) by (simp add: arg_start_def)
  moreover have "as_inv (arg_start args)" using args by (intro as_inv_start) (simp_all add: args_ok_def)
  ultimately show ?thesis
    using ser_params_ref [OF ser [unfolded p] _ specs(1)] args_room_nonneg [of "as_args st"]
    by (auto simp: arg_start_def)
next
  case False
  then have "specs = []" using param_sizes_bounds [of specs] pos by (cases specs) auto
  then show ?thesis using ser args_room_nonneg [of args] by (auto simp: arg_start_def)
qed

lemma serialize_gives_up:
  assumes ser: "haclog_printf_primitive_serialize ptr prim args ts s = Returned s'"
    and inv: "ring_inv g" and idle: "rg_writer g = Writer_Idle"
    and prim: "primitive_ok prim" and args: "args_ok args"
    and s: "ss_bb s = rg_bb g" "ss_r s = rg_known_r g" "set (ss_loads s) \<subseteq> {bb_r (rg_bb g)}"
  shows "\<exists>n. given_up g s' n \<and> (n = 48 \<or> n = pr_param_size prim \<or> n \<le> args_room args \<or> n = 128)"
proof -
  let ?ps = "pr_param_size prim" and ?w = "bb_w (rg_bb g)" and ?cap = "rg_cap g"
  have cap: "?cap < 2147483648" using inv by (simp add: ring_inv_def bb_wf_def)
  have ps: "c_int ?ps = ?ps" "0 \<le> ?ps" and specs: "take (pr_num_params prim) (pr_specs prim) = pr_specs prim"
    using prim param_sizes_bounds [of "pr_specs prim"] by (simp_all add: primitive_ok_def c_int_id)
  have begins: "0 \<le> x \<Longrightarrow> at_stage g s [48, ?ps, x, 128] [] ?w (bb_buffer (rg_bb g))" for x
    by (rule stage_begin [OF inv idle ps(2) _ s])
  note w = s(1) [THEN arg_cong [where f = bb_w]]
  from ser show ?thesis
  proof (cases rule: serialize_returns)
    case header
    from header [unfolded w sizeof_serialize_hdr_eq] stage_gives_up [OF begins [of 0] _ idle] show ?thesis by auto
  next
    case (params w_hdr s1)
    note st1 = stage_fetch [OF begins [of 0] params(1) [unfolded w sizeof_serialize_hdr_eq], simplified]
    have "c_int (w_hdr + 48) = w_hdr + 48" using st1(2,3) cap by (simp add: c_int_id)
    with params(2) have "HACLOG_FETCH_W ?ps (w_hdr + 48) s1 = Returned s'" by (simp add: ps sizeof_serialize_hdr_eq)
    from stage_gives_up [OF st1(1) this idle] show ?thesis by blast
  next
    case (stored w_hdr s1 w_const s2 m1 st)
    have f1: "HACLOG_FETCH_W 48 ?w s = Continue w_hdr s1" using stored(1) by (simp add: w sizeof_serialize_hdr_eq)
    note st1 = stage_fetch [OF begins f1, simplified]
    have "c_int (w_hdr + 48) = w_hdr + 48" using st1(2,3) [of 0] cap by (simp add: c_int_id)
    then have f2: "HACLOG_FETCH_W ?ps (w_hdr + 48) s1 = Continue w_const s2"
      using stored(2) by (simp add: ps sizeof_serialize_hdr_eq)
    note st2 = stage_fetch [OF st1(1) f2 ps(2), simplified]
    have r2: "0 \<le> w_const" "w_const + ?ps \<le> ?cap" using st2(2,3) [of 0] by simp_all
    have bb2: "ss_bb s2 = rg_bb g" using st2(1) [of 0] by (simp add: at_stage_def)
    obtain slots vals where P: "put_slots mem_write (bb_buffer (rg_bb g)) (nat w_const) slots = Some m1"
      "slots_ok slots" "int (slots_len slots) = ?ps" "as_inv st"
      by (rule params_stored [of "pr_specs prim" "bb_buffer (rg_bb g)" ?cap w_const args m1 st])
        (use stored(3) prim args r2 bb2 in \<open>simp_all add: specs get_part primitive_ok_def args_ok_def\<close>)
    let ?x = "as_extra_len st"
    have room: "?x \<le> args_room args"
      by (rule params_room [of "pr_specs prim" "bb_buffer (rg_bb g)" ?cap w_const args m1])
        (use stored(3) prim args r2 bb2 in \<open>simp_all add: specs get_part primitive_ok_def\<close>)
    have cs: "\<forall>c\<in>set (as_cache st). entry_ok c" "cache_len (as_cache st) = ?x" "?x < 2147483648"
      using P(4) args_room_nonneg [of "as_args st"] by (simp_all add: as_inv_def)
    have x0: "0 \<le> ?x" using cache_len_nonneg [OF cs(1)] cs(2) by simp
    let ?p2 = "fst (haclog_bytes_buffer_get (ss_bb s2) w_const (ss_proc s2))"
    let ?s2 = "s2\<lparr>ss_proc := ?p2, ss_bb := (ss_bb s2)\<lparr>bb_buffer := m1\<rparr>\<rparr>"
    have st3: "at_stage g ?s2 [?x, 128] [(w_hdr, 48), (w_const, ?ps)] (w_const + ?ps) m1"
      by (rule stage_write [OF st2(1) [OF x0] P(1,2), where pos = w_const and n = ?ps]) (use r2 P(3) in auto)
    have e: "c_int ?x = ?x" "c_int (w_const + ?ps) = w_const + ?ps" using x0 cs(3) r2 ps cap by (simp_all add: c_int_id)
    from stored(4) show ?thesis unfolding e
    proof (elim disjE exE conjE)
      assume "HACLOG_FETCH_W ?x (w_const + ?ps) ?s2 = Returned s'"
      from stage_gives_up [OF st3 this idle] room show ?thesis by blast
    next
      fix w_str :: int and s3 :: ser_state and m2
      let ?p3 = "fst (haclog_bytes_buffer_get (ss_bb s3) w_str (ss_proc s3))"
      assume f3: "HACLOG_FETCH_W ?x (w_const + ?ps) ?s2 = Continue w_str s3"
        and strs: "ser_strings (bb_buffer (ss_bb s3)) (snd (haclog_bytes_buffer_get (ss_bb s3) w_str (ss_proc s3))) st = Some m2"
        and f4: "HACLOG_FETCH_W HACLOG_CACHE_INTERVAL (c_int (w_str + ?x))
          (s3\<lparr>ss_proc := ?p3, ss_bb := (ss_bb s3)\<lparr>bb_buffer := m2\<rparr>\<rparr>) = Returned s'"
      note st4 = stage_fetch [OF st3 f3 x0, simplified]
      have bb3: "ss_bb s3 = (rg_bb g)\<lparr>bb_buffer := m1\<rparr>" using st4(1) by (simp add: at_stage_def)
      have put: "put_slots mem_write m1 (nat w_str) (concat (map str_slots (as_cache st))) = Some m2"
        by (rule strings_stored [OF _ P(4) st4(2), of m1 ?cap]) (use strs st4(2) in \<open>simp add: bb3 get_part\<close>)
      note lens = cache_slots [OF cs(1), unfolded cs(2)]
      have "at_stage g (s3\<lparr>ss_proc := ?p3, ss_bb := (ss_bb s3)\<lparr>bb_buffer := m2\<rparr>\<rparr>) [128]
          [(w_hdr, 48), (w_const, ?ps), (w_str, ?x)] (w_str + ?x) m2"
        by (rule stage_write [OF st4(1) put, where pos = w_str and n = ?x]) (use st4 lens in auto)
      moreover have "c_int (w_str + ?x) = w_str + ?x" using st4 x0 cap by (simp add: c_int_id)
      ultimately show ?thesis using stage_gives_up [OF _ _ idle] f4 by (simp add: CACHE_INTERVAL_eq) blast
    qed
  qed
qed

end
