(* ===== verification/Haclog_Pipeline.thy ===== *)
theory Haclog_Pipeline
  imports Haclog_Log Haclog_Reject
begin

text \<open>
  A thread that logs and a backend that writes to a file, joined by the ring: every call of the
  serializer and every round of \<open>haclog_consume\<close> in any order. The file always holds the lines of the
  statements consumed so far, in the order they were logged, and a call of \<open>haclog_consume\<close> returns
  and leaves none behind.
\<close>

section \<open>Statements and their lines\<close>

text \<open>A logged statement: its primitive, where that lies, the arguments and the clock's value.\<close>

record stmt =
  sm_ptr :: int
  sm_prim :: printf_primitive
  sm_args :: "carg list"
  sm_ts :: "int \<times> int"

definition sm_level :: "stmt \<Rightarrow> int" where
  "sm_level e = loc_level (pr_loc (sm_prim e))"

definition sm_meta :: "int \<Rightarrow> stmt \<Rightarrow> meta_info" where
  "sm_meta tid e = \<lparr>mi_loc = pr_loc (sm_prim e), mi_tid = tid, mi_ts = (c_s64 (fst (sm_ts e)), c_s64 (snd (sm_ts e)))\<rparr>"

text \<open>The text \<open>printf\<close> makes of the statement.\<close>

definition sm_text :: "expander \<Rightarrow> stmt \<Rightarrow> string" where
  "sm_text expand e =
     (case ref_convs (pr_specs (sm_prim e)) (sm_args e) of
        None \<Rightarrow> []
      | Some (vals, left) \<Rightarrow> message_text expand (pr_fmt (sm_prim e)) (pr_specs (sm_prim e)) vals 0)"

text \<open>The name in front of the line: the base name of the source file, in an array of 256 bytes.\<close>

definition sm_file :: "block \<Rightarrow> stmt \<Rightarrow> string option" where
  "sm_file junk e =
     (case haclog_path_basename (loc_file (pr_loc (sm_prim e))) junk 256 of
        None \<Rightarrow> None
      | Some (_, filename) \<Rightarrow> cstr_at filename 0)"

definition sm_head :: "(int \<Rightarrow> tm) \<Rightarrow> block \<Rightarrow> int \<Rightarrow> stmt \<Rightarrow> string" where
  "sm_head gm junk tid e = c_format None meta_format (meta_args gm (the (sm_file junk e)) (sm_meta tid e))"

text \<open>
  A line of the file: the head, the text and a newline. A text that fills the message buffer or does
  not fit is cut to the buffer's size, and its last character is unspecified.
\<close>

definition line_of :: "expander \<Rightarrow> (int \<Rightarrow> tm) \<Rightarrow> block \<Rightarrow> int \<Rightarrow> int \<Rightarrow> stmt \<Rightarrow> string \<Rightarrow> bool" where
  "line_of expand gm junk tid bufsize e line \<longleftrightarrow>
     (\<exists>body. line = sm_head gm junk tid e @ body @ [CHR 0x0A] \<and>
        length body = min (length (sm_text expand e)) (nat (bufsize - 1)) \<and>
        take (length body - 1) body = take (length body - 1) (sm_text expand e) \<and>
        (int (length (sm_text expand e)) + 1 < bufsize \<longrightarrow> body = sm_text expand e))"

text \<open>What is fixed while the program runs.\<close>

record config =
  se_expand :: expander
  se_prims :: "int \<rightharpoonup> printf_primitive"
  se_bufsize :: int
  se_tid :: int
  se_gm :: "int \<Rightarrow> tm"
  se_junk :: block
  se_level :: int

definition config_ok :: "config \<Rightarrow> bool" where
  "config_ok c \<longleftrightarrow> expander_ok (se_expand c) \<and> 1 \<le> se_bufsize c \<and> se_bufsize c \<le> 2147483647"

text \<open>
  A statement as the macros make it: a generated primitive of a format shorter than 65536 characters
  with supported conversions, stored where its pointer says, arguments the serializer accepts, and a
  head that leaves the length of the line an \<open>int\<close>.
\<close>

definition stmt_ok :: "config \<Rightarrow> stmt \<Rightarrow> bool" where
  "stmt_ok c e \<longleftrightarrow>
     (\<exists>a1 a2 fmt loc p p'. haclog_printf_primitive_gen a1 a2 fmt loc p = (p', Some (sm_prim e)) \<and>
        length fmt < 65536 \<and> printable (pr_specs (sm_prim e))) \<and>
     se_prims c (c_u64 (sm_ptr e)) = Some (sm_prim e) \<and> args_ok (sm_args e) \<and>
     sm_file (se_junk c) e \<noteq> None \<and>
     int (length (sm_head (se_gm c) (se_junk c) (se_tid c) e)) + se_bufsize c < 2147483648"

lemma stmt_ok_primitive:
  assumes "stmt_ok c e"
  shows "primitive_ok (sm_prim e)" "prim_printable (sm_prim e)"
  using assms unfolding stmt_ok_def prim_printable_def
  by (blast elim: gen_primitive)+

section \<open>The system\<close>

record 'h sys =
  sy_bb :: bytes_buffer
  sy_r :: int
  sy_proc :: proc
  sy_w :: int
  sy_backend :: "'h backend"
  sy_logged :: "stmt list"
  sy_printed :: nat

definition log_state :: "'h sys \<Rightarrow> nat \<Rightarrow> ser_state" where
  "log_state s k = \<lparr>ss_bb = sy_bb s, ss_r = sy_r s, ss_loads = replicate k (bb_r (sy_bb s)), ss_proc = sy_proc s\<rparr>"

text \<open>
  A statement is serialized; a call returns early because a part of its record is too large for the
  ring; \<open>haclog_consume\<close> starts and loads the writer position; its loop goes round once. Waiting for
  room is any number k of loads of the reader position.
\<close>

inductive sys_step :: "config \<Rightarrow> 'h sys \<Rightarrow> 'h sys \<Rightarrow> bool" for c where
  sys_log:
    "stmt_ok c e \<Longrightarrow>
     haclog_printf_primitive_serialize (sm_ptr e) (sm_prim e) (sm_args e) (sm_ts e) (log_state s k) = Continue () t \<Longrightarrow>
     sys_step c s (s\<lparr>sy_bb := ss_bb t, sy_r := ss_r t, sy_proc := ss_proc t, sy_logged := sy_logged s @ [e]\<rparr>)"
| sys_drop:
    "stmt_ok c e \<Longrightarrow>
     haclog_printf_primitive_serialize (sm_ptr e) (sm_prim e) (sm_args e) (sm_ts e) (log_state s k) = Returned t \<Longrightarrow>
     sys_step c s (s\<lparr>sy_bb := ss_bb t, sy_r := ss_r t, sy_proc := ss_proc t\<rparr>)"
| sys_load:
    "sys_step c s (s\<lparr>sy_w := bb_w (sy_bb s)\<rparr>)"
| sys_round:
    "consume_round (se_expand c) (se_prims c) (se_bufsize c) (se_tid c) (sy_w s) (sy_bb s) (sy_backend s) =
       Some (again, b, bk) \<Longrightarrow>
     sys_step c s (s\<lparr>sy_bb := b, sy_backend := bk, sy_printed := sy_printed s + (if again then 1 else 0)\<rparr>)"

text \<open>One file handler, and the state of it and of the file.\<close>

definition file_handlers :: "config \<Rightarrow> file_handler \<Rightarrow> file_handler handlers" where
  "file_handlers c st =
     [(haclog_handler_set_level (file_ops (se_gm c) (se_junk c)) (se_level c), st)]"

definition file_backend :: "config \<Rightarrow> string \<Rightarrow> string \<Rightarrow> file_handler backend \<Rightarrow> bool" where
  "file_backend c path tx bk \<longleftrightarrow>
     (\<exists>st. bk_handlers bk = file_handlers c st \<and> file_ready st (bk_world bk) \<and>
        fp_path (fh_fp st) = path \<and> file_text path (bk_world bk) = tx) \<and>
     int (length (bk_buf bk)) = se_bufsize c"

definition sys_start :: "config \<Rightarrow> string \<Rightarrow> string \<Rightarrow> file_handler sys \<Rightarrow> bool" where
  "sys_start c path tx s \<longleftrightarrow>
     (\<exists>blk cap. 256 \<le> cap \<and> cap < 2147483648 \<and> int (length blk) = cap \<and>
        sy_bb s = \<lparr>bb_buffer = blk, bb_capacity = cap, bb_w = 0, bb_r = 0\<rparr>) \<and>
     sy_r s = 0 \<and> sy_w s = 0 \<and> sy_logged s = [] \<and> sy_printed s = 0 \<and>
     file_backend c path tx (sy_backend s)"

text \<open>What is written of the statements: those whose level the handler lets pass.\<close>

definition written :: "config \<Rightarrow> stmt list \<Rightarrow> string \<Rightarrow> bool" where
  "written c es tx \<longleftrightarrow>
     (\<exists>lines. list_all2 (line_of (se_expand c) (se_gm c) (se_junk c) (se_tid c) (se_bufsize c))
        (filter (\<lambda>e. se_level c \<le> sm_level e) es) lines \<and> tx = concat lines)"

text \<open>The ring holds the statements that are logged and not consumed.\<close>

definition pending_ok :: "config \<Rightarrow> ring \<Rightarrow> stmt list \<Rightarrow> bool" where
  "pending_ok c g es \<longleftrightarrow>
     list_all2 (\<lambda>msg e. \<exists>vals left. ref_convs (pr_specs (sm_prim e)) (sm_args e) = Some (vals, left) \<and>
        carries (rg_cap g) msg (sm_ptr e) (sm_prim e) (sm_ts e) vals) (rg_queue g) es"

definition sys_ring :: "config \<Rightarrow> 'h sys \<Rightarrow> ring \<Rightarrow> bool" where
  "sys_ring c s g \<longleftrightarrow>
     ring_inv g \<and> rg_bb g = sy_bb s \<and> rg_known_r g = sy_r s \<and> rg_snap g = sy_w s \<and>
     rg_writer g = Writer_Idle \<and> pending_ok c g (drop (sy_printed s) (sy_logged s))"

definition sys_inv :: "config \<Rightarrow> string \<Rightarrow> string \<Rightarrow> file_handler sys \<Rightarrow> bool" where
  "sys_inv c path tx0 s \<longleftrightarrow>
     (\<exists>g. sys_ring c s g) \<and> sy_printed s \<le> length (sy_logged s) \<and> (\<forall>e\<in>set (sy_logged s). stmt_ok c e) \<and>
     (\<exists>tx. file_backend c path (tx0 @ tx) (sy_backend s) \<and> written c (take (sy_printed s) (sy_logged s)) tx)"

section \<open>One step\<close>

lemma ring_steps_inv: "ring_steps g g' \<Longrightarrow> ring_inv g \<Longrightarrow> ring_inv g'"
  by (induction rule: rtranclp_induct) (blast intro: ring_step_inv)+

lemma log_ring:
  assumes g: "sys_ring c s g" and e: "stmt_ok c e" and le: "sy_printed s \<le> length (sy_logged s)"
    and ser: "haclog_printf_primitive_serialize (sm_ptr e) (sm_prim e) (sm_args e) (sm_ts e) (log_state s k) = Continue () t"
  shows "\<exists>g'. sys_ring c (s\<lparr>sy_bb := ss_bb t, sy_r := ss_r t, sy_proc := ss_proc t, sy_logged := sy_logged s @ [e]\<rparr>) g'"
proof -
  have s: "ss_bb (log_state s k) = rg_bb g" "ss_r (log_state s k) = rg_known_r g"
    "set (ss_loads (log_state s k)) \<subseteq> {bb_r (rg_bb g)}"
    using g by (auto simp: sys_ring_def log_state_def)
  have inv: "ring_inv g" and idle: "rg_writer g = Writer_Idle" using g by (simp_all add: sys_ring_def)
  have args: "args_ok (sm_args e)" using e by (simp add: stmt_ok_def)
  obtain msg vals left where run: "ring_steps g (g\<lparr>rg_known_r := ss_r t, rg_bb := ss_bb t,
      rg_queue := rg_queue g @ [msg], rg_published := rg_published g @ [msg]\<rparr>)"
    and vals: "ref_convs (pr_specs (sm_prim e)) (sm_args e) = Some (vals, left)"
    and car: "carries (rg_cap g) msg (sm_ptr e) (sm_prim e) (sm_ts e) vals"
    and cap: "bb_capacity (ss_bb t) = rg_cap g"
    by (rule serialize_run [OF ser inv idle stmt_ok_primitive(1) [OF e] args s])
  show ?thesis
    by (rule exI, unfold sys_ring_def, intro conjI, rule ring_steps_inv [OF run inv])
      (use g vals car cap le in \<open>auto simp: sys_ring_def pending_ok_def intro!: list_all2_appendI\<close>)
qed

lemma drop_ring:
  assumes g: "sys_ring c s g" and e: "stmt_ok c e"
    and ser: "haclog_printf_primitive_serialize (sm_ptr e) (sm_prim e) (sm_args e) (sm_ts e) (log_state s k) = Returned t"
  shows "\<exists>g'. sys_ring c (s\<lparr>sy_bb := ss_bb t, sy_r := ss_r t, sy_proc := ss_proc t\<rparr>) g'"
proof -
  have s: "ss_bb (log_state s k) = rg_bb g" "ss_r (log_state s k) = rg_known_r g"
    "set (ss_loads (log_state s k)) \<subseteq> {bb_r (rg_bb g)}"
    using g by (auto simp: sys_ring_def log_state_def)
  have inv: "ring_inv g" and idle: "rg_writer g = Writer_Idle" using g by (simp_all add: sys_ring_def)
  have args: "args_ok (sm_args e)" using e by (simp add: stmt_ok_def)
  from serialize_gives_up [OF ser inv idle stmt_ok_primitive(1) [OF e] args s] obtain m where
    m: "ss_bb t = (rg_bb g)\<lparr>bb_buffer := m\<rparr>"
    and run: "ring_steps g (g\<lparr>rg_known_r := ss_r t, rg_bb := ss_bb t\<rparr>)"
    by (auto simp: given_up_def)
  show ?thesis
    by (rule exI, unfold sys_ring_def, intro conjI, rule ring_steps_inv [OF run inv])
      (use g m in \<open>auto simp: sys_ring_def pending_ok_def\<close>)
qed

lemma handler_write_level: "haclog_handler_write (haclog_handler_set_level h l) = haclog_handler_write h"
  by (simp add: fun_eq_iff haclog_handler_write_def haclog_handler_set_level_def Let_def
      cong: option.case_cong prod.case_cong if_cong)

text \<open>What a round prints of a statement reaches the file as its line, or is filtered.\<close>

lemma write_statement:
  assumes bk: "bk_handlers bk = file_handlers c st" "file_ready st (bk_world bk)" "fp_path (fh_fp st) = path"
    and e: "stmt_ok c e" and cfg: "config_ok c"
    and printed: "printed_as (sm_text (se_expand c) e) (se_bufsize c) buf n"
  obtains st' w' where
    "write_handlers (sm_meta (se_tid c) e) buf n (bk_handlers bk) (bk_world bk) = Some (file_handlers c st', w')"
    "file_ready st' w'" "fp_path (fh_fp st') = path"
    "\<exists>new. file_text path w' = file_text path (bk_world bk) @ new \<and> written c [e] new"
proof (cases "se_level c \<le> sm_level e")
  case False
  then have "write_handlers (sm_meta (se_tid c) e) buf n (bk_handlers bk) (bk_world bk) =
      Some (file_handlers c st, bk_world bk)"
    by (simp add: bk file_handlers_def haclog_handler_should_write_def haclog_handler_set_level_def sm_level_def sm_meta_def)
  with that bk show ?thesis using False by (auto simp: written_def)
next
  case True
  let ?h = "file_ops (se_gm c) (se_junk c)" and ?m = "sm_meta (se_tid c) e"
  let ?head = "sm_head (se_gm c) (se_junk c) (se_tid c) e"
  obtain name err filename where name: "haclog_path_basename (loc_file (mi_loc ?m)) (se_junk c) 256 = Some (err, filename)"
    "cstr_at filename 0 = Some name" "the (sm_file (se_junk c) e) = name"
    using e by (auto simp: stmt_ok_def sm_file_def sm_meta_def split: option.splits prod.splits)
  have out: "int (length buf) = se_bufsize c" "n = int (min (length (sm_text (se_expand c) e)) (nat (se_bufsize c - 1)))"
    "take (nat n - 1) buf = take (nat n - 1) (sm_text (se_expand c) e)"
    "int (length (sm_text (se_expand c) e)) + 1 < se_bufsize c \<longrightarrow> take (nat n) buf = sm_text (se_expand c) e"
    using printed unfolding printed_as_def by blast+
  have n: "0 \<le> n" "n \<le> int (length buf)" "n < se_bufsize c"
    using out cfg by (auto simp: config_ok_def)
  have fits: "int (length ?head) + n < 2147483648" using e n by (simp add: stmt_ok_def)
  have head: "?head = c_format None meta_format (meta_args (se_gm c) name ?m)"
    by (simp add: sm_head_def name(3))
  obtain st1 w1 st' w' where w: "haclog_handler_write ?h ?m buf n st (bk_world bk) = Some (int (length ?head) + n, st', w')"
    "file_ready st' w'" "fp_path (fh_fp st') = path" "fp_path (fh_fp st1) = path"
    "file_out ?m st1 w' = file_out ?m st (bk_world bk) @ [] @ ?head @ take (nat n) buf @ [CHR 0x0A]"
    using file_sink.write_line [of st "bk_world bk" "se_gm c" "se_junk c" "se_gm c" "se_junk c" ?m err filename name n buf ?head]
      bk name n head fits by (auto simp: file_ops_def)
  let ?new = "?head @ take (nat n) buf @ [CHR 0x0A]"
  have "write_handlers ?m buf n (bk_handlers bk) (bk_world bk) = Some (file_handlers c st', w')"
    using True w(1) by (simp add: bk file_handlers_def haclog_handler_should_write_def
        handler_write_level sm_level_def sm_meta_def) (simp add: haclog_handler_set_level_def)
  moreover have "file_text path w' = file_text path (bk_world bk) @ ?new"
    using w(4,5) bk(3) by (simp add: file_out_def)
  moreover have "line_of (se_expand c) (se_gm c) (se_junk c) (se_tid c) (se_bufsize c) e ?new"
    unfolding line_of_def using out n by (intro exI [of _ "take (nat n) buf"]) (auto simp: min_def)
  then have "written c [e] ?new" using True by (auto simp: written_def)
  ultimately show ?thesis using that w(2,3) by blast
qed

lemma written_append: "written c es tx \<Longrightarrow> written c [e] new \<Longrightarrow> written c (es @ [e]) (tx @ new)"
  unfolding written_def by (elim exE conjE, rule exI, rule conjI, unfold filter_append, erule (1) list_all2_appendI) simp

text \<open>
  A round with a record in front of the reader consumes the oldest statement that is pending; one at
  the loaded writer position breaks out of the loop.
\<close>

lemma round_consumes:
  assumes inv: "sys_inv c path tx0 s" and cfg: "config_ok c" and ne: "bb_r (sy_bb s) \<noteq> sy_w s"
  obtains b bk where
    "consume_round (se_expand c) (se_prims c) (se_bufsize c) (se_tid c) (sy_w s) (sy_bb s) (sy_backend s) = Some (True, b, bk)"
    "sys_inv c path tx0 (s\<lparr>sy_bb := b, sy_backend := bk, sy_printed := sy_printed s + 1\<rparr>)"
    "sy_printed s < length (sy_logged s)" "bb_w b = bb_w (sy_bb s)"
proof -
  from inv obtain g tx where g: "sys_ring c s g" and ok: "\<forall>e\<in>set (sy_logged s). stmt_ok c e"
    and bk: "file_backend c path (tx0 @ tx) (sy_backend s)" and wr: "written c (take (sy_printed s) (sy_logged s)) tx"
    by (auto simp: sys_inv_def)
  have ring: "ring_inv g" and bb: "rg_bb g = sy_bb s" and snap: "rg_snap g = sy_w s"
    and pend: "pending_ok c g (drop (sy_printed s) (sy_logged s))"
    using g by (simp_all add: sys_ring_def)
  have ne': "bb_r (rg_bb g) \<noteq> rg_snap g" using ne bb snap by simp
  obtain msg ms where q: "rg_queue g = msg # ms" by (rule reader_has_record [OF ring ne'])
  then obtain e es vals left where es: "drop (sy_printed s) (sy_logged s) = e # es"
    and vals: "ref_convs (pr_specs (sm_prim e)) (sm_args e) = Some (vals, left)"
    and car: "carries (rg_cap g) msg (sm_ptr e) (sm_prim e) (sm_ts e) vals"
    and rest: "list_all2 (\<lambda>msg e. \<exists>vals left. ref_convs (pr_specs (sm_prim e)) (sm_args e) = Some (vals, left) \<and>
        carries (rg_cap g) msg (sm_ptr e) (sm_prim e) (sm_ts e) vals) ms es"
    using pend by (auto simp: pending_ok_def list_all2_Cons1)
  have more: "sy_printed s < length (sy_logged s)" using es by (metis drop_all list.distinct(1) not_le)
  have nth: "sy_logged s ! sy_printed s = e" "drop (Suc (sy_printed s)) (sy_logged s) = es"
    using es by (metis nth_via_drop, metis drop_Suc list.sel(3) tl_drop)
  have e: "stmt_ok c e" using ok nth(1) more nth_mem by blast
  obtain st where st: "bk_handlers (sy_backend s) = file_handlers c st" "file_ready st (bk_world (sy_backend s))"
    "fp_path (fh_fp st) = path" "file_text path (bk_world (sy_backend s)) = tx0 @ tx"
    and buf: "int (length (bk_buf (sy_backend s))) = se_bufsize c"
    using bk by (auto simp: file_backend_def)
  have prim: "se_prims c (c_u64 (sm_ptr e)) = Some (sm_prim e)" using e by (simp add: stmt_ok_def)
  have expand: "expander_ok (se_expand c)" and size: "1 \<le> se_bufsize c" "se_bufsize c \<le> 2147483647"
    using cfg by (simp_all add: config_ok_def)
  have text_eq: "sm_text (se_expand c) e = message_text (se_expand c) (pr_fmt (sm_prim e)) (pr_specs (sm_prim e)) vals 0"
    using vals by (simp add: sm_text_def)
  obtain res where res:
    "haclog_printf_primitive_format (se_expand c) (se_prims c) (sy_bb s) (sy_w s) (bk_buf (sy_backend s)) (se_bufsize c)
       (bk_proc (sy_backend s)) = Some res"
    "printed_as (sm_text (se_expand c) e) (se_bufsize c) (fr_buf res) (fr_ret res)"
    "fr_meta res = Some (pr_loc (sm_prim e), c_s64 (fst (sm_ts e)), c_s64 (snd (sm_ts e)))"
    "ring_steps g (g\<lparr>rg_bb := fr_bb res, rg_queue := ms, rg_consumed := rg_consumed g @ [msg]\<rparr>)"
    "fr_bb res = (rg_bb g)\<lparr>bb_r := wrap_pos (rg_cap g) (m_end msg)\<rparr>"
    unfolding bb [symmetric] snap [symmetric] text_eq
    by (rule format_run [where prims = "se_prims c", OF ring ne' q car prim stmt_ok_primitive(2) [OF e] buf size expand])
  obtain st' w' new where out:
    "write_handlers (sm_meta (se_tid c) e) (fr_buf res) (fr_ret res) (bk_handlers (sy_backend s)) (bk_world (sy_backend s)) =
       Some (file_handlers c st', w')" "file_ready st' w'" "fp_path (fh_fp st') = path"
    "file_text path w' = (tx0 @ tx) @ new" "written c [e] new"
    using write_statement [OF st(1-3) e cfg res(2)] st(4) by metis
  let ?bk = "(sy_backend s)\<lparr>bk_buf := fr_buf res, bk_proc := fr_proc res, bk_handlers := file_handlers c st', bk_world := w'\<rparr>"
  have ret: "\<not> fr_ret res < 0" and buf': "int (length (fr_buf res)) = se_bufsize c"
    using res(2) by (simp_all add: printed_as_def)
  have round: "consume_round (se_expand c) (se_prims c) (se_bufsize c) (se_tid c) (sy_w s) (sy_bb s) (sy_backend s) =
      Some (True, fr_bb res, ?bk)"
    using res(1,3) ret out(1) by (simp add: consume_round_def sm_meta_def Let_def)
  let ?s = "s\<lparr>sy_bb := fr_bb res, sy_backend := ?bk, sy_printed := sy_printed s + 1\<rparr>"
  let ?g = "g\<lparr>rg_bb := fr_bb res, rg_queue := ms, rg_consumed := rg_consumed g @ [msg]\<rparr>"
  have inv': "ring_inv ?g" by (rule ring_steps_inv [OF res(4) ring])
  have bb': "bb_capacity (fr_bb res) = rg_cap g" "bb_w (fr_bb res) = bb_w (sy_bb s)"
    using res(5) bb by simp_all
  have "sys_ring c ?s ?g"
    using g inv' rest nth(2) bb' unfolding sys_ring_def pending_ok_def by simp
  moreover have "file_backend c path (tx0 @ (tx @ new)) ?bk"
    unfolding file_backend_def using out(2-4) buf' by (intro conjI exI [of _ st']) simp_all
  moreover have "written c (take (sy_printed s + 1) (sy_logged s)) (tx @ new)"
    using written_append [OF wr out(5)] more nth(1) by (simp add: take_Suc_conv_app_nth)
  ultimately have "sys_inv c path tx0 ?s" unfolding sys_inv_def using more ok by auto
  from that [OF round this more bb'(2)] show ?thesis .
qed

lemma round_breaks:
  "1 \<le> se_bufsize c \<Longrightarrow> bb_r (sy_bb s) = sy_w s \<Longrightarrow>
   consume_round (se_expand c) (se_prims c) (se_bufsize c) (se_tid c) (sy_w s) (sy_bb s) (sy_backend s) =
     Some (False, sy_bb s, sy_backend s)"
  by (simp add: consume_round_def haclog_printf_primitive_format_def Let_def)

lemma sys_load_inv: "sys_inv c path tx0 s \<Longrightarrow> sys_inv c path tx0 (s\<lparr>sy_w := bb_w (sy_bb s)\<rparr>)"
  unfolding sys_inv_def sys_ring_def pending_ok_def using inv_snapshot by force

lemma sys_step_inv:
  assumes "sys_step c s t" and inv: "sys_inv c path tx0 s" and cfg: "config_ok c"
  shows "sys_inv c path tx0 t"
  using assms(1)
proof cases
  case (sys_log e k u)
  from inv obtain g where "sys_ring c s g" "sy_printed s \<le> length (sy_logged s)" by (auto simp: sys_inv_def)
  from log_ring [OF this(1) sys_log(2) this(2) sys_log(3)] inv sys_log(1,2) show ?thesis
    by (auto simp: sys_inv_def)
next
  case (sys_drop e k u)
  from inv obtain g where "sys_ring c s g" by (auto simp: sys_inv_def)
  from drop_ring [OF this sys_drop(2,3)] inv sys_drop(1) show ?thesis by (auto simp: sys_inv_def)
next
  case sys_load
  with sys_load_inv [OF inv] show ?thesis by simp
next
  case (sys_round again b bk)
  show ?thesis
  proof (cases "bb_r (sy_bb s) = sy_w s")
    case True
    with round_breaks [of c s] cfg sys_round inv show ?thesis by (simp add: config_ok_def)
  next
    case False
    from round_consumes [OF inv cfg False] sys_round show ?thesis by fastforce
  qed
qed

lemma sys_start_inv: "sys_start c path tx0 s \<Longrightarrow> sys_inv c path tx0 s"
proof -
  assume s: "sys_start c path tx0 s"
  then obtain blk cap where b: "256 \<le> cap" "cap < 2147483648" "int (length blk) = cap"
    "sy_bb s = \<lparr>bb_buffer = blk, bb_capacity = cap, bb_w = 0, bb_r = 0\<rparr>" by (auto simp: sys_start_def)
  have "sys_ring c s (ring_init blk cap)"
    using ring_init_inv [OF b(1-3)] s b(4) by (simp add: sys_ring_def ring_init_def sys_start_def pending_ok_def)
  moreover have "written c [] []" by (simp add: written_def)
  ultimately show ?thesis using s unfolding sys_inv_def sys_start_def by (auto intro!: exI [of _ "[]"])
qed

interpretation pipeline: invariant_system "\<lambda>s. sys_start c path tx0 s \<and> config_ok c" "sys_step c" "\<lambda>s. sys_inv c path tx0 s \<and> config_ok c"
  by unfold_locales (blast intro: sys_start_inv sys_step_inv)+

section \<open>The loop ends and leaves nothing behind\<close>

lemma queue_length_span:
  "queue_ok cap r q w \<Longrightarrow> 0 \<le> r \<Longrightarrow> r < cap \<Longrightarrow> 256 \<le> cap \<Longrightarrow> int (length q) \<le> queue_span cap r q"
proof (induction q arbitrary: r)
  case (Cons m ms)
  then show ?case
    using msg_ok_dist_pos [of cap r m] wrap_pos_range [of "m_end m" cap] by (force simp: msg_ok_def)
qed simp

lemma sys_pending:
  assumes "sys_inv c path tx0 s"
  shows "bb_r (sy_bb s) = bb_w (sy_bb s) \<longleftrightarrow> sy_printed s = length (sy_logged s)"
    "length (sy_logged s) - sy_printed s < 2147483648" "sy_printed s \<le> length (sy_logged s)"
proof -
  from assms obtain g where ring: "ring_inv g" and bb: "rg_bb g = sy_bb s"
    and pend: "pending_ok c g (drop (sy_printed s) (sy_logged s))" and le: "sy_printed s \<le> length (sy_logged s)"
    by (auto simp: sys_inv_def sys_ring_def)
  note facts = ring_inv_facts [OF ring] and q = ring_inv_parts(2,3) [OF ring]
  have len: "length (rg_queue g) = length (sy_logged s) - sy_printed s"
    using pend by (auto simp: pending_ok_def dest: list_all2_lengthD)
  have "bb_r (sy_bb s) = bb_w (sy_bb s) \<longleftrightarrow> rg_queue g = []"
    using queue_empty_iff [OF q] facts bb by simp
  also have "\<dots> \<longleftrightarrow> sy_printed s = length (sy_logged s)" using len le by auto
  finally show "bb_r (sy_bb s) = bb_w (sy_bb s) \<longleftrightarrow> sy_printed s = length (sy_logged s)" .
  have "int (length (rg_queue g)) < 2147483648"
    using queue_length_span [OF q(1)] q(2) facts ring by (auto simp: ring_inv_def bb_wf_def)
  then show "length (sy_logged s) - sy_printed s < 2147483648" unfolding len by linarith
  show "sy_printed s \<le> length (sy_logged s)" by (rule le)
qed

lemma consume_loop_all:
  assumes "sys_inv c path tx0 s" "config_ok c" "sy_w s = bb_w (sy_bb s)"
    and "0 \<le> n" "n + int (length (sy_logged s) - sy_printed s) < 2147483648"
  shows "\<exists>b bk. consume_loop (se_expand c) (se_prims c) (se_bufsize c) (se_tid c) (sy_w s) n (sy_bb s) (sy_backend s) =
      Some (n + int (length (sy_logged s) - sy_printed s), b, bk) \<and>
    sys_inv c path tx0 (s\<lparr>sy_bb := b, sy_backend := bk, sy_printed := length (sy_logged s)\<rparr>)"
  using assms
proof (induction "length (sy_logged s) - sy_printed s" arbitrary: s n)
  case 0
  then have all: "sy_printed s = length (sy_logged s)" using sys_pending(3) [OF "0.prems"(1)] by simp
  then have "bb_r (sy_bb s) = sy_w s" using sys_pending(1) [OF "0.prems"(1)] "0.prems"(3) by simp
  with round_breaks [of c s] "0.prems"(2) have "consume_loop (se_expand c) (se_prims c) (se_bufsize c) (se_tid c) (sy_w s) n
      (sy_bb s) (sy_backend s) = Some (n, sy_bb s, sy_backend s)"
    by (simp add: config_ok_def consume_loop.simps)
  moreover have "sys_inv c path tx0 (s\<lparr>sy_bb := sy_bb s, sy_backend := sy_backend s, sy_printed := length (sy_logged s)\<rparr>)"
    using "0.prems"(1) all by (cases s) simp
  ultimately show ?case using all by (intro exI [of _ "sy_bb s"] exI [of _ "sy_backend s"]) simp
next
  case (Suc k)
  then have ne: "bb_r (sy_bb s) \<noteq> sy_w s" using sys_pending(1) [OF "Suc.prems"(1)] by auto
  obtain b bk where round: "consume_round (se_expand c) (se_prims c) (se_bufsize c) (se_tid c) (sy_w s) (sy_bb s) (sy_backend s) =
      Some (True, b, bk)"
    and inv: "sys_inv c path tx0 (s\<lparr>sy_bb := b, sy_backend := bk, sy_printed := sy_printed s + 1\<rparr>)"
    and w: "bb_w b = bb_w (sy_bb s)"
    by (rule round_consumes [OF "Suc.prems"(1,2) ne])
  let ?s = "s\<lparr>sy_bb := b, sy_backend := bk, sy_printed := sy_printed s + 1\<rparr>"
  have cnt: "c_int (n + 1) = n + 1" using "Suc.prems"(4,5) Suc.hyps(2) by (intro c_int_id) simp_all
  have "\<exists>b' bk'. consume_loop (se_expand c) (se_prims c) (se_bufsize c) (se_tid c) (sy_w ?s) (n + 1) (sy_bb ?s) (sy_backend ?s) =
      Some (n + 1 + int (length (sy_logged ?s) - sy_printed ?s), b', bk') \<and>
    sys_inv c path tx0 (?s\<lparr>sy_bb := b', sy_backend := bk', sy_printed := length (sy_logged ?s)\<rparr>)"
    by (rule Suc.hyps(1) [OF _ inv "Suc.prems"(2)]) (use Suc.hyps(2) "Suc.prems"(3-5) w in auto)
  then obtain b' bk' where rest: "consume_loop (se_expand c) (se_prims c) (se_bufsize c) (se_tid c) (sy_w s) (n + 1) b bk =
      Some (n + 1 + int k, b', bk')"
    "sys_inv c path tx0 (s\<lparr>sy_bb := b', sy_backend := bk', sy_printed := length (sy_logged s)\<rparr>)"
    using Suc.hyps(2) by (auto simp: algebra_simps)
  have "consume_loop (se_expand c) (se_prims c) (se_bufsize c) (se_tid c) (sy_w s) n (sy_bb s) (sy_backend s) =
      Some (n + int (Suc k), b', bk')"
    using round rest(1) cnt by (simp add: consume_loop.simps [of _ _ _ _ _ n])
  with rest(2) Suc.hyps(2) show ?case by auto
qed

lemma consume_call:
  assumes inv: "sys_inv c path tx0 s" and cfg: "config_ok c"
  obtains b bk tx where
    "haclog_consume (se_expand c) (se_prims c) (se_bufsize c) (se_tid c) (sy_bb s) (sy_backend s) =
       Some (int (length (sy_logged s) - sy_printed s), b, bk)"
    "bb_r b = bb_w (sy_bb s)" "bb_r b = bb_w b" "file_backend c path (tx0 @ tx) bk" "written c (sy_logged s) tx"
proof -
  let ?s = "s\<lparr>sy_w := bb_w (sy_bb s)\<rparr>"
  from consume_loop_all [OF sys_load_inv [OF inv] cfg, of 0] sys_pending(2) [OF inv] obtain b bk where
    loop: "consume_loop (se_expand c) (se_prims c) (se_bufsize c) (se_tid c) (bb_w (sy_bb s)) 0 (sy_bb s) (sy_backend s) =
      Some (int (length (sy_logged s) - sy_printed s), b, bk)"
    and inv': "sys_inv c path tx0 (?s\<lparr>sy_bb := b, sy_backend := bk, sy_printed := length (sy_logged s)\<rparr>)"
    by auto
  from inv' obtain g where g: "ring_inv g" "rg_bb g = b" "rg_snap g = bb_w (sy_bb s)" "rg_queue g = []"
    by (auto simp: sys_inv_def sys_ring_def pending_ok_def)
  have "bb_r b = bb_w (sy_bb s)" using ring_inv_parts(4) [OF g(1)] g by simp
  moreover have "bb_r b = bb_w b" using sys_pending(1) [OF inv'] by simp
  moreover obtain tx where "file_backend c path (tx0 @ tx) bk" "written c (sy_logged s) tx"
    using inv' by (auto simp: sys_inv_def)
  ultimately show ?thesis using that loop by (simp add: haclog_consume_def)
qed

section \<open>A sample run\<close>

definition demo_stmt :: stmt where
  "demo_stmt = \<lparr>sm_ptr = 7, sm_prim = demo_prim\<lparr>pr_loc := mi_loc (demo_meta 768)\<rparr>, sm_args = [C_int 42], sm_ts = (0, 5)\<rparr>"

definition demo_config :: config where
  "demo_config = \<lparr>se_expand = demo_expand, se_prims = [7 \<mapsto> sm_prim demo_stmt], se_bufsize = 16, se_tid = 9,
     se_gm = demo_gmtime, se_junk = replicate 256 NUL, se_level = HACLOG_LEVEL_INFO\<rparr>"

definition demo_pipe :: "file_handler sys" where
  "demo_pipe = \<lparr>sy_bb = ss_bb demo_state, sy_r = 0, sy_proc = ss_proc demo_state, sy_w = 0,
     sy_backend = \<lparr>bk_buf = replicate 16 NUL,
       bk_handlers = file_handlers demo_config \<lparr>fh_fp = Some (F_file ''/log'' True True 0)\<rparr>,
       bk_world = demo_sys\<lparr>w_files := [''/log'' \<mapsto> ''old;'']\<rparr>, bk_proc = ss_proc demo_state\<rparr>,
     sy_logged = [], sy_printed = 0\<rparr>"

lemma demo_stmt_gen:
  "haclog_printf_primitive_gen (Some ()) (Some ()) ''n=%d;'' (Some (mi_loc (demo_meta 768)))
     \<lparr>last_err = HACLOG_ERR_OK, live_blocks = 0\<rparr> =
   (\<lparr>last_err = HACLOG_ERR_OK, live_blocks = 2\<rparr>, Some (sm_prim demo_stmt))"
  by (simp add: primitive_gen_cases haclog_printf_num_params_def num_params_conv_def
      haclog_printf_spec_fillup_def spec_fillup_conv_def spec_zero_def param_size_eq
      spec_dynamics_def printf_eval demo_prim_def demo_stmt_def)

lemma demo_start: "sys_start demo_config ''/log'' ''old;'' demo_pipe \<and> config_ok demo_config"
  by (simp add: sys_start_def demo_pipe_def demo_state_def config_ok_def demo_config_def file_backend_def
      file_handlers_def file_ready_def appends_def fp_path_def file_text_def no_faults_def demo_sys_def
      expander_ok_def demo_expand_def, blast)

lemma demo_pipe_reachable:
  "run_of (\<lambda>s. sys_start demo_config ''/log'' ''old;'' s \<and> config_ok demo_config) (sys_step demo_config) demo_pipe"
  by (rule run_start) (rule demo_start)

lemma demo_stmt_head:
  "sm_file (replicate 256 NUL) demo_stmt = Some ''a.c''"
  "sm_head demo_gmtime (replicate 256 NUL) 9 demo_stmt = ''WARNING|1970-01-01T00:00:00.000000005|a.c:7|f|9 - ''"
proof -
  obtain buf where "haclog_path_basename (loc_file (mi_loc (demo_meta 768))) (replicate 256 NUL) 256 =
      Some (HACLOG_ERR_OK, buf)" "cstr_at buf 0 = Some ''a.c''" using demo_name by blast
  then show name: "sm_file (replicate 256 NUL) demo_stmt = Some ''a.c''"
    by (simp add: sm_file_def demo_stmt_def)
  have "sm_meta 9 demo_stmt = demo_meta 768"
    by (simp add: sm_meta_def demo_stmt_def demo_meta_def c_s64_def)
  with name demo_line show "sm_head demo_gmtime (replicate 256 NUL) 9 demo_stmt =
      ''WARNING|1970-01-01T00:00:00.000000005|a.c:7|f|9 - ''"
    by (simp add: sm_head_def)
qed

lemma demo_stmt_ok: "stmt_ok demo_config demo_stmt"
proof -
  have "printable (pr_specs (sm_prim demo_stmt))" "args_ok (sm_args demo_stmt)"
    by (simp_all add: demo_stmt_def demo_prim_def printable_def num_strs_def is_str_spec_def HACLOG_MAX_STR_CACHE_def
        args_ok_def)
  moreover have "length ''n=%d;'' < 65536" by simp
  moreover have "se_prims demo_config (c_u64 (sm_ptr demo_stmt)) = Some (sm_prim demo_stmt)"
    by (simp add: demo_config_def demo_stmt_def c_u64_id)
  moreover have "sm_file (se_junk demo_config) demo_stmt \<noteq> None"
    "int (length (sm_head (se_gm demo_config) (se_junk demo_config) (se_tid demo_config) demo_stmt)) + se_bufsize demo_config < 2147483648"
    by (simp_all add: demo_config_def demo_stmt_head)
  ultimately show ?thesis unfolding stmt_ok_def using demo_stmt_gen by blast
qed

lemma demo_stmt_serialize:
  "\<exists>t. haclog_printf_primitive_serialize (sm_ptr demo_stmt) (sm_prim demo_stmt) (sm_args demo_stmt) (sm_ts demo_stmt)
     (log_state demo_pipe 0) = Continue () t"
  by (rule continues_unit) code_simp

definition demo_text :: string where
  "demo_text = ''WARNING|1970-01-01T00:00:00.000000005|a.c:7|f|9 - n=42;'' @ [CHR 0x0A]"

lemma demo_written: "written demo_config [demo_stmt] tx \<Longrightarrow> tx = demo_text"
proof -
  have "sm_text demo_expand demo_stmt = ''n=42;''"
    by (simp add: sm_text_def demo_stmt_def demo_prim_def ref_conv_def ref_dynamic_def HACLOG_PRINTF_SPEC_DYNAMIC_def
        ser_value_def c_int_id demo_expand_def numeral_2_eq_2 numeral_eq_Suc)
  moreover have "se_level demo_config \<le> sm_level demo_stmt"
    by (simp add: demo_config_def sm_level_def demo_stmt_def demo_meta_def level_defs)
  moreover assume "written demo_config [demo_stmt] tx"
  ultimately show ?thesis
    by (auto simp: written_def line_of_def demo_config_def demo_stmt_head demo_text_def list_all2_Cons1)
qed

lemma demo_logged:
  obtains t where "sys_step demo_config demo_pipe t" "sy_logged t = [demo_stmt]" "sy_printed t = 0"
  using demo_stmt_serialize sys_log [OF demo_stmt_ok] that
  by (fastforce simp: demo_pipe_def)

lemma demo_consumed:
  obtains s where "(sys_step demo_config)\<^sup>*\<^sup>* demo_pipe s" "sy_logged s = [demo_stmt]" "sy_printed s = 1"
proof -
  obtain t where t: "sys_step demo_config demo_pipe t" "sy_logged t = [demo_stmt]" "sy_printed t = 0"
    by (rule demo_logged)
  let ?t = "t\<lparr>sy_w := bb_w (sy_bb t)\<rparr>"
  have inv: "sys_inv demo_config ''/log'' ''old;'' ?t" and cfg: "config_ok demo_config"
    using pipeline.run_inv [OF run_step [OF run_step [OF demo_pipe_reachable t(1)] sys_load]] by auto
  have "bb_r (sy_bb ?t) \<noteq> sy_w ?t" using sys_pending(1) [OF inv] t by simp
  from round_consumes [OF inv cfg this] obtain b bk where round: "consume_round (se_expand demo_config) (se_prims demo_config)
    (se_bufsize demo_config) (se_tid demo_config) (sy_w ?t) (sy_bb ?t) (sy_backend ?t) = Some (True, b, bk)" by blast
  let ?s = "?t\<lparr>sy_bb := b, sy_backend := bk, sy_printed := sy_printed ?t + (if True then 1 else 0)\<rparr>"
  assume that: "\<And>s. (sys_step demo_config)\<^sup>*\<^sup>* demo_pipe s \<Longrightarrow> sy_logged s = [demo_stmt] \<Longrightarrow> sy_printed s = 1 \<Longrightarrow> thesis"
  from t(1) have "(sys_step demo_config)\<^sup>*\<^sup>* demo_pipe t" by simp
  also have "sys_step demo_config t ?t" by (rule sys_load)
  also have "sys_step demo_config ?t ?s" by (rule sys_round) (rule round)
  finally have "(sys_step demo_config)\<^sup>*\<^sup>* demo_pipe ?s" .
  then show thesis by (rule that) (use t in simp_all)
qed

section \<open>Properties\<close>

abbreviation sys_reachable :: "config \<Rightarrow> string \<Rightarrow> string \<Rightarrow> file_handler sys \<Rightarrow> bool" where
  "sys_reachable c path tx0 \<equiv> run_of (\<lambda>s. sys_start c path tx0 s \<and> config_ok c) (sys_step c)"

text \<open>
  At every moment of every run, with the calls of the logging thread and the rounds of the
  backend in any order, the file holds what it held before, followed by the lines of the statements
  consumed so far whose level the handler lets pass: a prefix of the logged statements, in the order
  they were logged, nothing lost, doubled or torn.
\<close>

theorem file_holds_prefix:
  assumes "sys_reachable c path tx0 s"
  shows "sy_printed s \<le> length (sy_logged s) \<and>
    (\<exists>tx. written c (take (sy_printed s) (sy_logged s)) tx \<and>
       file_text path (bk_world (sy_backend s)) = tx0 @ tx)"
  using pipeline.run_inv [OF assms] by (auto simp: sys_inv_def file_backend_def)

theorem file_holds_prefix_witness:
  "\<exists>s :: file_handler sys. sy_logged s = [demo_stmt] \<and> sy_printed s = 1 \<and>
     file_text ''/log'' (bk_world (sy_backend s)) = ''old;'' @ demo_text"
proof -
  obtain s where s: "(sys_step demo_config)\<^sup>*\<^sup>* demo_pipe s" "sy_logged s = [demo_stmt]" "sy_printed s = 1"
    by (rule demo_consumed)
  have run: "sys_reachable demo_config ''/log'' ''old;'' s"
    using s(1) demo_pipe_reachable by (induction rule: rtranclp_induct) (blast intro: run_step)+
  from file_holds_prefix [OF run] s(2,3) obtain tx where "written demo_config [demo_stmt] tx"
    "file_text ''/log'' (bk_world (sy_backend s)) = ''old;'' @ tx" by auto
  with s(2,3) demo_written show ?thesis by (intro exI [of _ s]) simp
qed

text \<open>
  \<open>haclog_consume\<close> ends, whatever was logged: called in any state of the run it returns the number of
  statements that were pending, the reader has caught up with the writer, and every statement logged
  so far is in the file.
\<close>

theorem consume_delivers_all:
  assumes "sys_reachable c path tx0 s"
  shows "\<exists>b bk tx. haclog_consume (se_expand c) (se_prims c) (se_bufsize c) (se_tid c) (sy_bb s) (sy_backend s) =
      Some (int (length (sy_logged s) - sy_printed s), b, bk) \<and>
    bb_r b = bb_w b \<and> written c (sy_logged s) tx \<and> file_text path (bk_world bk) = tx0 @ tx"
proof -
  have inv: "sys_inv c path tx0 s" and cfg: "config_ok c" using pipeline.run_inv [OF assms] by auto
  show ?thesis by (rule consume_call [OF inv cfg]) (auto simp: file_backend_def)
qed

theorem consume_delivers_all_witness:
  "\<exists>(t :: file_handler sys) b bk. sy_logged t = [demo_stmt] \<and>
     haclog_consume demo_expand [7 \<mapsto> sm_prim demo_stmt] 16 9 (sy_bb t) (sy_backend t) = Some (1, b, bk) \<and>
     file_text ''/log'' (bk_world bk) = ''old;'' @ demo_text"
proof -
  obtain t where t: "sys_step demo_config demo_pipe t" "sy_logged t = [demo_stmt]" "sy_printed t = 0"
    by (rule demo_logged)
  from consume_delivers_all [OF run_step [OF demo_pipe_reachable t(1)]] obtain b bk tx where
    c: "haclog_consume (se_expand demo_config) (se_prims demo_config) (se_bufsize demo_config) (se_tid demo_config)
       (sy_bb t) (sy_backend t) = Some (int (length (sy_logged t) - sy_printed t), b, bk)"
    "written demo_config (sy_logged t) tx" "file_text ''/log'' (bk_world bk) = ''old;'' @ tx" by blast
  have "tx = demo_text" by (rule demo_written) (use c(2) t(2) in simp)
  with c(1,3) t(2,3) show ?thesis
    by (intro exI [of _ t] exI [of _ b] exI [of _ bk]) (simp add: demo_config_def)
qed

end
