(* ===== verification/Haclog_Context.thy ===== *)
theory Haclog_Context
  imports Haclog_Handler
begin

text \<open>
  The process-wide context of \<open>haclog_context.c\<close>: its table of handlers, its level and its settings,
  what of it the log macros and the backend's start use, and the switch of \<open>haclog_thread_context.c\<close>
  that lets a thread register on its first log. Handlers are the caller's objects: the table holds
  their addresses, and their levels can change after they were added.
\<close>

section \<open>The context\<close>

definition HACLOG_DEFAULT_BYTES_BUF_SIZE :: int where
  "HACLOG_DEFAULT_BYTES_BUF_SIZE = 1024 * 1024"

definition HACLOG_DEFAULT_MSG_BUF_SIZE :: int where
  "HACLOG_DEFAULT_MSG_BUF_SIZE = 2048"

text \<open>The lists of thread contexts and the lock are in \<open>Haclog_Registry\<close>. NULL is \<open>None\<close>.\<close>

record 'cb haclog_context =
  cx_n_handler :: nat
  cx_level :: int
  cx_handlers :: "nat option list"
  cx_bytes_buf_size :: int
  cx_msg_buf_size :: int
  cx_before_run_cb :: "'cb option"

text \<open>\<open>haclog_context_get\<close>: the static object as it is initialised.\<close>

definition haclog_context_static :: "'cb haclog_context" where
  "haclog_context_static =
     \<lparr>cx_n_handler = 0, cx_level = HACLOG_LEVEL_FATAL, cx_handlers = replicate 8 None,
      cx_bytes_buf_size = HACLOG_DEFAULT_BYTES_BUF_SIZE, cx_msg_buf_size = HACLOG_DEFAULT_MSG_BUF_SIZE,
      cx_before_run_cb = None\<rparr>"

text \<open>The handlers in memory.\<close>

type_synonym 'h store = "nat \<Rightarrow> 'h haclog_handler"

definition haclog_context_add_handler ::
  "nat \<Rightarrow> 'h store \<Rightarrow> 'cb haclog_context \<Rightarrow> haclog_error \<times> 'cb haclog_context" where
  "haclog_context_add_handler handler hs ctx =
     (if cx_n_handler ctx = length (cx_handlers ctx) then (HACLOG_ERR_ALLOC_MEM, ctx)
      else
        (let ctx = ctx\<lparr>cx_handlers := (cx_handlers ctx)[cx_n_handler ctx := Some handler],
                       cx_n_handler := cx_n_handler ctx + 1\<rparr>
         in (HACLOG_ERR_OK,
             if hd_level (hs handler) < cx_level ctx then ctx\<lparr>cx_level := hd_level (hs handler)\<rparr> else ctx)))"

definition haclog_context_set_bytes_buf_size :: "int \<Rightarrow> 'cb haclog_context \<Rightarrow> 'cb haclog_context" where
  "haclog_context_set_bytes_buf_size bufsize ctx =
     (let bufsize = (if bufsize < HACLOG_DEFAULT_BYTES_BUF_SIZE then HACLOG_DEFAULT_BYTES_BUF_SIZE else bufsize)
      in ctx\<lparr>cx_bytes_buf_size := bufsize\<rparr>)"

definition haclog_context_get_bytes_buf_size :: "'cb haclog_context \<Rightarrow> int" where
  "haclog_context_get_bytes_buf_size ctx = cx_bytes_buf_size ctx"

definition haclog_context_set_msg_buf_size :: "int \<Rightarrow> 'cb haclog_context \<Rightarrow> 'cb haclog_context" where
  "haclog_context_set_msg_buf_size bufsize ctx = ctx\<lparr>cx_msg_buf_size := bufsize\<rparr>"

definition haclog_context_set_before_run_cb :: "'cb option \<Rightarrow> 'cb haclog_context \<Rightarrow> 'cb haclog_context" where
  "haclog_context_set_before_run_cb fn ctx = ctx\<lparr>cx_before_run_cb := fn\<rparr>"

section \<open>What uses it\<close>

text \<open>
  The start of the backend thread: the callback, then a message buffer of at least 8 bytes. \<open>alloc\<close> is
  what \<open>malloc\<close> gives for a size; without a buffer the thread ends.
\<close>

definition backend_start ::
  "('cb \<Rightarrow> 'w \<Rightarrow> 'w) \<Rightarrow> (int \<Rightarrow> block option) \<Rightarrow> 'cb haclog_context \<Rightarrow> 'w \<Rightarrow> (block \<times> int) option \<times> 'w" where
  "backend_start call alloc ctx w =
     (let w = (case cx_before_run_cb ctx of None \<Rightarrow> w | Some cb \<Rightarrow> call cb w);
          bufsize = cx_msg_buf_size ctx;
          bufsize = (if bufsize < 8 then 8 else bufsize)
      in (map_option (\<lambda>buf. (buf, bufsize)) (alloc bufsize), w))"

text \<open>
  \<open>haclog_thread_context_get\<close> on the thread's own pointer, the switch, and \<open>init\<close>, which is
  \<open>haclog_thread_context_init\<close>.
\<close>

definition haclog_thread_context_auto_init_flag :: int where
  "haclog_thread_context_auto_init_flag = 1"

definition haclog_thread_context_set_auto_init :: "int \<Rightarrow> int \<Rightarrow> int" where
  "haclog_thread_context_set_auto_init flag p = flag"

definition haclog_thread_context_get ::
  "('s \<Rightarrow> 'c option \<times> 's) \<Rightarrow> int \<Rightarrow> 'c option \<Rightarrow> 's \<Rightarrow> 'c option \<times> 's" where
  "haclog_thread_context_get init flag th_ctx s =
     (if th_ctx = None then (if flag \<noteq> 0 then init s else (None, s)) else (th_ctx, s))"

text \<open>\<open>HACLOG_LOG_DEFAULT\<close> up to the serialization of the statement, \<open>log\<close>.\<close>

definition HACLOG_LOG_DEFAULT ::
  "('s \<Rightarrow> 'c option \<times> 's) \<Rightarrow> ('c \<Rightarrow> 's \<Rightarrow> 's) \<Rightarrow> int \<Rightarrow> 'c option \<Rightarrow> 'cb haclog_context \<Rightarrow> int \<Rightarrow> 's \<Rightarrow> 's" where
  "HACLOG_LOG_DEFAULT init log flag th_ctx ctx lvl s =
     (case haclog_thread_context_get init flag th_ctx s of
        (None, s) \<Rightarrow> s
      | (Some th, s) \<Rightarrow> if cx_level ctx \<le> lvl then log th s else s)"

section \<open>The level of the context\<close>

text \<open>What a program does with its handlers: adds one, or sets the level of one.\<close>

datatype handler_op =
    Op_Add nat
  | Op_Set_Level nat int

fun run_ops :: "handler_op list \<Rightarrow> 'h store \<Rightarrow> 'cb haclog_context \<Rightarrow> 'h store \<times> 'cb haclog_context" where
  "run_ops [] hs ctx = (hs, ctx)"
| "run_ops (Op_Add p # ops) hs ctx = run_ops ops hs (snd (haclog_context_add_handler p hs ctx))"
| "run_ops (Op_Set_Level p l # ops) hs ctx = run_ops ops (hs(p := haclog_handler_set_level (hs p) l)) ctx"

text \<open>No handler's level is set after it was added (A: those added so far).\<close>

fun levels_first :: "nat set \<Rightarrow> handler_op list \<Rightarrow> bool" where
  "levels_first A [] = True"
| "levels_first A (Op_Add p # ops) = levels_first (insert p A) ops"
| "levels_first A (Op_Set_Level p l # ops) = (p \<notin> A \<and> levels_first A ops)"

text \<open>The handlers the backend's loop visits.\<close>

definition cx_active :: "'cb haclog_context \<Rightarrow> nat list" where
  "cx_active ctx = map the (take (cx_n_handler ctx) (cx_handlers ctx))"

definition cx_inv :: "'h store \<Rightarrow> 'cb haclog_context \<Rightarrow> bool" where
  "cx_inv hs ctx \<longleftrightarrow>
     length (cx_handlers ctx) = 8 \<and> cx_n_handler ctx \<le> 8 \<and>
     cx_level ctx = Min (insert HACLOG_LEVEL_FATAL (hd_level ` hs ` set (cx_active ctx)))"

lemma cx_static_inv: "cx_inv hs haclog_context_static"
  by (simp add: cx_inv_def haclog_context_static_def cx_active_def)

lemma add_handler_active:
  assumes "cx_inv hs ctx"
  shows "cx_inv hs (snd (haclog_context_add_handler p hs ctx))"
    "cx_active (snd (haclog_context_add_handler p hs ctx)) =
       (if cx_n_handler ctx = 8 then cx_active ctx else cx_active ctx @ [p])"
proof -
  have len: "length (cx_handlers ctx) = 8" "cx_n_handler ctx \<le> 8" using assms by (simp_all add: cx_inv_def)
  show act: "cx_active (snd (haclog_context_add_handler p hs ctx)) =
       (if cx_n_handler ctx = 8 then cx_active ctx else cx_active ctx @ [p])"
    using len by (simp add: haclog_context_add_handler_def cx_active_def Let_def take_Suc_conv_app_nth)
  show "cx_inv hs (snd (haclog_context_add_handler p hs ctx))"
  proof (cases "cx_n_handler ctx = 8")
    case True
    then show ?thesis using assms len by (simp add: haclog_context_add_handler_def)
  next
    case False
    have "cx_level (snd (haclog_context_add_handler p hs ctx)) = min (hd_level (hs p)) (cx_level ctx)"
      using False len by (simp add: haclog_context_add_handler_def Let_def min_def)
    moreover have "Min (insert HACLOG_LEVEL_FATAL (hd_level ` hs ` set (cx_active ctx @ [p]))) =
        min (hd_level (hs p)) (Min (insert HACLOG_LEVEL_FATAL (hd_level ` hs ` set (cx_active ctx))))"
      by (simp add: insert_commute [of HACLOG_LEVEL_FATAL] del: Min_insert) simp
    ultimately show ?thesis using assms len False act
      by (simp add: cx_inv_def) (simp add: haclog_context_add_handler_def Let_def)
  qed
qed

lemma set_level_inv:
  assumes inv: "cx_inv hs ctx" and p: "p \<notin> set (cx_active ctx)"
  shows "cx_inv (hs(p := haclog_handler_set_level (hs p) l)) ctx"
proof -
  have eq: "(hs(p := haclog_handler_set_level (hs p) l)) ` set (cx_active ctx) = hs ` set (cx_active ctx)"
    by (rule image_cong [OF refl]) (use p in auto)
  show ?thesis using inv unfolding cx_inv_def eq .
qed

lemma run_ops_inv:
  "run_ops ops hs ctx = (hs', ctx') \<Longrightarrow> cx_inv hs ctx \<Longrightarrow> levels_first A ops \<Longrightarrow> set (cx_active ctx) \<subseteq> A \<Longrightarrow>
   cx_inv hs' ctx'"
proof (induction ops hs ctx arbitrary: A rule: run_ops.induct)
  case (2 p ops hs ctx)
  show ?case
    by (rule "2.IH" [where A = "insert p A"]) (use "2.prems" add_handler_active [OF "2.prems"(2)] in \<open>auto split: if_splits\<close>)
next
  case (3 p l ops hs ctx)
  show ?case
    by (rule "3.IH" [where A = A], rule "3.prems"(1) [unfolded run_ops.simps], rule set_level_inv [OF "3.prems"(2)])
      (use "3.prems"(3,4) in auto)
qed auto

section \<open>Properties\<close>

text \<open>
  C37: The level test of the log macros loses no statement a handler wants and lets through none that
  nobody wants, other than FATAL: when each handler's level is set before it is added, and whatever
  handlers are added and refused, a statement below FATAL passes the test exactly when one of the
  handlers in the table should write it.
\<close>

theorem level_filter_exact:
  assumes "run_ops ops hs haclog_context_static = (hs', ctx')" "levels_first {} ops"
  shows "cx_level ctx' \<le> lvl \<longleftrightarrow>
    HACLOG_LEVEL_FATAL \<le> lvl \<or> (\<exists>p\<in>set (cx_active ctx'). haclog_handler_should_write (hs' p) lvl \<noteq> 0)"
proof -
  have "set (cx_active (haclog_context_static :: 'b haclog_context)) \<subseteq> {}"
    by (simp add: cx_active_def haclog_context_static_def)
  from run_ops_inv [OF assms(1) cx_static_inv assms(2) this]
  have "cx_level ctx' = Min (insert HACLOG_LEVEL_FATAL (hd_level ` hs' ` set (cx_active ctx')))"
    by (simp add: cx_inv_def)
  then show ?thesis
    by (simp add: haclog_handler_should_write_def Min_le_iff not_less)
qed

definition demo_store :: "unit store" where
  "demo_store p = \<lparr>hd_before_write = \<lambda>m st w. None, hd_write_meta = \<lambda>v m st w. None, hd_write = \<lambda>m n st w. None,
     hd_writev = \<lambda>f a st w. None, hd_after_write = \<lambda>m st w. None, hd_destroy = Pair, hd_level = HACLOG_LEVEL_INFO\<rparr>"

theorem level_filter_exact_witness:
  "\<exists>hs (ctx :: unit haclog_context).
     run_ops [Op_Set_Level 1 HACLOG_LEVEL_ERROR, Op_Add 1] demo_store haclog_context_static = (hs, ctx) \<and>
     cx_level ctx \<le> HACLOG_LEVEL_ERROR \<and> \<not> cx_level ctx \<le> HACLOG_LEVEL_WARNING"
proof -
  let ?ops = "[Op_Set_Level 1 HACLOG_LEVEL_ERROR, Op_Add 1]"
  obtain hs and ctx :: "unit haclog_context" where r: "run_ops ?ops demo_store haclog_context_static = (hs, ctx)"
    by fastforce
  then have hs: "hd_level (hs 1) = HACLOG_LEVEL_ERROR" and ctx: "ctx = snd (haclog_context_add_handler 1 hs haclog_context_static)"
    by (auto simp: haclog_handler_set_level_def)
  have "set (cx_active ctx) = {1}"
    unfolding ctx add_handler_active(2) [OF cx_static_inv] by (simp add: haclog_context_static_def cx_active_def)
  with hs level_filter_exact [OF r, of HACLOG_LEVEL_ERROR] level_filter_exact [OF r, of HACLOG_LEVEL_WARNING]
  have "cx_level ctx \<le> HACLOG_LEVEL_ERROR" "\<not> cx_level ctx \<le> HACLOG_LEVEL_WARNING"
    by (simp_all add: haclog_handler_should_write_def level_defs)
  with r show ?thesis by blast
qed

text \<open>
  C39: A level lowered after the handler was added stays without effect: the context keeps the level
  it took when the handler was added, so the macros drop statements that the handler itself says it
  should write.
\<close>

theorem late_level_dropped:
  assumes "run_ops (Op_Add p # Op_Set_Level p l # []) hs haclog_context_static = (hs', ctx')"
    and "l \<le> lvl" "lvl < hd_level (hs p)" "lvl < HACLOG_LEVEL_FATAL"
  shows "haclog_handler_should_write (hs' p) lvl = 1 \<and>
    HACLOG_LOG_DEFAULT init log flag (Some th) ctx' lvl s = s"
  using assms by (auto simp: haclog_context_add_handler_def haclog_context_static_def Let_def
      haclog_handler_should_write_def haclog_handler_set_level_def HACLOG_LOG_DEFAULT_def
      haclog_thread_context_get_def split: if_splits)

theorem late_level_dropped_witness:
  "\<exists>hs (ctx :: unit haclog_context).
     run_ops [Op_Add 1, Op_Set_Level 1 HACLOG_LEVEL_TRACE] demo_store haclog_context_static = (hs, ctx) \<and>
     HACLOG_LOG_DEFAULT (Pair None) (\<lambda>th n. n + 1) 1 (Some ()) ctx HACLOG_LEVEL_DEBUG (0 :: nat) = 0"
proof -
  obtain hs and ctx :: "unit haclog_context" where
    r: "run_ops [Op_Add 1, Op_Set_Level 1 HACLOG_LEVEL_TRACE] demo_store haclog_context_static = (hs, ctx)"
    by fastforce
  have lv: "HACLOG_LEVEL_TRACE \<le> HACLOG_LEVEL_DEBUG" "HACLOG_LEVEL_DEBUG < hd_level (demo_store 1)"
    "HACLOG_LEVEL_DEBUG < HACLOG_LEVEL_FATAL" by (simp_all add: level_defs demo_store_def)
  show ?thesis
    by (rule exI [of _ hs], rule exI [of _ ctx], rule conjI [OF r], rule conjunct2 [OF late_level_dropped [OF r lv]])
qed

end
