(* ===== verification/Haclog_Once.thy ===== *)
theory Haclog_Once
  imports Haclog_Spinlock Haclog_Primitive
begin

text \<open>
  The macro \<open>HACLOG_SERIALIZE\<close> of \<open>haclog_log.h\<close>: any number of threads at one log statement, whose
  primitive is made by the first of them under a double-checked lock. Reads and writes of the static
  \<open>primitive\<close> are single steps.
\<close>

section \<open>State and steps\<close>

text \<open>
  Where a thread is in the macro: outside, at the first test, at the lock, at the second test, making
  the primitive, at the unlock, and at the call of the serializer.
\<close>

datatype site_pc =
    S_Out
  | S_Test
  | S_Lock
  | S_Check
  | S_Gen
  | S_Unlock
  | S_Serialize

text \<open>
  The two static variables, and as ghost state the primitives made, the threads whose attempt failed,
  and what each call of the serializer was given. A primitive is its address with its contents.
\<close>

record site =
  si_primitive :: "(int \<times> printf_primitive) option"
  si_spinlock :: bool
  si_pc :: "nat \<Rightarrow> site_pc"
  si_made :: "(int \<times> printf_primitive) list"
  si_failed :: "nat set"
  si_passed :: "(nat \<times> (int \<times> printf_primitive) option) list"

definition site_start :: "site \<Rightarrow> bool" where
  "site_start s \<longleftrightarrow> s = \<lparr>si_primitive = None, si_spinlock = HACLOG_SPINLOCK_STATUS_UNLOCK, si_pc = (\<lambda>t. S_Out),
     si_made = [], si_failed = {}, si_passed = []\<rparr>"

abbreviation at_pc :: "nat \<Rightarrow> site_pc \<Rightarrow> site \<Rightarrow> site" where
  "at_pc t pc s \<equiv> s\<lparr>si_pc := (si_pc s)(t := pc)\<rparr>"

inductive site_step :: "string \<Rightarrow> printf_loc \<Rightarrow> site \<Rightarrow> site \<Rightarrow> bool" for fmt loc where
  site_enter:
    "si_pc s t = S_Out \<Longrightarrow> site_step fmt loc s (at_pc t S_Test s)"
| site_test:
    "si_pc s t = S_Test \<Longrightarrow>
     site_step fmt loc s (at_pc t (if si_primitive s = None then S_Lock else S_Serialize) s)"
| site_lock:
    "si_pc s t = S_Lock \<Longrightarrow> haclog_atomic_test_and_set (si_spinlock s) = (b, free) \<Longrightarrow>
     site_step fmt loc s (at_pc t (if free then S_Check else S_Lock) (s\<lparr>si_spinlock := b\<rparr>))"
| site_check:
    "si_pc s t = S_Check \<Longrightarrow>
     site_step fmt loc s (at_pc t (if si_primitive s = None then S_Gen else S_Unlock) s)"
| site_gen:
    "si_pc s t = S_Gen \<Longrightarrow> haclog_printf_primitive_gen a1 a2 fmt (Some loc) p = (p', Some prim) \<Longrightarrow>
     site_step fmt loc s (at_pc t S_Unlock (s\<lparr>si_primitive := Some (ptr, prim), si_made := si_made s @ [(ptr, prim)]\<rparr>))"
| site_gen_fails:
    "si_pc s t = S_Gen \<Longrightarrow> haclog_printf_primitive_gen a1 a2 fmt (Some loc) p = (p', None) \<Longrightarrow>
     site_step fmt loc s (at_pc t S_Unlock (s\<lparr>si_primitive := None, si_failed := insert t (si_failed s)\<rparr>))"
| site_unlock:
    "si_pc s t = S_Unlock \<Longrightarrow>
     site_step fmt loc s (at_pc t S_Serialize (s\<lparr>si_spinlock := haclog_spinlock_unlock (si_spinlock s)\<rparr>))"
| site_serialize:
    "si_pc s t = S_Serialize \<Longrightarrow>
     site_step fmt loc s (at_pc t S_Out (s\<lparr>si_passed := si_passed s @ [(t, si_primitive s)]\<rparr>))"

section \<open>The lock\<close>

definition site_inside :: "site \<Rightarrow> nat \<Rightarrow> bool" where
  "site_inside s t \<longleftrightarrow> si_pc s t \<in> {S_Check, S_Gen, S_Unlock}"

lemma site_inside_upd:
  "site_inside (at_pc t pc s) = (site_inside s)(t := pc \<in> {S_Check, S_Gen, S_Unlock})"
  by (auto simp: site_inside_def fun_eq_iff)

interpretation site_lock: spinlock_user site_start "site_step fmt loc" si_spinlock site_inside
proof unfold_locales
  fix s s' :: site
  show "site_start s \<Longrightarrow> \<not> si_spinlock s \<and> (\<forall>t. \<not> site_inside s t)"
    by (simp add: site_start_def site_inside_def spinlock_defs)
  assume "site_step fmt loc s s'"
  then show "(si_spinlock s' = si_spinlock s \<and> site_inside s' = site_inside s) \<or>
      (\<exists>t. haclog_atomic_test_and_set (si_spinlock s) = (si_spinlock s', True) \<and> site_inside s' = (site_inside s)(t := True)) \<or>
      (\<exists>t. site_inside s t \<and> si_spinlock s' = haclog_spinlock_unlock (si_spinlock s) \<and> site_inside s' = (site_inside s)(t := False))"
  proof cases
    case (site_lock t b free)
    show ?thesis
    proof (cases free)
      case True
      with site_lock have "site_inside s' = (site_inside s)(t := True)" by (auto simp: site_inside_def fun_eq_iff)
      with True site_lock show ?thesis by auto
    next
      case False
      with site_lock show ?thesis by (auto simp: site_inside_def fun_eq_iff spinlock_defs)
    qed
  next
    case (site_unlock t)
    then have "site_inside s t" "site_inside s' = (site_inside s)(t := False)" by (auto simp: site_inside_def fun_eq_iff)
    with site_unlock show ?thesis by auto
  qed (auto simp: site_inside_def fun_eq_iff)
qed

section \<open>One primitive\<close>

definition site_inv :: "string \<Rightarrow> printf_loc \<Rightarrow> site \<Rightarrow> bool" where
  "site_inv fmt loc s \<longleftrightarrow>
     lock_inv (si_spinlock s) (site_inside s) \<and>
     si_made s = (case si_primitive s of None \<Rightarrow> [] | Some x \<Rightarrow> [x]) \<and>
     (\<forall>(ptr, prim)\<in>set (si_made s). pr_fmt prim = fmt \<and> pr_loc prim = loc) \<and>
     (\<forall>t. si_pc s t = S_Gen \<longrightarrow> si_primitive s = None) \<and>
     (\<forall>t. si_pc s t \<in> {S_Unlock, S_Serialize} \<longrightarrow> si_primitive s = None \<longrightarrow> t \<in> si_failed s) \<and>
     (\<forall>(t, x)\<in>set (si_passed s). if x = None then t \<in> si_failed s else x = si_primitive s)"

lemma gen_fmt_loc:
  "haclog_printf_primitive_gen a1 a2 fmt (Some loc) p = (p', Some prim) \<Longrightarrow> pr_fmt prim = fmt \<and> pr_loc prim = loc"
  by (cases "haclog_printf_num_params fmt") (auto simp: primitive_gen_cases split: if_splits)

lemma site_step_inv:
  assumes st: "site_step fmt loc s s'" and inv: "site_inv fmt loc s"
  shows "site_inv fmt loc s'"
proof -
  have lock: "lock_inv (si_spinlock s') (site_inside s')"
    using site_lock.lock_inv_step [OF _ st] inv by (simp add: site_inv_def)
  have excl: "si_pc s t = S_Gen \<Longrightarrow> si_pc s u = S_Gen \<Longrightarrow> t = u" for t u
    using inv by (auto simp: site_inv_def lock_inv_def site_inside_def)
  from st show ?thesis
  proof cases
    case (site_gen t a1 a2 p p' prim ptr)
    from inv site_gen(2) have none: "si_primitive s = None" "si_made s = []" by (auto simp: site_inv_def)
    with inv excl gen_fmt_loc [OF site_gen(3)] lock site_gen(1,2) show ?thesis
      by (auto simp: site_inv_def split: if_splits)
  next
    case (site_gen_fails t a1 a2 p p')
    with inv lock show ?thesis by (auto simp: site_inv_def split: if_splits)
  qed (use inv lock in \<open>auto simp: site_inv_def split: if_splits\<close>)
qed

interpretation site: invariant_system site_start "site_step fmt loc" "site_inv fmt loc"
proof unfold_locales
  show "site_start s \<Longrightarrow> site_inv fmt loc s" for s
    by (simp add: site_start_def site_inv_def lock_inv_def site_inside_def spinlock_defs)
  show "site_inv fmt loc s \<Longrightarrow> site_step fmt loc s s' \<Longrightarrow> site_inv fmt loc s'" for s s'
    by (rule site_step_inv)
qed

section \<open>Properties\<close>

text \<open>
  C38: However many threads meet at a log statement, its primitive is made at most once, from the
  statement's format and location, and every call of the serializer is given that one. A call is given
  NULL only in a thread whose own attempt to make the primitive failed.
\<close>

theorem primitive_once:
  assumes "run_of site_start (site_step fmt loc) s"
  shows "length (si_made s) \<le> 1 \<and>
    (\<forall>(t, x)\<in>set (si_passed s). case x of None \<Rightarrow> t \<in> si_failed s
       | Some (ptr, prim) \<Rightarrow> si_made s = [(ptr, prim)] \<and> pr_fmt prim = fmt \<and> pr_loc prim = loc)"
  using site.run_inv [OF assms] by (auto simp: site_inv_def split: option.splits if_splits)

text \<open>A site with two threads in it, 0 and 2.\<close>

definition two :: "(int \<times> printf_primitive) option \<Rightarrow> bool \<Rightarrow> site_pc \<Rightarrow> site_pc \<Rightarrow> (int \<times> printf_primitive) list \<Rightarrow>
    (nat \<times> (int \<times> printf_primitive) option) list \<Rightarrow> site" where
  "two x b p q made passed = \<lparr>si_primitive = x, si_spinlock = b, si_pc = (\<lambda>t. S_Out)(0 := p, 2 := q),
     si_made = made, si_failed = {}, si_passed = passed\<rparr>"

lemma two_simps:
  "si_primitive (two x b p q m ps) = x" "si_spinlock (two x b p q m ps) = b"
  "si_pc (two x b p q m ps) 0 = p" "si_pc (two x b p q m ps) 2 = q"
  "si_made (two x b p q m ps) = m" "si_passed (two x b p q m ps) = ps" "si_failed (two x b p q m ps) = {}"
  by (simp_all add: two_def)

lemma two_updates:
  "at_pc 0 p' (two x b p q m ps) = two x b p' q m ps" "at_pc 2 q' (two x b p q m ps) = two x b p q' m ps"
  "(two x b p q m ps)\<lparr>si_spinlock := b'\<rparr> = two x b' p q m ps"
  "(two x b p q m ps)\<lparr>si_primitive := x', si_made := m'\<rparr> = two x' b p q m' ps"
  "(two x b p q m ps)\<lparr>si_passed := ps'\<rparr> = two x b p q m ps'"
  by (simp_all add: two_def fun_eq_iff)

text \<open>Thread 0 makes the primitive of a format without conversions while thread 2 waits at the lock.\<close>

lemma site_demo_run:
  obtains s where "run_of site_start (site_step ''hi'' loc_zero) s" "map fst (si_passed s) = [0, 2]"
    "si_failed s = {}"
proof -
  obtain prim where gen: "haclog_printf_primitive_gen (Some ()) (Some ()) ''hi'' (Some loc_zero)
      \<lparr>last_err = HACLOG_ERR_OK, live_blocks = 0\<rparr> = (\<lparr>last_err = HACLOG_ERR_OK, live_blocks = 2\<rparr>, Some prim)"
    by (simp add: primitive_gen_cases haclog_printf_num_params_def haclog_printf_spec_fillup_def)
  have lock: "haclog_atomic_test_and_set False = (True, True)" "haclog_spinlock_unlock True = False"
    by (simp_all add: spinlock_defs)
  let ?R = "run_of site_start (site_step ''hi'' loc_zero)"
  let ?x = "(4096, prim)"
  note st = two_simps two_updates lock simp_thms if_True if_False option.distinct append.simps
  have r: "?R (two None False S_Out S_Out [] [])" by (rule run_start) (simp add: site_start_def two_def spinlock_defs fun_eq_iff)
  have r: "?R (two None False S_Test S_Out [] [])"
    by (rule run_step [OF r], insert site_enter [of "two None False S_Out S_Out [] []" 0 "''hi''" loc_zero], simp only: st)
  have r: "?R (two None False S_Test S_Test [] [])"
    by (rule run_step [OF r], insert site_enter [of "two None False S_Test S_Out [] []" 2 "''hi''" loc_zero], simp only: st)
  have r: "?R (two None False S_Lock S_Test [] [])"
    by (rule run_step [OF r], insert site_test [of "two None False S_Test S_Test [] []" 0 "''hi''" loc_zero], simp only: st)
  have r: "?R (two None False S_Lock S_Lock [] [])"
    by (rule run_step [OF r], insert site_test [of "two None False S_Lock S_Test [] []" 2 "''hi''" loc_zero], simp only: st)
  have r: "?R (two None True S_Check S_Lock [] [])"
    by (rule run_step [OF r], insert site_lock [of "two None False S_Lock S_Lock [] []" 0 True True "''hi''" loc_zero], simp only: st)
  have r: "?R (two None True S_Gen S_Lock [] [])"
    by (rule run_step [OF r], insert site_check [of "two None True S_Check S_Lock [] []" 0 "''hi''" loc_zero], simp only: st)
  have r: "?R (two (Some ?x) True S_Unlock S_Lock [?x] [])"
    by (rule run_step [OF r], insert site_gen [of "two None True S_Gen S_Lock [] []" 0, OF _ gen, of 4096], simp only: st)
  have r: "?R (two (Some ?x) False S_Serialize S_Lock [?x] [])"
    by (rule run_step [OF r], insert site_unlock [of "two (Some ?x) True S_Unlock S_Lock [?x] []" 0 "''hi''" loc_zero], simp only: st)
  have r: "?R (two (Some ?x) False S_Out S_Lock [?x] [(0, Some ?x)])"
    by (rule run_step [OF r], insert site_serialize [of "two (Some ?x) False S_Serialize S_Lock [?x] []" 0 "''hi''" loc_zero], simp only: st)
  have r: "?R (two (Some ?x) True S_Out S_Check [?x] [(0, Some ?x)])"
    by (rule run_step [OF r], insert site_lock [of "two (Some ?x) False S_Out S_Lock [?x] [(0, Some ?x)]" 2 True True "''hi''" loc_zero], simp only: st)
  have r: "?R (two (Some ?x) True S_Out S_Unlock [?x] [(0, Some ?x)])"
    by (rule run_step [OF r], insert site_check [of "two (Some ?x) True S_Out S_Check [?x] [(0, Some ?x)]" 2 "''hi''" loc_zero], simp only: st)
  have r: "?R (two (Some ?x) False S_Out S_Serialize [?x] [(0, Some ?x)])"
    by (rule run_step [OF r], insert site_unlock [of "two (Some ?x) True S_Out S_Unlock [?x] [(0, Some ?x)]" 2 "''hi''" loc_zero], simp only: st)
  have r: "?R (two (Some ?x) False S_Out S_Out [?x] [(0, Some ?x), (2, Some ?x)])"
    by (rule run_step [OF r], insert site_serialize [of "two (Some ?x) False S_Out S_Serialize [?x] [(0, Some ?x)]" 2 "''hi''" loc_zero], simp only: st)
  from that [OF r] show thesis by (simp add: two_simps)
qed

theorem primitive_once_witness:
  "\<exists>(s :: site) ptr prim. si_passed s = [(0, Some (ptr, prim)), (2, Some (ptr, prim))] \<and> si_failed s = {} \<and> pr_fmt prim = ''hi''"
proof -
  obtain s where s: "run_of site_start (site_step ''hi'' loc_zero) s" "map fst (si_passed s) = [0, 2]" "si_failed s = {}"
    by (rule site_demo_run)
  from s(2) obtain x y where xy: "si_passed s = [(0, x), (2, y)]" by (cases "si_passed s") auto
  from primitive_once [OF s(1)] xy s(3) obtain p q where "x = Some p" "y = Some q" "si_made s = [p]" "si_made s = [q]"
    "pr_fmt (snd p) = ''hi''" by (auto split: option.splits)
  with xy s(3) show ?thesis by (intro exI [of _ s] exI [of _ "fst p"] exI [of _ "snd p"]) simp
qed

end
