(* ===== verification/Haclog_Show.thy ===== *)
theory Haclog_Show
  imports Haclog_Printf_Spec Haclog_Stdio
begin

text \<open>
  \<open>haclog_printf_primitive_show\<close>, the debug dump of a printf primitive in \<open>haclog_vsprintf.c\<close>: each function
  is modelled by the text it writes to \<open>stdout\<close>, which takes it all.
\<close>

section \<open>The argument type of a conversion\<close>

definition haclog_spec_type_di_output :: "printf_spec \<Rightarrow> string" where
  "haclog_spec_type_di_output spec =
     (if sp_length spec = HACLOG_PRINTF_LENGTH_none then ''int''
      else if sp_length spec = HACLOG_PRINTF_LENGTH_hh then ''signed char''
      else if sp_length spec = HACLOG_PRINTF_LENGTH_h then ''short int''
      else if sp_length spec = HACLOG_PRINTF_LENGTH_l then ''long int''
      else if sp_length spec = HACLOG_PRINTF_LENGTH_ll then ''long long int''
      else if sp_length spec = HACLOG_PRINTF_LENGTH_j then ''intmax_t''
      else if sp_length spec = HACLOG_PRINTF_LENGTH_z then ''size_t''
      else if sp_length spec = HACLOG_PRINTF_LENGTH_t then ''ptrdiff_t''
      else [])"

definition haclog_spec_type_uoxX_output :: "printf_spec \<Rightarrow> string" where
  "haclog_spec_type_uoxX_output spec =
     (if sp_length spec = HACLOG_PRINTF_LENGTH_none then ''unsigned int''
      else if sp_length spec = HACLOG_PRINTF_LENGTH_hh then ''unsigned char ''
      else if sp_length spec = HACLOG_PRINTF_LENGTH_h then ''unsigned short int''
      else if sp_length spec = HACLOG_PRINTF_LENGTH_l then ''unsigned long int''
      else if sp_length spec = HACLOG_PRINTF_LENGTH_ll then ''unsigned long long int''
      else if sp_length spec = HACLOG_PRINTF_LENGTH_j then ''uintmax_t''
      else if sp_length spec = HACLOG_PRINTF_LENGTH_z then ''size_t''
      else if sp_length spec = HACLOG_PRINTF_LENGTH_t then ''ptrdiff_t''
      else [])"

definition haclog_spec_type_fFeEgGaA_output :: "printf_spec \<Rightarrow> string" where
  "haclog_spec_type_fFeEgGaA_output spec =
     (if sp_length spec = HACLOG_PRINTF_LENGTH_none then ''double''
      else if sp_length spec = HACLOG_PRINTF_LENGTH_L then ''long double''
      else [])"

definition haclog_spec_type_c_output :: "printf_spec \<Rightarrow> string" where
  "haclog_spec_type_c_output spec =
     (if sp_length spec = HACLOG_PRINTF_LENGTH_none then ''int''
      else if sp_length spec = HACLOG_PRINTF_LENGTH_l then ''wint_t''
      else [])"

definition haclog_spec_type_s_output :: "printf_spec \<Rightarrow> string" where
  "haclog_spec_type_s_output spec =
     (if sp_length spec = HACLOG_PRINTF_LENGTH_none then ''char*''
      else if sp_length spec = HACLOG_PRINTF_LENGTH_l then ''wchar_t*''
      else [])"

definition haclog_spec_type_p_output :: "printf_spec \<Rightarrow> string" where
  "haclog_spec_type_p_output spec =
     (if sp_length spec = HACLOG_PRINTF_LENGTH_none then ''void*''
      else [])"

definition haclog_spec_type_n_output :: "printf_spec \<Rightarrow> string" where
  "haclog_spec_type_n_output spec =
     (if sp_length spec = HACLOG_PRINTF_LENGTH_none then ''int*''
      else if sp_length spec = HACLOG_PRINTF_LENGTH_hh then ''signed char*''
      else if sp_length spec = HACLOG_PRINTF_LENGTH_h then ''short int*''
      else if sp_length spec = HACLOG_PRINTF_LENGTH_l then ''long int*''
      else if sp_length spec = HACLOG_PRINTF_LENGTH_ll then ''long long int*''
      else if sp_length spec = HACLOG_PRINTF_LENGTH_j then ''intmax_t*''
      else if sp_length spec = HACLOG_PRINTF_LENGTH_z then ''size_t*''
      else if sp_length spec = HACLOG_PRINTF_LENGTH_t then ''ptrdiff_t*''
      else [])"

definition haclog_spec_type_output :: "printf_spec \<Rightarrow> string" where
  "haclog_spec_type_output spec =
     (if sp_type spec \<in> set ''di'' then haclog_spec_type_di_output spec
      else if sp_type spec \<in> set ''uoxX'' then haclog_spec_type_uoxX_output spec
      else if sp_type spec \<in> set ''fFeEgGaA'' then haclog_spec_type_fFeEgGaA_output spec
      else if sp_type spec = CHR ''c'' then haclog_spec_type_c_output spec
      else if sp_type spec = CHR ''s'' then haclog_spec_type_s_output spec
      else if sp_type spec = CHR ''p'' then haclog_spec_type_p_output spec
      else if sp_type spec = CHR ''n'' then haclog_spec_type_n_output spec
      else [])"

section \<open>A conversion and a primitive\<close>

text \<open>A static width or precision is printed as a number, a dynamic one as a star.\<close>

definition show_num :: "int \<Rightarrow> string" where
  "show_num n =
     (if n \<noteq> 0 then (if n = HACLOG_PRINTF_SPEC_DYNAMIC then ''*'' else c_format None ''%d'' [C_int n]) else [])"

definition haclog_printf_spec_show :: "string \<Rightarrow> printf_spec \<Rightarrow> string" where
  "haclog_printf_spec_show fmt spec =
     ''['' @ take (nat (sp_pos_end spec - sp_pos_begin spec)) (drop (nat (sp_pos_begin spec)) fmt) @ '']: '' @ ''%'' @
     ''['' @
     (if sp_flags spec AND HACLOG_PRINTF_FLAGS_LEFT \<noteq> 0 then ''-'' else []) @
     (if sp_flags spec AND HACLOG_PRINTF_FLAGS_PLUS \<noteq> 0 then ''+'' else []) @
     (if sp_flags spec AND HACLOG_PRINTF_FLAGS_SPACE \<noteq> 0 then '' '' else []) @
     (if sp_flags spec AND HACLOG_PRINTF_FLAGS_SPECIAL \<noteq> 0 then ''#'' else []) @
     (if sp_flags spec AND HACLOG_PRINTF_FLAGS_ZEROPAD \<noteq> 0 then ''0'' else []) @
     '']'' @
     ''['' @ show_num (sp_width spec) @ '']'' @
     ''['' @ show_num (sp_precision spec) @ '']'' @
     haclog_spec_type_output spec @ [CHR 0x0A]"

definition haclog_printf_primitive_show :: "printf_primitive \<Rightarrow> string" where
  "haclog_printf_primitive_show primitive =
     ''--------------------------------'' @ [CHR 0x0A] @
     take (nat (pr_fmt_len primitive)) (pr_fmt primitive) @ [CHR 0x0A] @
     c_format None (''total param size: %u'' @ [CHR 0x0A]) [C_int (pr_param_size primitive)] @
     c_format None (''%d|%s:%d|%s'' @ [CHR 0x0A])
       [C_int (loc_level (pr_loc primitive)), C_str (loc_file (pr_loc primitive)),
        C_int (c_int (loc_line (pr_loc primitive))), C_str (loc_func (pr_loc primitive))] @
     concat (map (haclog_printf_spec_show (pr_fmt primitive)) (take (pr_num_params primitive) (pr_specs primitive)))"

section \<open>The dump shows what is serialized\<close>

text \<open>The C types an argument of a format type can be declared with.\<close>

fun ft_names :: "format_type \<Rightarrow> string list" where
  "ft_names HACLOG_FT_STR = [''char*'']"
| "ft_names HACLOG_FT_DOUBLE = [''double'']"
| "ft_names HACLOG_FT_LONG_DOUBLE = [''long double'']"
| "ft_names HACLOG_FT_SIZE = [''size_t'']"
| "ft_names HACLOG_FT_PTR = [''void*'']"
| "ft_names HACLOG_FT_PTRDIFF = [''ptrdiff_t'']"
| "ft_names HACLOG_FT_CHAR = [''signed char'', ''int'']"
| "ft_names HACLOG_FT_UCHAR = [''unsigned char '']"
| "ft_names HACLOG_FT_UBYTE = []"
| "ft_names HACLOG_FT_BYTE = []"
| "ft_names HACLOG_FT_USHORT = [''unsigned short int'']"
| "ft_names HACLOG_FT_SHORT = [''short int'']"
| "ft_names HACLOG_FT_UINT = [''unsigned int'']"
| "ft_names HACLOG_FT_INT = [''int'']"
| "ft_names HACLOG_FT_ULONG = [''unsigned long int'']"
| "ft_names HACLOG_FT_LONG = [''long int'']"
| "ft_names HACLOG_FT_LONGLONG = [''long long int'', ''intmax_t'']"
| "ft_names HACLOG_FT_ULONGLONG = [''unsigned long long int'', ''uintmax_t'']"
| "ft_names HACLOG_FT_NONE =
     [[], ''wint_t'', ''wchar_t*'', ''int*'', ''signed char*'', ''short int*'', ''long int*'', ''long long int*'',
      ''intmax_t*'', ''size_t*'', ''ptrdiff_t*'']"

text \<open>Group by group, the two tables side by side.\<close>

lemma shown_group:
  assumes "sp_fmt_type spec = HACLOG_FT_NONE"
  shows
    "haclog_spec_type_di_output (snd (haclog_printf_spec_fillup_ft_dt spec)) \<in>
       set (ft_names (sp_fmt_type (snd (haclog_printf_spec_fillup_ft_dt spec))))"
    "haclog_spec_type_uoxX_output (snd (haclog_printf_spec_fillup_ft_uoxX spec)) \<in>
       set (ft_names (sp_fmt_type (snd (haclog_printf_spec_fillup_ft_uoxX spec))))"
    "haclog_spec_type_fFeEgGaA_output (snd (haclog_printf_spec_fillup_ft_fFeEgGaA spec)) \<in>
       set (ft_names (sp_fmt_type (snd (haclog_printf_spec_fillup_ft_fFeEgGaA spec))))"
    "haclog_spec_type_c_output (snd (haclog_printf_spec_fillup_ft_c spec)) \<in>
       set (ft_names (sp_fmt_type (snd (haclog_printf_spec_fillup_ft_c spec))))"
    "haclog_spec_type_s_output (snd (haclog_printf_spec_fillup_ft_s spec)) \<in>
       set (ft_names (sp_fmt_type (snd (haclog_printf_spec_fillup_ft_s spec))))"
    "haclog_spec_type_p_output (snd (haclog_printf_spec_fillup_ft_p spec)) \<in>
       set (ft_names (sp_fmt_type (snd (haclog_printf_spec_fillup_ft_p spec))))"
  using assms
  by (simp_all add: haclog_printf_spec_fillup_ft_dt_def haclog_printf_spec_fillup_ft_uoxX_def
      haclog_printf_spec_fillup_ft_fFeEgGaA_def haclog_printf_spec_fillup_ft_c_def haclog_printf_spec_fillup_ft_s_def
      haclog_printf_spec_fillup_ft_p_def haclog_spec_type_di_output_def haclog_spec_type_uoxX_output_def
      haclog_spec_type_fFeEgGaA_output_def haclog_spec_type_c_output_def haclog_spec_type_s_output_def
      haclog_spec_type_p_output_def length_codes)

lemma shown_pointer: "haclog_spec_type_n_output spec \<in> set (ft_names HACLOG_FT_NONE)"
  by (simp add: haclog_spec_type_n_output_def)

lemma dispatch:
  shows "sp_type spec \<in> set ''di'' \<Longrightarrow> haclog_spec_type_output spec = haclog_spec_type_di_output spec"
    "sp_type spec \<in> set ''di'' \<Longrightarrow> haclog_printf_spec_fillup_ft spec = haclog_printf_spec_fillup_ft_dt spec"
    "sp_type spec \<in> set ''uoxX'' \<Longrightarrow> haclog_spec_type_output spec = haclog_spec_type_uoxX_output spec"
    "sp_type spec \<in> set ''uoxX'' \<Longrightarrow> haclog_printf_spec_fillup_ft spec = haclog_printf_spec_fillup_ft_uoxX spec"
    "sp_type spec \<in> set ''fFeEgGaA'' \<Longrightarrow> haclog_spec_type_output spec = haclog_spec_type_fFeEgGaA_output spec"
    "sp_type spec \<in> set ''fFeEgGaA'' \<Longrightarrow> haclog_printf_spec_fillup_ft spec = haclog_printf_spec_fillup_ft_fFeEgGaA spec"
    "sp_type spec = CHR ''c'' \<Longrightarrow> haclog_spec_type_output spec = haclog_spec_type_c_output spec"
    "sp_type spec = CHR ''c'' \<Longrightarrow> haclog_printf_spec_fillup_ft spec = haclog_printf_spec_fillup_ft_c spec"
    "sp_type spec = CHR ''s'' \<Longrightarrow> haclog_spec_type_output spec = haclog_spec_type_s_output spec"
    "sp_type spec = CHR ''s'' \<Longrightarrow> haclog_printf_spec_fillup_ft spec = haclog_printf_spec_fillup_ft_s spec"
    "sp_type spec = CHR ''p'' \<Longrightarrow> haclog_spec_type_output spec = haclog_spec_type_p_output spec"
    "sp_type spec = CHR ''p'' \<Longrightarrow> haclog_printf_spec_fillup_ft spec = haclog_printf_spec_fillup_ft_p spec"
  by (auto simp: haclog_spec_type_output_def haclog_printf_spec_fillup_ft_def)



end
