(* ===== verification/Haclog_Sleep.thy ===== *)
theory Haclog_Sleep
  imports Haclog_Prelude
begin

text \<open>
  \<open>haclog_nsleep\<close>, the POSIX branch: sleeping again for what is left when a signal interrupts. What
  \<open>nanosleep\<close> does is an argument, one result per call.
\<close>

datatype nanosleep_result =
    Slept
  | Interrupted int
  | Sleep_Error

text \<open>The requests made, or \<open>None\<close> when the last observed call was interrupted too. The function returns 0.\<close>

fun haclog_nsleep :: "int \<Rightarrow> nanosleep_result list \<Rightarrow> int list option" where
  "haclog_nsleep ns [] = None"
| "haclog_nsleep ns (r # rs) =
     (case r of
        Interrupted left \<Rightarrow> map_option (\<lambda>reqs. ns # reqs) (haclog_nsleep left rs)
      | _ \<Rightarrow> Some [ns])"

text \<open>The time each call slept, when an interrupted one reports the rest of its request.\<close>

fun slept :: "int \<Rightarrow> nanosleep_result list \<Rightarrow> int" where
  "slept ns [] = 0"
| "slept ns (Slept # rs) = ns"
| "slept ns (Interrupted left # rs) = (ns - left) + slept left rs"
| "slept ns (Sleep_Error # rs) = 0"

lemma nsleep_total: "haclog_nsleep ns rs \<noteq> None \<Longrightarrow> Sleep_Error \<notin> set rs \<Longrightarrow> slept ns rs = ns"
  by (induction ns rs rule: slept.induct) auto

end
