(* ===== verification/Haclog_Progress.thy ===== *)
theory Haclog_Progress
  imports Haclog_Pipeline
begin

text \<open>
  When the serializer returns: arguments of the statement's conversions are never undefined behaviour,
  a record of at most half the ring less the guard interval gets its room as soon as the backend has
  caught up, a part that is too large makes the call return with nothing published, and a record in
  between can wait for ever on an empty ring.
\<close>

section \<open>Arguments of the conversions are accepted\<close>

lemma ser_param_defined:
  assumes conv: "ref_conv spec (as_args st) = Some (v, rest)" and inv: "as_inv st"
    and typed: "sp_fmt_type spec \<noteq> HACLOG_FT_NONE"
    and room: "is_str_spec spec \<Longrightarrow> length (as_cache st) < HACLOG_MAX_STR_CACHE"
  shows "ser_param spec st \<noteq> None"
proof -
  from conv obtain wd as1 where w: "ref_dynamic (sp_width spec = HACLOG_PRINTF_SPEC_DYNAMIC) (as_args st) = Some (wd, as1)"
    by (auto simp: ref_conv_def split: option.splits)
  then obtain ws st1 where ws: "ser_width spec st = Some (ws, st1)" "as_args st1 = as1" "as_cache st1 = as_cache st"
    by (auto simp: ref_dynamic_def ser_width_def split: if_splits list.splits carg.splits)
  from conv w obtain q as2 where p: "ref_dynamic (sp_precision spec = HACLOG_PRINTF_SPEC_DYNAMIC) as1 = Some (q, as2)"
    by (auto simp: ref_conv_def split: option.splits)
  then obtain ps prec st2 where ps: "ser_precision spec st1 = Some (ps, prec, st2)" "as_args st2 = as2"
    "as_cache st2 = as_cache st1"
    using ws(2) by (auto simp: ref_dynamic_def ser_precision_def Let_def split: if_splits list.splits carg.splits)
  have "ser_arg spec prec st2 \<noteq> None"
  proof (cases "sp_fmt_type spec = HACLOG_FT_STR")
    case True
    with conv w p obtain s args where "as2 = C_str s # args"
      by (auto simp: ref_conv_def split: list.splits carg.splits)
    with True room ws(3) ps(2,3) show ?thesis
      by (simp add: ser_arg_def ser_str_def is_str_spec_def Let_def)
  next
    case False
    with conv w p obtain x args where "as2 = x # args" "ser_value (sp_fmt_type spec) x \<noteq> None"
      by (auto simp: ref_conv_def split: list.splits if_splits)
    with ps(2) show ?thesis by (auto simp: ser_arg_plain [OF False typed])
  qed
  with ws(1) ps(1) show ?thesis by (auto simp: ser_param_def)
qed

lemma ser_params_defined:
  assumes "ref_convs specs (as_args st) = Some (vals, rest)" "as_inv st" "\<forall>spec\<in>set specs. spec_typed spec"
    and "length (as_cache st) + num_strs specs \<le> HACLOG_MAX_STR_CACHE"
    and "int a + sum_list (map haclog_printf_spec_param_size specs) \<le> int (length m)"
  shows "ser_params specs m (Some a) st \<noteq> None"
  using assms
proof (induction specs arbitrary: m a st vals)
  case Nil
  then show ?case by simp
next
  case (Cons spec specs)
  have typed: "sp_fmt_type spec \<noteq> HACLOG_FT_NONE" "- 2147483648 \<le> sp_precision spec"
    "sp_precision spec < 2147483648" using Cons.prems(3) by (simp_all add: spec_typed_def)
  have room: "is_str_spec spec \<Longrightarrow> length (as_cache st) < HACLOG_MAX_STR_CACHE"
    using Cons.prems(4) by (simp add: num_strs_def)
  from Cons.prems(1) obtain v as1 vals1 where conv: "ref_conv spec (as_args st) = Some (v, as1)"
    and more: "ref_convs specs as1 = Some (vals1, rest)" by (auto split: option.splits)
  from ser_param_defined [OF conv Cons.prems(2) typed(1) room] obtain slots st1 where
    ser: "ser_param spec st = Some (slots, st1)" by auto
  from ser Cons.prems(2) typed(1) room typed(2,3) obtain val new where one:
    "ref_conv spec (as_args st) = Some (val, as_args st1)" "as_inv st1" "as_cache st1 = as_cache st @ new"
    "length new = (if is_str_spec spec then 1 else 0)" "slots_ok slots"
    "int (slots_len slots) = haclog_printf_spec_param_size spec" "spec_reads spec slots (as_cache st) new val"
    "as_extra_len st1 + args_room (as_args st1) \<le> as_extra_len st + args_room (as_args st)"
    by (rule ser_param_ref)
  have rest: "0 \<le> sum_list (map haclog_printf_spec_param_size specs)" using param_sizes_bounds [of specs] by simp
  have fits: "a + slots_len slots \<le> length m" using Cons.prems(5) one(6) rest by simp
  from heap.put_slots_Some [OF one(5) fits] obtain m1 where m1: "put_slots mem_write m a slots = Some m1" by blast
  have "ref_convs specs (as_args st1) = Some (vals1, rest)" using more conv one(1) by simp
  moreover have "length (as_cache st1) + num_strs specs \<le> HACLOG_MAX_STR_CACHE"
    using Cons.prems(4) one(3,4) by (cases "is_str_spec spec") (simp_all add: num_strs_def)
  moreover have "int (a + slots_len slots) + sum_list (map haclog_printf_spec_param_size specs) \<le> int (length m1)"
    using Cons.prems(5) one(6) heap.put_slots_size [OF m1] by simp
  ultimately have "ser_params specs m1 (Some (a + slots_len slots)) st1 \<noteq> None"
    using Cons.IH [OF _ one(2)] Cons.prems(3) by auto
  then show ?case using ser m1 by (simp add: put_at_def)
qed

section \<open>Room on an empty ring\<close>

text \<open>
  Where the writer stands with R bytes still to fetch, seen from its published position w: on the way
  to the end of the block, or wrapped to the front with w far enough ahead.
\<close>

definition fits :: "int \<Rightarrow> int \<Rightarrow> int \<Rightarrow> int \<Rightarrow> bool" where
  "fits cap w lw R \<longleftrightarrow>
     (w \<le> lw \<and> lw \<le> cap \<and> lw - w + R \<le> cap div 2 - 128) \<or>
     (0 \<le> lw \<and> lw < w \<and> lw + R \<le> cap div 2 - 128 \<and> cap div 2 \<le> w)"

lemma w_fc_fits:
  assumes fc: "haclog_bytes_buffer_w_fc b n c lw p = (p', ret)"
    and fits: "fits (bb_capacity b) w lw R" and n: "0 \<le> n" "n \<le> R"
    and cap: "256 \<le> bb_capacity b" and w: "0 \<le> w" "w < bb_capacity b" and c: "0 \<le> c" "c < bb_capacity b"
    and inv: "writer_inv (bb_capacity b) c w lw"
  shows "ret = - 2 \<and> c \<noteq> w \<or> 0 \<le> ret \<and> fits (bb_capacity b) w (ret + n) (R - n)"
proof -
  have half: "bb_capacity b sdiv 2 = bb_capacity b div 2"
    using cap by (simp add: signed_divide_int_def)
  show ?thesis
    using assms unfolding haclog_bytes_buffer_w_fc_def fits_def writer_inv_def Let_def half
    by (auto simp: c_arith split: if_splits)
qed

text \<open>
  The backend has caught up, or does so while the call waits: one of the positions that remain to be
  loaded is the writer's own.
\<close>

definition caught_up :: "ser_state \<Rightarrow> bool" where
  "caught_up s \<longleftrightarrow> ss_r s = bb_w (ss_bb s) \<or> bb_w (ss_bb s) \<in> set (ss_loads s)"

lemma fetch_loop_fits:
  assumes "r = bb_w b \<or> bb_w b \<in> set loads" "0 \<le> r" "r < bb_capacity b"
    and "loads_ok (bb_capacity b) r (bb_w b) loads" "writer_inv (bb_capacity b) r (bb_w b) lw"
    and fits: "fits (bb_capacity b) (bb_w b) lw R" and n: "0 \<le> n" "n \<le> R"
    and cap: "256 \<le> bb_capacity b" "0 \<le> bb_w b" "bb_w b < bb_capacity b"
  shows "\<exists>pos s'. fetch_loop b n lw r loads p = Continue pos s' \<and> caught_up s' \<and> ss_bb s' = b \<and>
    fits (bb_capacity b) (bb_w b) (pos + n) (R - n)"
  using assms(1-5)
proof (induction loads arbitrary: r p)
  case (Cons l loads)
  obtain p' ret where fc: "haclog_bytes_buffer_w_fc b n r lw p = (p', ret)" by fastforce
  show ?case
  proof (cases "ret = - 2")
    case True
    have l: "0 \<le> l" "l < bb_capacity b" "ring_dist (bb_capacity b) r l \<le> ring_dist (bb_capacity b) r (bb_w b)"
      "loads_ok (bb_capacity b) l (bb_w b) loads" using Cons.prems(4) by simp_all
    have "writer_inv (bb_capacity b) l (bb_w b) lw"
      by (rule writer_inv_reload [OF Cons.prems(5)]) (use Cons.prems l cap in simp_all)
    moreover have "r \<noteq> bb_w b" using w_fc_fits [OF fc fits n cap Cons.prems(2,3,5)] True by simp
    then have "l = bb_w b \<or> bb_w b \<in> set loads" using Cons.prems(1) by auto
    ultimately show ?thesis using Cons.IH [OF _ l(1,2,4), of p'] fc True by (simp add: fetch_loop.simps [of b n lw r])
  qed (use w_fc_fits [OF fc fits n cap Cons.prems(2,3,5)] fc Cons.prems(1) in
      \<open>auto simp: fetch_loop.simps [of b n lw _ "l # loads"] caught_up_def\<close>)
next
  case Nil
  obtain p' ret where fc: "haclog_bytes_buffer_w_fc b n r lw p = (p', ret)" by fastforce
  with w_fc_fits [OF fc fits n cap Nil.prems(2,3,5)] Nil.prems(1) show ?case
    by (auto simp: fetch_loop.simps [of b n lw _ "[]"] caught_up_def)
qed

lemma fetch_fits:
  assumes fits: "fits (bb_capacity (ss_bb s)) (bb_w (ss_bb s)) lw R" and n: "0 \<le> n" "n \<le> R"
    and inv: "ser_inv s lw" and up: "caught_up s"
  obtains pos s' where "HACLOG_FETCH_W n lw s = Continue pos s'" "ss_bb s' = ss_bb s" "caught_up s'" "ser_inv s' (pos + n)"
    "fits (bb_capacity (ss_bb s)) (bb_w (ss_bb s)) (pos + n) (R - n)" "0 \<le> pos" "pos + n \<le> bb_capacity (ss_bb s)"
proof -
  have "\<exists>pos s'. HACLOG_FETCH_W n lw s = Continue pos s' \<and> caught_up s' \<and> ss_bb s' = ss_bb s \<and>
      fits (bb_capacity (ss_bb s)) (bb_w (ss_bb s)) (pos + n) (R - n)"
    unfolding HACLOG_FETCH_W_def
    by (rule fetch_loop_fits) (use fits n inv up in \<open>simp_all add: ser_inv_def Let_def caught_up_def\<close>)
  then obtain pos s' where c: "HACLOG_FETCH_W n lw s = Continue pos s'" "caught_up s'" "ss_bb s' = ss_bb s"
    "fits (bb_capacity (ss_bb s)) (bb_w (ss_bb s)) (pos + n) (R - n)" by blast
  from fetch_w_room [OF c(1) n(1) inv] c that show ?thesis by (auto simp: room_at_def)
qed

lemma ser_get_part:
  "0 \<le> pos \<Longrightarrow> ser_get pos s = Continue (part_ptr (bb_capacity (ss_bb s)) pos)
     (s\<lparr>ss_proc := fst (haclog_bytes_buffer_get (ss_bb s) pos (ss_proc s))\<rparr>)"
  using get_part [of pos "ss_bb s" "ss_proc s"] by (auto simp: ser_get_def split: prod.splits)

lemma caught_up_mem [simp]: "caught_up (s\<lparr>ss_bb := (ss_bb s)\<lparr>bb_buffer := m\<rparr>\<rparr>) = caught_up s"
  "caught_up (s\<lparr>ss_proc := p\<rparr>) = caught_up s"
  by (simp_all add: caught_up_def)

text \<open>The parameters and strings themselves, in the room they were given.\<close>

lemma params_put:
  assumes "primitive_ok prim" "args_ok args" "ref_convs (pr_specs prim) args = Some (vals, left)"
    and pos: "0 \<le> pos" "pos + pr_param_size prim \<le> int (length m)" and len: "int (length m) = cap"
  obtains m1 st where "ser_params (pr_specs prim) m (part_ptr cap pos) (arg_start args) = Some (m1, st)"
    "as_inv st" "as_extra_len st \<le> args_room args" "length m1 = length m"
proof (cases "pos < cap")
  case True
  then have p: "part_ptr cap pos = Some (nat pos)" by (simp add: part_ptr_def)
  have prim: "\<forall>spec\<in>set (pr_specs prim). spec_typed spec" "num_strs (pr_specs prim) \<le> HACLOG_MAX_STR_CACHE"
    "pr_param_size prim = sum_list (map haclog_printf_spec_param_size (pr_specs prim))"
    using assms(1) by (simp_all add: primitive_ok_def)
  have inv: "as_inv (arg_start args)" using assms(2) by (intro as_inv_start) (simp_all add: args_ok_def)
  have room: "length (as_cache (arg_start args)) + num_strs (pr_specs prim) \<le> HACLOG_MAX_STR_CACHE"
    using prim(2) by (simp add: arg_start_def)
  have "ser_params (pr_specs prim) m (Some (nat pos)) (arg_start args) \<noteq> None"
    by (rule ser_params_defined [OF _ inv prim(1) room]) (use assms(3) pos prim(3) in \<open>auto simp: arg_start_def\<close>)
  then obtain m1 st where ser: "ser_params (pr_specs prim) m (Some (nat pos)) (arg_start args) = Some (m1, st)" by auto
  from ser_params_ref [OF ser inv prim(1) room] obtain slots where "put_slots mem_write m (nat pos) slots = Some m1"
    "as_inv st" "as_extra_len st + args_room (as_args st) \<le> args_room args"
    by (auto simp: arg_start_def)
  with that [OF ser [folded p]] heap.put_slots_size args_room_nonneg [of "as_args st"] show ?thesis by fastforce
next
  case False
  then have none: "pr_specs prim = []"
    using assms(1) pos len param_sizes_bounds [of "pr_specs prim"]
    by (cases "pr_specs prim") (auto simp: primitive_ok_def)
  have "as_inv (arg_start args)" using assms(2) by (intro as_inv_start) (simp_all add: args_ok_def)
  with none show ?thesis using args_room_nonneg [of args]
    by (intro that [of m "arg_start args"]) (simp_all add: arg_start_def)
qed

lemma strings_put:
  assumes "as_inv st" and pos: "0 \<le> pos" "pos + as_extra_len st \<le> int (length m)" and len: "int (length m) = cap"
  obtains m2 where "ser_strings m (part_ptr cap pos) st = Some m2" "length m2 = length m"
proof -
  let ?slots = "concat (map str_slots (as_cache st))"
  have st: "\<forall>c\<in>set (as_cache st). entry_ok c" "as_extra_len st = cache_len (as_cache st)" "str_copies st = as_cache st"
    using assms(1) by (simp_all add: as_inv_def str_copies_def)
  note strs = cache_slots [OF st(1)]
  show ?thesis
  proof (cases "pos < cap")
    case True
    have "nat pos + slots_len ?slots \<le> length m" using pos strs st(2) by linarith
    from heap.put_slots_Some [OF _ this] strs obtain m2 where m2: "put_slots mem_write m (nat pos) ?slots = Some m2" by blast
    with that heap.put_slots_size [OF m2] True show ?thesis
      by (simp add: ser_strings_def st(3) put_at_def part_ptr_def)
  next
    case False
    then have "as_cache st = []"
      using st(1,2) pos len cache_len_nonneg by (cases "as_cache st") (fastforce simp: entry_ok_def)+
    with that [of m] False show ?thesis by (simp add: ser_strings_def st(3) put_at_def part_ptr_def)
  qed
qed

lemma serialize_fits:
  assumes prim: "primitive_ok prim" and args: "args_ok args"
    and conv: "ref_convs (pr_specs prim) args = Some (vals, left)"
    and inv: "ser_inv s (bb_w (ss_bb s))" and up: "caught_up s"
    and size: "48 + pr_param_size prim + args_room args + 128 \<le> bb_capacity (ss_bb s) div 2 - 128"
  shows "\<exists>s'. haclog_printf_primitive_serialize ptr prim args ts s = Continue () s'"
proof -
  let ?b = "ss_bb s" and ?cap = "bb_capacity (ss_bb s)" and ?w = "bb_w (ss_bb s)"
  let ?ps = "pr_param_size prim" and ?ar = "args_room args"
  have cap: "256 \<le> ?cap" "?cap < 2147483648" "0 \<le> ?w" "?w < ?cap" and len: "int (length (bb_buffer ?b)) = ?cap"
    using inv by (simp_all add: ser_inv_def Let_def)
  have ps: "c_int ?ps = ?ps" "0 \<le> ?ps" and specs: "take (pr_num_params prim) (pr_specs prim) = pr_specs prim"
    using prim param_sizes_bounds [of "pr_specs prim"] by (simp_all add: primitive_ok_def c_int_id)
  have ar: "0 \<le> ?ar" by (rule args_room_nonneg)
  have start: "fits ?cap ?w ?w (48 + ?ps + ?ar + 128)" using cap size by (simp add: fits_def)
  obtain hp s1 where f1: "HACLOG_FETCH_W 48 ?w s = Continue hp s1" "ss_bb s1 = ?b" "caught_up s1" "ser_inv s1 (hp + 48)"
    "fits ?cap ?w (hp + 48) (48 + ?ps + ?ar + 128 - 48)" "0 \<le> hp" "hp + 48 \<le> ?cap"
    by (rule fetch_fits [where n = 48, OF start _ _ inv up]) (use ps ar in simp_all)
  obtain wc s2 where f2: "HACLOG_FETCH_W ?ps (hp + 48) s1 = Continue wc s2" "ss_bb s2 = ?b" "caught_up s2"
    "ser_inv s2 (wc + ?ps)" "fits ?cap ?w (wc + ?ps) (48 + ?ps + ?ar + 128 - 48 - ?ps)" "0 \<le> wc" "wc + ?ps \<le> ?cap"
    by (rule fetch_fits [where n = ?ps, OF f1(5) [folded f1(2)] _ _ f1(4,3)]) (use ps ar f1(2) in simp_all)
  obtain m1 st where p: "ser_params (pr_specs prim) (bb_buffer ?b) (part_ptr ?cap wc) (arg_start args) = Some (m1, st)"
    "as_inv st" "as_extra_len st \<le> ?ar" "length m1 = length (bb_buffer ?b)"
    by (rule params_put [OF prim args conv f2(6) _ len]) (use f2(7) len in simp)
  have x: "0 \<le> as_extra_len st" "as_extra_len st < 2147483648"
    using p(2) cache_len_nonneg [of "as_cache st"] args_room_nonneg [of "as_args st"] by (simp_all add: as_inv_def)
  let ?x = "as_extra_len st"
  let ?p2 = "fst (haclog_bytes_buffer_get (ss_bb s2) wc (ss_proc s2))"
  let ?s2 = "s2\<lparr>ss_proc := ?p2, ss_bb := (ss_bb s2)\<lparr>bb_buffer := m1\<rparr>\<rparr>"
  have s2: "caught_up ?s2" "ser_inv ?s2 (wc + ?ps)" "bb_capacity (ss_bb ?s2) = ?cap" "bb_w (ss_bb ?s2) = ?w"
    using f2(2,3) ser_inv_mem [OF f2(4), of m1] p(4) by (simp_all add: caught_up_def)
  obtain ws s3 where f3: "HACLOG_FETCH_W ?x (wc + ?ps) ?s2 = Continue ws s3" "ss_bb s3 = ss_bb ?s2" "caught_up s3"
    "ser_inv s3 (ws + ?x)" "fits ?cap ?w (ws + ?x) (48 + ?ps + ?ar + 128 - 48 - ?ps - ?x)" "0 \<le> ws" "ws + ?x \<le> ?cap"
    unfolding s2(3,4) [symmetric]
    by (rule fetch_fits [where n = ?x, OF f2(5) [folded s2(3,4)] _ _ s2(2,1)]) (use x p(3) s2 in simp_all)
  have bb3: "bb_capacity (ss_bb s3) = ?cap" "bb_w (ss_bb s3) = ?w" "bb_buffer (ss_bb s3) = m1" using f3(2) f2(2) by simp_all
  obtain m2 where q: "ser_strings m1 (part_ptr ?cap ws) st = Some m2" "length m2 = length m1"
    by (rule strings_put [OF p(2) f3(6), of m1 ?cap]) (use f3(7) p(4) len in simp_all)
  let ?p3 = "fst (haclog_bytes_buffer_get (ss_bb s3) ws (ss_proc s3))"
  let ?s3 = "s3\<lparr>ss_proc := ?p3, ss_bb := (ss_bb s3)\<lparr>bb_buffer := m2\<rparr>\<rparr>"
  have s3: "caught_up ?s3" "ser_inv ?s3 (ws + ?x)" "bb_capacity (ss_bb ?s3) = ?cap" "bb_w (ss_bb ?s3) = ?w"
    using bb3 f3(3) ser_inv_mem [OF f3(4), of m2] q(2) by (simp_all add: caught_up_def)
  obtain wl s4 where f4: "HACLOG_FETCH_W 128 (ws + ?x) ?s3 = Continue wl s4" "ss_bb s4 = ss_bb ?s3"
    "0 \<le> wl" "wl + 128 \<le> ?cap"
    unfolding s3(3,4) [symmetric]
    by (rule fetch_fits [where n = 128, OF f3(5) [folded s3(3,4)] _ _ s3(2,1)]) (use p(3) s3 in simp_all)
  have bb4: "bb_capacity (ss_bb s4) = ?cap" "bb_buffer (ss_bb s4) = m2" using f4(2) bb3 by simp_all
  have c: "c_int (hp + 48) = hp + 48" "c_int (wc + ?ps) = wc + ?ps" "c_int ?x = ?x" "c_int (ws + ?x) = ws + ?x"
    using f1(6,7) f2(6,7) f3(6,7) ps x cap by (simp_all add: c_int_id)
  have "nat hp + 48 \<le> length m2" using f1(6,7) len p(4) q(2) by linarith
  then obtain m3 where h: "put_slots mem_write m2 (nat hp) (hdr_slots ts wc ws ?x (c_u64 (c_int (wl + 128))) ptr) = Some m3"
    using heap.put_slots_Some [OF hdr_slots_ok(1), of "nat hp" ts wc ws ?x "c_u64 (c_int (wl + 128))" ptr m2]
    by (auto simp: hdr_slots_ok)
  have hpp: "part_ptr ?cap hp = Some (nat hp)" using f1(6,7) by (simp add: part_ptr_def)
  show ?thesis
    unfolding haclog_printf_primitive_serialize_def Let_def sizeof_serialize_hdr_eq CACHE_INTERVAL_eq specs
    using f1(1) f2(1,2) p(1) f3(1) q(1) f4(1) h
    by (simp add: c ps ser_get_part f2(2,6) f3(6) bb3 bb4 ser_mem_def f1(6) hpp put_at_def split: prod.split)
qed

section \<open>A call that waits for the backend\<close>


text \<open>The sample pipeline with a ring of 1024 bytes, on which half a ring holds the sample statement.\<close>

definition wide_pipe :: "file_handler sys" where
  "wide_pipe = demo_pipe\<lparr>sy_bb := \<lparr>bb_buffer = replicate 1024 NUL, bb_capacity = 1024, bb_w = 0, bb_r = 0\<rparr>\<rparr>"


section \<open>A record that is dropped\<close>

lemma too_large_returns:
  assumes prim: "primitive_ok prim" and inv: "ser_inv s (bb_w (ss_bb s))" and up: "caught_up s"
    and cap: "352 \<le> bb_capacity (ss_bb s)" and large: "bb_capacity (ss_bb s) div 2 - 128 < pr_param_size prim"
  shows "\<exists>t. haclog_printf_primitive_serialize ptr prim args ts s = Returned t"
proof -
  let ?b = "ss_bb s" and ?cap = "bb_capacity (ss_bb s)" and ?w = "bb_w (ss_bb s)" and ?ps = "pr_param_size prim"
  have w: "0 \<le> ?w" "?w < ?cap" "?cap < 2147483648" using inv by (simp_all add: ser_inv_def Let_def)
  have ps: "c_int ?ps = ?ps" using prim param_sizes_bounds [of "pr_specs prim"] by (simp add: primitive_ok_def c_int_id)
  have "fits ?cap ?w ?w 48" using cap w by (simp add: fits_def)
  then obtain hp s1 where f1: "HACLOG_FETCH_W 48 ?w s = Continue hp s1" "ss_bb s1 = ?b"
    by (rule fetch_fits [where n = 48, OF _ _ _ inv up]) simp_all
  have "\<exists>t. HACLOG_FETCH_W ?ps lw s1 = Returned t" for lw
    using large cap by (simp add: HACLOG_FETCH_W_def fetch_loop.simps [of "ss_bb s"] f1(2)
        haclog_bytes_buffer_w_fc_def c_arith signed_divide_int_def)
  then obtain t where "HACLOG_FETCH_W ?ps (c_int (hp + 48)) s1 = Returned t" by blast
  then show ?thesis
    by (simp add: haclog_printf_primitive_serialize_def Let_def sizeof_serialize_hdr_eq f1 ps)
qed


text \<open>The sample statement on the smallest ring that can be made: no record fits.\<close>

definition tiny_pipe :: "file_handler sys" where
  "tiny_pipe = demo_pipe\<lparr>sy_bb := \<lparr>bb_buffer = replicate 256 NUL, bb_capacity = 256, bb_w = 0, bb_r = 0\<rparr>\<rparr>"

lemma tiny_pipe_reachable: "sys_reachable demo_config ''/log'' ''old;'' tiny_pipe"
  by (rule run_start)
    (use demo_start in \<open>simp add: sys_start_def tiny_pipe_def demo_pipe_def\<close>)


section \<open>A record that never gets its room\<close>

lemma fetch_now:
  assumes "haclog_bytes_buffer_w_fc (ss_bb s) n (ss_r s) lw (ss_proc s) = (p, pos)" "0 \<le> pos"
  shows "HACLOG_FETCH_W n lw s = Continue pos (s\<lparr>ss_proc := p\<rparr>)"
  using assms by (cases s) (simp add: HACLOG_FETCH_W_def fetch_loop.simps)

lemma fetch_loop_waits:
  "(\<And>p. haclog_bytes_buffer_w_fc b n r lw p = (p, - 2)) \<Longrightarrow>
   fetch_loop b n lw r (replicate k r) p = Waiting \<lparr>ss_bb = b, ss_r = r, ss_loads = [], ss_proc = p\<rparr>"
  by (induction k arbitrary: p) (simp_all add: fetch_loop.simps)

text \<open>The bytes the strings of a statement take, which do not depend on the memory they are written to.\<close>

fun args_state :: "printf_spec list \<Rightarrow> arg_state \<Rightarrow> arg_state option" where
  "args_state [] st = Some st"
| "args_state (spec # specs) st =
     (case ser_param spec st of None \<Rightarrow> None | Some (slots, st) \<Rightarrow> args_state specs st)"

definition strings_size :: "printf_spec list \<Rightarrow> carg list \<Rightarrow> int" where
  "strings_size specs args = (case args_state specs (arg_start args) of None \<Rightarrow> 0 | Some st \<Rightarrow> as_extra_len st)"

lemma ser_params_state: "ser_params specs m p st = Some (m', st') \<Longrightarrow> args_state specs st = Some st'"
  by (induction specs m p st rule: ser_params.induct) (auto split: option.splits)

text \<open>
  C12: A record can be small enough for every check and still wait for ever. On an empty ring whose
  positions stand at w, let header and parameters fit before the end of the block, the strings not,
  and the strings at the front leave less than the cache line and the guard interval before w. Then
  the call waits, however often it loads the reader position: the backend has nothing left to read
  that would move it.
\<close>

theorem middle_record_waits:
  assumes prim: "primitive_ok prim" and args: "args_ok args"
    and conv: "ref_convs (pr_specs prim) args = Some (vals, left)"
    and inv: "ser_inv s w" and empty: "bb_r (ss_bb s) = w" "bb_w (ss_bb s) = w" "ss_r s = w" "ss_loads s = replicate k w"
    and cap: "cap = bb_capacity (ss_bb s)" and x: "x = strings_size (pr_specs prim) args"
    and accepted: "pr_param_size prim \<le> cap div 2 - 128" "x \<le> cap div 2 - 128" "512 \<le> cap"
    and layout: "48 + pr_param_size prim < cap - w" "cap - w - 48 - pr_param_size prim < x" "w < x + 256"
  shows "\<exists>t. haclog_printf_primitive_serialize ptr prim args ts s = Waiting t \<and>
    bb_w (ss_bb t) = w \<and> bb_r (ss_bb t) = w"
proof -
  let ?b = "ss_bb s" and ?ps = "pr_param_size prim"
  have c: "cap < 2147483648" "0 \<le> w" "w < cap" and len: "int (length (bb_buffer ?b)) = cap"
    using inv empty cap by (simp_all add: ser_inv_def Let_def)
  have half: "cap sdiv 2 = cap div 2" using accepted(3) by (simp add: signed_divide_int_def)
  have ps: "c_int ?ps = ?ps" "0 \<le> ?ps" and specs: "take (pr_num_params prim) (pr_specs prim) = pr_specs prim"
    using prim param_sizes_bounds [of "pr_specs prim"] by (simp_all add: primitive_ok_def c_int_id)
  have w1: "haclog_bytes_buffer_w_fc b 48 w w p = (p, w)"
    and w2: "haclog_bytes_buffer_w_fc b ?ps w (w + 48) p = (p, w + 48)"
    if "bb_capacity b = cap" for b p
    using that accepted layout ps by (simp_all add: haclog_bytes_buffer_w_fc_def half c_arith)
  obtain m1 st where p: "ser_params (pr_specs prim) (bb_buffer ?b) (part_ptr cap (w + 48)) (arg_start args) = Some (m1, st)"
    "as_inv st" "length m1 = length (bb_buffer ?b)"
    by (rule params_put [OF prim args conv, of "w + 48" "bb_buffer ?b" cap]) (use c layout len in simp_all)
  have xs: "as_extra_len st = x" using ser_params_state [OF p(1)] by (simp add: x strings_size_def)
  have x0: "0 \<le> x" "c_int x = x"
    using p(2) cache_len_nonneg [of "as_cache st"] args_room_nonneg [of "as_args st"] xs
    by (simp_all add: as_inv_def c_int_id)
  have ci: "c_int (w + 48) = w + 48" "c_int (w + 48 + ?ps) = w + 48 + ?ps"
    using c layout ps by (simp_all add: c_int_id)
  let ?lw = "w + 48 + ?ps"
  have f1: "HACLOG_FETCH_W 48 w s = Continue w s"
    using fetch_now [of s 48 w "ss_proc s" w] w1 cap c empty by simp
  have f2: "HACLOG_FETCH_W ?ps (w + 48) s = Continue (w + 48) s"
    using fetch_now [of s ?ps "w + 48" "ss_proc s" "w + 48"] w2 cap c empty by simp
  let ?s1 = "s\<lparr>ss_proc := fst (haclog_bytes_buffer_get ?b (w + 48) (ss_proc s)), ss_bb := ?b\<lparr>bb_buffer := m1\<rparr>\<rparr>"
  have get1: "ser_get (w + 48) s = Continue (part_ptr cap (w + 48))
      (s\<lparr>ss_proc := fst (haclog_bytes_buffer_get ?b (w + 48) (ss_proc s))\<rparr>)"
    using ser_get_part [of "w + 48" s] c cap by simp
  show ?thesis
  proof (cases "x \<le> w - 128")
    case False
    have "haclog_bytes_buffer_w_fc (?b\<lparr>bb_buffer := m1\<rparr>) x w ?lw q = (q, - 2)" for q
      using accepted layout ps cap c False by (simp add: haclog_bytes_buffer_w_fc_def half c_arith Let_def)
    then have "\<exists>t. HACLOG_FETCH_W x ?lw ?s1 = Waiting t \<and> ss_bb t = ?b\<lparr>bb_buffer := m1\<rparr>"
      using fetch_loop_waits [of "?b\<lparr>bb_buffer := m1\<rparr>" x w ?lw k] empty by (simp add: HACLOG_FETCH_W_def)
    then obtain t where t: "HACLOG_FETCH_W x ?lw ?s1 = Waiting t" "ss_bb t = ?b\<lparr>bb_buffer := m1\<rparr>" by blast
    show ?thesis
      unfolding haclog_printf_primitive_serialize_def Let_def sizeof_serialize_hdr_eq specs empty(2)
      using t empty by (simp add: f1 f2 ps ci get1 ser_mem_def p(1) xs x0)
  next
    case True
    have fc3: "haclog_bytes_buffer_w_fc (?b\<lparr>bb_buffer := m1\<rparr>) x w ?lw q = (q, 0)" for q
      using accepted layout ps cap c True by (simp add: haclog_bytes_buffer_w_fc_def half c_arith Let_def)
    have f3: "HACLOG_FETCH_W x ?lw ?s1 = Continue 0 ?s1"
      using fetch_now [of ?s1 x ?lw "ss_proc ?s1" 0] fc3 empty by simp
    obtain m2 where q: "ser_strings m1 (part_ptr cap 0) st = Some m2" "length m2 = length m1"
      by (rule strings_put [OF p(2), of 0 m1 cap]) (use accepted c xs p(3) len in simp_all)
    let ?b2 = "?b\<lparr>bb_buffer := m2\<rparr>"
    let ?s2 = "?s1\<lparr>ss_proc := fst (haclog_bytes_buffer_get (ss_bb ?s1) 0 (ss_proc ?s1)), ss_bb := ?b2\<rparr>"
    have get2: "ser_get 0 ?s1 = Continue (part_ptr cap 0)
        (?s1\<lparr>ss_proc := fst (haclog_bytes_buffer_get (ss_bb ?s1) 0 (ss_proc ?s1))\<rparr>)"
      using ser_get_part [of 0 ?s1] cap by simp
    have "haclog_bytes_buffer_w_fc ?b2 128 w x r = (r, - 2)" for r
      using accepted layout cap c True x0 by (simp add: haclog_bytes_buffer_w_fc_def half c_arith Let_def)
    then have "\<exists>t. HACLOG_FETCH_W 128 x ?s2 = Waiting t \<and> ss_bb t = ?b2"
      using fetch_loop_waits [of ?b2 128 w x k] empty by (simp add: HACLOG_FETCH_W_def)
    then obtain t where t: "HACLOG_FETCH_W 128 x ?s2 = Waiting t" "ss_bb t = ?b2" by blast
    show ?thesis
      unfolding haclog_printf_primitive_serialize_def Let_def sizeof_serialize_hdr_eq CACHE_INTERVAL_eq specs empty(2)
      using t empty by (simp add: f1 f2 ps ci get1 ser_mem_def p(1) xs x0 f3 get2 q(1))
  qed
qed

definition text_prim :: printf_primitive where
  "text_prim = \<lparr>pr_fmt = ''%s'', pr_fmt_len = 2, pr_num_params = 1, pr_num_args = 1, pr_loc = loc_zero,
     pr_specs = [\<lparr>sp_pos_begin = 0, sp_pos_end = 2, sp_width = 0, sp_precision = 0, sp_length = 0,
       sp_flags = 0, sp_type = CHR ''s'', sp_fmt_type = HACLOG_FT_STR\<rparr>], pr_param_size = 8\<rparr>"

definition block_end_state :: "nat \<Rightarrow> ser_state" where
  "block_end_state k = \<lparr>ss_bb = \<lparr>bb_buffer = replicate 512 NUL, bb_capacity = 512, bb_w = 352, bb_r = 352\<rparr>,
     ss_r = 352, ss_loads = replicate k 352, ss_proc = \<lparr>last_err = HACLOG_ERR_OK, live_blocks = 0\<rparr>\<rparr>"

lemma text_prim_ok: "primitive_ok text_prim"
  by (simp add: text_prim_def primitive_ok_def spec_typed_def num_strs_def is_str_spec_def
      HACLOG_MAX_STR_CACHE_def param_size_eq spec_dynamics_def HACLOG_PRINTF_SPEC_DYNAMIC_def)

theorem middle_record_waits_witness:
  "\<forall>k. \<exists>t. haclog_printf_primitive_serialize 7 text_prim [C_str (replicate 110 CHR ''x'')] (1, 2)
     (block_end_state k) = Waiting t"
proof
  fix k
  let ?args = "[C_str (replicate 110 CHR ''x'')]"
  have "loads_ok 512 352 352 (replicate k 352)"
    by (induction k) (simp_all add: ring_dist_def)
  then have inv: "ser_inv (block_end_state k) 352"
    by (simp add: block_end_state_def ser_inv_def writer_inv_start)
  have args: "args_ok ?args" by code_simp
  have size: "strings_size (pr_specs text_prim) ?args = 112" by code_simp
  obtain vals left where conv: "ref_convs (pr_specs text_prim) ?args = Some (vals, left)"
    by (simp add: text_prim_def ref_conv_def ref_dynamic_def HACLOG_PRINTF_SPEC_DYNAMIC_def)
  show "\<exists>t. haclog_printf_primitive_serialize 7 text_prim ?args (1, 2) (block_end_state k) = Waiting t"
    using middle_record_waits [OF text_prim_ok args conv inv _ _ _ _ refl size [symmetric], of k 7 "(1, 2)"]
    by (auto simp: block_end_state_def text_prim_def)
qed

end
