(* ===== verification/Haclog_Threads.thy ===== *)
theory Haclog_Threads
  imports Haclog_Pipeline
begin

text \<open>
  Any number of logging threads, each with its own ring, and the one backend that writes what it takes
  from all of them to the file. The lines of each thread stay in its order; those of different threads
  are merged in the order the backend consumed them. One pass of the backend over its contexts leaves
  nothing behind.
\<close>

section \<open>Threads and the backend\<close>

text \<open>A thread context, the logging thread's view of the reader, and what it logged.\<close>

record thread =
  tr_tid :: int
  tr_bb :: bytes_buffer
  tr_r :: int
  tr_proc :: proc
  tr_w :: int
  tr_logged :: "stmt list"
  tr_printed :: nat

text \<open>A thread with the backend, as one pipeline; and what a step of that pipeline makes of the thread.\<close>

definition with_backend :: "thread \<Rightarrow> 'h backend \<Rightarrow> 'h sys" where
  "with_backend t bk = \<lparr>sy_bb = tr_bb t, sy_r = tr_r t, sy_proc = tr_proc t, sy_w = tr_w t, sy_backend = bk,
     sy_logged = tr_logged t, sy_printed = tr_printed t\<rparr>"

definition thread_of :: "int \<Rightarrow> 'h sys \<Rightarrow> thread" where
  "thread_of tid s = \<lparr>tr_tid = tid, tr_bb = sy_bb s, tr_r = sy_r s, tr_proc = sy_proc s, tr_w = sy_w s,
     tr_logged = sy_logged s, tr_printed = sy_printed s\<rparr>"

inductive threads_step ::
  "config \<Rightarrow> thread list \<times> 'h backend \<Rightarrow> thread list \<times> 'h backend \<Rightarrow> bool" for c where
  threads_step:
    "i < length ths \<Longrightarrow>
     sys_step (c\<lparr>se_tid := tr_tid (ths ! i)\<rparr>) (with_backend (ths ! i) bk) s \<Longrightarrow>
     threads_step c (ths, bk) (ths[i := thread_of (tr_tid (ths ! i)) s], sy_backend s)"

definition threads_start :: "config \<Rightarrow> string \<Rightarrow> string \<Rightarrow> thread list \<times> file_handler backend \<Rightarrow> bool" where
  "threads_start c path tx s \<longleftrightarrow>
     (\<forall>t\<in>set (fst s). sys_start c path tx (with_backend t (snd s))) \<and> file_backend c path tx (snd s)"

section \<open>What the file holds\<close>

text \<open>
  The lines of a merge: statements with the index of the thread that logged them, those the handler
  lets pass written with that thread's id.
\<close>

definition merged :: "config \<Rightarrow> (nat \<Rightarrow> int) \<Rightarrow> (nat \<times> stmt) list \<Rightarrow> string \<Rightarrow> bool" where
  "merged c tid es tx \<longleftrightarrow>
     (\<exists>lines. list_all2 (\<lambda>(i, e). line_of (se_expand c) (se_gm c) (se_junk c) (tid i) (se_bufsize c) e)
        (filter (\<lambda>(i, e). se_level c \<le> sm_level e) es) lines \<and> tx = concat lines)"

definition of_thread :: "nat \<Rightarrow> (nat \<times> stmt) list \<Rightarrow> stmt list" where
  "of_thread i es = map snd (filter (\<lambda>(j, e). j = i) es)"

lemma of_thread_simps [simp]:
  "of_thread i [] = []" "of_thread i (es @ es') = of_thread i es @ of_thread i es'"
  "of_thread i (map (Pair j) new) = (if i = j then new else [])"
  by (simp_all add: of_thread_def comp_def filter_map)

lemma merged_append: "merged c tid es tx \<Longrightarrow> merged c tid es' tx' \<Longrightarrow> merged c tid (es @ es') (tx @ tx')"
  unfolding merged_def
  by (elim exE conjE, rule exI, rule conjI, unfold filter_append, erule (1) list_all2_appendI) simp

lemma merged_written: "written (c\<lparr>se_tid := tid i\<rparr>) new tx \<Longrightarrow> merged c tid (map (Pair i) new) tx"
  unfolding merged_def written_def by (auto simp: filter_map comp_def list_all2_map1)

lemma merged_one: "merged c tid [(i, e)] tx \<Longrightarrow> written (c\<lparr>se_tid := tid i\<rparr>) [e] tx"
  by (auto simp: merged_def written_def list_all2_Cons1 split: if_splits)

definition thread_ok :: "config \<Rightarrow> thread \<Rightarrow> bool" where
  "thread_ok c t \<longleftrightarrow>
     (\<exists>g bk. sys_ring c (with_backend t (bk :: file_handler backend)) g) \<and> tr_printed t \<le> length (tr_logged t) \<and>
     (\<forall>e\<in>set (tr_logged t). stmt_ok (c\<lparr>se_tid := tr_tid t\<rparr>) e)"

definition threads_inv :: "config \<Rightarrow> string \<Rightarrow> string \<Rightarrow> thread list \<times> file_handler backend \<Rightarrow> bool" where
  "threads_inv c path tx0 s \<longleftrightarrow>
     (\<forall>t\<in>set (fst s). thread_ok c t) \<and>
     (\<exists>es tx. file_backend c path (tx0 @ tx) (snd s) \<and> merged c (\<lambda>i. tr_tid (fst s ! i)) es tx \<and>
        (\<forall>(i, e)\<in>set es. i < length (fst s)) \<and>
        (\<forall>i<length (fst s). of_thread i es = take (tr_printed (fst s ! i)) (tr_logged (fst s ! i))))"

section \<open>One step\<close>

text \<open>What a thread logged before does not matter to a step.\<close>

definition recent :: "'h sys \<Rightarrow> 'h sys" where
  "recent s = s\<lparr>sy_logged := drop (sy_printed s) (sy_logged s), sy_printed := 0\<rparr>"

lemma step_recent:
  assumes "sys_step c s t" "sy_printed s \<le> length (sy_logged s)"
  shows "sys_step c (recent s) (t\<lparr>sy_logged := drop (sy_printed s) (sy_logged t), sy_printed := sy_printed t - sy_printed s\<rparr>)"
    "\<exists>new. sy_logged t = sy_logged s @ new" "sy_printed s \<le> sy_printed t"
proof -
  have log: "log_state (recent s) k = log_state s k" for k by (simp add: recent_def log_state_def)
  show "sys_step c (recent s) (t\<lparr>sy_logged := drop (sy_printed s) (sy_logged t), sy_printed := sy_printed t - sy_printed s\<rparr>)"
    using assms(1)
  proof cases
    case (sys_log e k u)
    have "haclog_printf_primitive_serialize (sm_ptr e) (sm_prim e) (sm_args e) (sm_ts e) (log_state (recent s) k) =
        Continue () u" using sys_log(3) by (simp add: log)
    from sys_step.sys_log [OF sys_log(2) this] show ?thesis
      using assms(2) unfolding sys_log(1) by (cases s) (simp add: recent_def)
  next
    case (sys_drop e k u)
    then show ?thesis using sys_step.sys_drop [of c e "recent s" k u] by (simp add: log) (cases s, simp add: recent_def)
  next
    case sys_load
    then show ?thesis using sys_step.sys_load [of c "recent s"] by (cases s) (simp add: recent_def)
  next
    case (sys_round again b bk)
    then show ?thesis using sys_step.sys_round [of c "recent s" again b bk] by (cases s) (simp add: recent_def)
  qed
  show "\<exists>new. sy_logged t = sy_logged s @ new" "sy_printed s \<le> sy_printed t"
    using assms(1) by (cases, auto)+
qed

lemma pending_ok_tid [simp]: "pending_ok (c\<lparr>se_tid := i\<rparr>) g es = pending_ok c g es"
  by (simp add: pending_ok_def)

lemma thread_alone:
  assumes t: "thread_ok c t" and bk: "file_backend c path tx bk"
  shows "sys_inv (c\<lparr>se_tid := tr_tid t\<rparr>) path tx (recent (with_backend t bk))"
proof -
  from t obtain g and bk0 :: "file_handler backend" where "sys_ring c (with_backend t bk0) g" by (auto simp: thread_ok_def)
  then have "sys_ring (c\<lparr>se_tid := tr_tid t\<rparr>) (recent (with_backend t bk)) g"
    by (simp add: sys_ring_def recent_def with_backend_def)
  then show ?thesis
    using t bk by (auto simp: sys_inv_def thread_ok_def recent_def with_backend_def written_def file_backend_def
        file_handlers_def dest: in_set_dropD)
qed

lemma thread_kept:
  assumes inv: "sys_inv (c\<lparr>se_tid := tid\<rparr>) path tx (s\<lparr>sy_logged := drop p (sy_logged s), sy_printed := sy_printed s - p\<rparr>)"
    and old: "\<forall>e\<in>set (take p (sy_logged s)). stmt_ok (c\<lparr>se_tid := tid\<rparr>) e"
    and p: "p \<le> sy_printed s" "p \<le> length (sy_logged s)"
  shows "thread_ok c (thread_of tid s)"
    "\<exists>tx'. file_backend c path (tx @ tx') (sy_backend s) \<and>
       written (c\<lparr>se_tid := tid\<rparr>) (take (sy_printed s - p) (drop p (sy_logged s))) tx'"
proof -
  from inv obtain g where
    g: "sys_ring (c\<lparr>se_tid := tid\<rparr>) (s\<lparr>sy_logged := drop p (sy_logged s), sy_printed := sy_printed s - p\<rparr>) g"
    and le: "sy_printed s - p \<le> length (sy_logged s) - p"
    and ok: "\<forall>e\<in>set (drop p (sy_logged s)). stmt_ok (c\<lparr>se_tid := tid\<rparr>) e"
    by (auto simp: sys_inv_def)
  have "\<forall>e\<in>set (sy_logged s). stmt_ok (c\<lparr>se_tid := tid\<rparr>) e"
    using old ok append_take_drop_id [of p "sy_logged s"] by (metis Un_iff set_append)
  moreover have "sys_ring c (with_backend (thread_of tid s) (sy_backend s)) g"
    using g p(1) by (simp add: sys_ring_def with_backend_def thread_of_def)
  ultimately show "thread_ok c (thread_of tid s)"
    unfolding thread_ok_def using le p by (auto simp: thread_of_def)
  show "\<exists>tx'. file_backend c path (tx @ tx') (sy_backend s) \<and>
       written (c\<lparr>se_tid := tid\<rparr>) (take (sy_printed s - p) (drop p (sy_logged s))) tx'"
    using inv by (auto simp: sys_inv_def file_backend_def file_handlers_def)
qed


lemma threads_step_inv:
  assumes "threads_step c s s'" and inv: "threads_inv c path tx0 s" and cfg: "config_ok c"
  shows "threads_inv c path tx0 s'"
  using assms(1)
proof cases
  case (threads_step i ths bk u)
  let ?t = "ths ! i" and ?c = "c\<lparr>se_tid := tr_tid (ths ! i)\<rparr>" and ?p = "tr_printed (ths ! i)"
  let ?ths = "ths[i := thread_of (tr_tid ?t) u]"
  from inv threads_step obtain es tx where bk: "file_backend c path (tx0 @ tx) bk" and all: "\<forall>t\<in>set ths. thread_ok c t"
    and m: "merged c (\<lambda>i. tr_tid (ths ! i)) es tx" and idx: "\<forall>(i, e)\<in>set es. i < length ths"
    and parts: "\<forall>i<length ths. of_thread i es = take (tr_printed (ths ! i)) (tr_logged (ths ! i))"
    by (auto simp: threads_inv_def)
  have ok: "thread_ok c ?t" using all threads_step(3) by simp
  then have le: "?p \<le> length (tr_logged ?t)" by (simp add: thread_ok_def)
  note st = step_recent [OF threads_step(4), unfolded with_backend_def, simplified, OF le, folded with_backend_def]
  from st(2) obtain new where new: "sy_logged u = tr_logged ?t @ new" by auto
  have take: "take ?p (sy_logged u) = take ?p (tr_logged ?t)" using new le by simp
  have inv': "sys_inv ?c path (tx0 @ tx) (u\<lparr>sy_logged := drop ?p (sy_logged u), sy_printed := sy_printed u - ?p\<rparr>)"
    by (rule sys_step_inv [OF st(1) thread_alone [OF ok bk]]) (use cfg in \<open>simp add: config_ok_def\<close>)
  have old: "\<forall>e\<in>set (take ?p (sy_logged u)). stmt_ok ?c e"
    using ok unfolding take by (auto simp: thread_ok_def dest: in_set_takeD)
  have p: "?p \<le> sy_printed u" "?p \<le> length (sy_logged u)" using st(3) new le by simp_all
  let ?new = "take (sy_printed u - ?p) (drop ?p (sy_logged u))"
  from thread_kept [OF inv' old p] obtain tx' where kept: "thread_ok c (thread_of (tr_tid ?t) u)"
    "file_backend c path ((tx0 @ tx) @ tx') (sy_backend u)" "written ?c ?new tx'" by blast
  have tids: "(\<lambda>j. tr_tid (?ths ! j)) = (\<lambda>j. tr_tid (ths ! j))"
    using threads_step(3) by (auto simp: fun_eq_iff nth_list_update thread_of_def)
  have "merged c (\<lambda>j. tr_tid (ths ! j)) (es @ map (Pair i) ?new) (tx @ tx')"
    by (rule merged_append [OF m merged_written [where tid = "\<lambda>j. tr_tid (ths ! j)"]]) (rule kept(3))
  moreover have "of_thread j (es @ map (Pair i) ?new) = take (tr_printed (?ths ! j)) (tr_logged (?ths ! j))"
    if "j < length ths" for j
  proof (cases "j = i")
    case True
    have "take ?p (tr_logged ?t) @ ?new = take (sy_printed u) (sy_logged u)"
      using take_add [of ?p "sy_printed u - ?p" "sy_logged u"] p(1) take by simp
    with True threads_step(3) parts show ?thesis by (simp add: thread_of_def)
  qed (use parts that in simp)
  moreover have "\<forall>(j, e)\<in>set (es @ map (Pair i) ?new). j < length ths" using idx threads_step(3) by auto
  moreover have "\<forall>t\<in>set ?ths. thread_ok c t" using all kept(1) set_update_subset_insert [of ths i] by blast
  ultimately show ?thesis
    unfolding threads_inv_def threads_step(2) fst_conv snd_conv tids using kept(2)
    by (intro conjI exI [of _ "es @ map (Pair i) ?new"] exI [of _ "tx @ tx'"]) simp_all
qed

lemma threads_start_inv: "threads_start c path tx0 s \<Longrightarrow> threads_inv c path tx0 s"
proof -
  assume start: "threads_start c path tx0 s"
  have "thread_ok c t" if t: "t \<in> set (fst s)" for t
  proof -
    from start t have s: "sys_start c path tx0 (with_backend t (snd s))" by (simp add: threads_start_def)
    from sys_start_inv [OF this] obtain g where "sys_ring c (with_backend t (snd s)) g" by (auto simp: sys_inv_def)
    with s show ?thesis by (auto simp: thread_ok_def sys_start_def with_backend_def)
  qed
  moreover have "tr_printed (fst s ! i) = 0" if "i < length (fst s)" for i
    using start that nth_mem [OF that] by (auto simp: threads_start_def sys_start_def with_backend_def)
  ultimately show ?thesis
    using start unfolding threads_inv_def threads_start_def
    by (intro conjI exI [of _ "[]"]) (simp_all add: merged_def)
qed

interpretation threads: invariant_system "\<lambda>s. threads_start c path tx0 s \<and> config_ok c" "threads_step c"
  "\<lambda>s. threads_inv c path tx0 s \<and> config_ok c"
  by unfold_locales (blast intro: threads_start_inv threads_step_inv)+

section \<open>A pass over the contexts\<close>

fun pass_order :: "nat \<Rightarrow> thread list \<Rightarrow> (nat \<times> stmt) list" where
  "pass_order k [] = []"
| "pass_order k (t # ts) = map (Pair k) (drop (tr_printed t) (tr_logged t)) @ pass_order (Suc k) ts"

lemma pass_order_of_thread:
  "of_thread i (pass_order k ts) =
   (if k \<le> i \<and> i < k + length ts then drop (tr_printed (ts ! (i - k))) (tr_logged (ts ! (i - k))) else [])"
  by (induction ts arbitrary: k) (auto simp: nth_Cons' Suc_diff_Suc)

lemma pass_order_index: "\<forall>(i, e)\<in>set (pass_order k ts). i < k + length ts"
  by (induction ts arbitrary: k) fastforce+

definition pending_count :: "thread list \<Rightarrow> nat" where
  "pending_count ts = sum_list (map (\<lambda>t. length (tr_logged t) - tr_printed t) ts)"

lemma pending_count_simps [simp]:
  "pending_count [] = 0" "pending_count (t # ts) = length (tr_logged t) - tr_printed t + pending_count ts"
  by (simp_all add: pending_count_def)

text \<open>A context the backend has caught up with.\<close>

definition drained :: "thread \<Rightarrow> int \<times> bytes_buffer \<Rightarrow> bool" where
  "drained t ctx \<longleftrightarrow> fst ctx = tr_tid t \<and> bb_r (snd ctx) = bb_w (tr_bb t) \<and> bb_r (snd ctx) = bb_w (snd ctx)"

abbreviation contexts :: "thread list \<Rightarrow> (int \<times> bytes_buffer) list" where
  "contexts ts \<equiv> map (\<lambda>t. (tr_tid t, tr_bb t)) ts"

lemma consume_all_pass:
  assumes "\<forall>t\<in>set ts. thread_ok c t" "file_backend c path tx bk" "\<forall>i<length ts. tid (k + i) = tr_tid (ts ! i)"
    and "0 \<le> n" "n + int (pending_count ts) < 2147483648" and cfg: "config_ok c"
  shows "\<exists>ctxs bk' tx'. consume_all (se_expand c) (se_prims c) (se_bufsize c) n (contexts ts) bk =
      Some (n + int (pending_count ts), ctxs, bk') \<and> list_all2 drained ts ctxs \<and>
    file_backend c path (tx @ tx') bk' \<and> merged c tid (pass_order k ts) tx'"
  using assms(1-5)
proof (induction ts arbitrary: n bk tx k)
  case Nil
  then show ?case by (intro exI [of _ "[]"] exI [of _ bk]) (simp add: merged_def)
next
  case (Cons t ts)
  let ?c = "c\<lparr>se_tid := tr_tid t\<rparr>" and ?new = "drop (tr_printed t) (tr_logged t)"
  have inv: "sys_inv ?c path tx (recent (with_backend t bk))" by (rule thread_alone) (use Cons.prems in simp_all)
  have cfg': "config_ok ?c" using cfg by (simp add: config_ok_def)
  obtain b bk1 tx1 where call:
    "haclog_consume (se_expand c) (se_prims c) (se_bufsize c) (tr_tid t) (tr_bb t) bk = Some (int (length ?new), b, bk1)"
    "bb_r b = bb_w (tr_bb t)" "bb_r b = bb_w b" "file_backend c path (tx @ tx1) bk1" "written ?c ?new tx1"
    by (rule consume_call [OF inv cfg'])
      (auto simp: recent_def with_backend_def file_backend_def file_handlers_def)
  have tid: "tid k = tr_tid t" "\<forall>i<length ts. tid (Suc k + i) = tr_tid (ts ! i)" using Cons.prems(3) by force+
  have n: "c_int (n + int (length ?new)) = n + int (length ?new)" using Cons.prems(4,5) by (intro c_int_id) simp_all
  have "\<exists>ctxs bk' tx'. consume_all (se_expand c) (se_prims c) (se_bufsize c) (n + int (length ?new)) (contexts ts) bk1 =
      Some (n + int (length ?new) + int (pending_count ts), ctxs, bk') \<and> list_all2 drained ts ctxs \<and>
      file_backend c path ((tx @ tx1) @ tx') bk' \<and> merged c tid (pass_order (Suc k) ts) tx'"
    by (rule Cons.IH [OF _ call(4) tid(2)]) (use Cons.prems in simp_all)
  then obtain ctxs bk' tx' where rest:
    "consume_all (se_expand c) (se_prims c) (se_bufsize c) (n + int (length ?new)) (contexts ts) bk1 =
      Some (n + int (length ?new) + int (pending_count ts), ctxs, bk')" "list_all2 drained ts ctxs"
    "file_backend c path ((tx @ tx1) @ tx') bk'" "merged c tid (pass_order (Suc k) ts) tx'" by blast
  have "merged c tid (pass_order k (t # ts)) (tx1 @ tx')"
    using merged_append [OF merged_written [where tid = tid and i = k] rest(4)] call(5) tid(1) by simp
  moreover have "consume_all (se_expand c) (se_prims c) (se_bufsize c) n (contexts (t # ts)) bk =
      Some (n + int (pending_count (t # ts)), (tr_tid t, b) # ctxs, bk')"
    using call(1) rest(1) n by (simp add: add.assoc)
  moreover have "drained t (tr_tid t, b)" using call(2,3) by (simp add: drained_def)
  ultimately show ?case using rest(2,3)
    by (intro exI [of _ "(tr_tid t, b) # ctxs"] exI [of _ bk'] exI [of _ "tx1 @ tx'"]) simp
qed

section \<open>A sample run\<close>

definition demo_threads :: "file_handler sys \<Rightarrow> thread list" where
  "demo_threads s = [thread_of 10 demo_pipe, thread_of 9 s]"

abbreviation threads_reachable :: "config \<Rightarrow> string \<Rightarrow> string \<Rightarrow> thread list \<times> file_handler backend \<Rightarrow> bool" where
  "threads_reachable c path tx0 \<equiv> run_of (\<lambda>s. threads_start c path tx0 s \<and> config_ok c) (threads_step c)"

lemma with_backend_thread_of [simp]: "with_backend (thread_of tid s) (sy_backend s) = s"
  by (simp add: with_backend_def thread_of_def)

lemma demo_threads_reachable:
  assumes "(sys_step demo_config)\<^sup>*\<^sup>* demo_pipe s"
  shows "threads_reachable demo_config ''/log'' ''old;'' (demo_threads s, sy_backend s)"
  using assms
proof (induction rule: rtranclp_induct)
  case base
  have start: "sys_start demo_config ''/log'' ''old;'' demo_pipe" and cfg: "config_ok demo_config"
    using demo_start by simp_all
  then have "threads_start demo_config ''/log'' ''old;'' (demo_threads demo_pipe, sy_backend demo_pipe)"
    by (simp add: threads_start_def demo_threads_def sys_start_def)
  with cfg show ?case by (intro run_start) simp
next
  case (step s t)
  have c: "demo_config\<lparr>se_tid := 9\<rparr> = demo_config" by (simp add: demo_config_def)
  have "threads_step demo_config (demo_threads s, sy_backend s)
      ((demo_threads s)[1 := thread_of (tr_tid (demo_threads s ! 1)) t], sy_backend t)"
    by (rule threads_step) (use step.hyps(2) c in \<open>simp_all add: demo_threads_def thread_of_def [of 9 s, THEN arg_cong [where f = tr_tid]]\<close>)
  then have "threads_step demo_config (demo_threads s, sy_backend s) (demo_threads t, sy_backend t)"
    by (simp add: demo_threads_def thread_of_def [of 9 s])
  with step.IH show ?case by (rule run_step)
qed

lemma demo_merge:
  assumes "merged demo_config (\<lambda>i. tr_tid (demo_threads s ! i)) es tx" "\<forall>(i, e)\<in>set es. i < length (demo_threads s)"
    and "of_thread 0 es = []" "of_thread 1 es = [demo_stmt]"
  shows "tx = demo_text"
proof -
  have "i = 1" if "(i, e) \<in> set es" for i e
  proof -
    have "i \<noteq> 0" using assms(3) that by (auto simp: of_thread_def filter_empty_conv)
    moreover have "i < 2" using assms(2) that by (auto simp: demo_threads_def)
    ultimately show ?thesis by simp
  qed
  then have "filter (\<lambda>(j, e). j = 1) es = es" by (intro filter_True) auto
  with assms(4) have "es = [(1, demo_stmt)]" 
    using \<open>\<And>i e. (i, e) \<in> set es \<Longrightarrow> i = 1\<close> by (cases es) (auto simp: of_thread_def)
  with merged_one [of demo_config "\<lambda>i. tr_tid (demo_threads s ! i)" 1 demo_stmt tx] assms(1)
  have "written demo_config [demo_stmt] tx" by (simp add: demo_threads_def thread_of_def demo_config_def)
  then show ?thesis by (rule demo_written)
qed

section \<open>Properties\<close>



text \<open>
  C2: One pass of the backend over its contexts ends, whatever the threads have logged: it returns the
  number of statements that were pending in all rings together, every reader has caught up with its
  writer, and every statement logged so far is in the file, those of each thread in its order.
\<close>

theorem pass_delivers_all:
  assumes run: "threads_reachable c path tx0 (ths, bk)" and small: "int (pending_count ths) < 2147483648"
  shows "\<exists>ctxs bk' es tx. consume_all (se_expand c) (se_prims c) (se_bufsize c) 0 (contexts ths) bk =
      Some (int (pending_count ths), ctxs, bk') \<and> list_all2 drained ths ctxs \<and>
    file_text path (bk_world bk') = tx0 @ tx \<and> merged c (\<lambda>i. tr_tid (ths ! i)) es tx \<and>
    (\<forall>(i, e)\<in>set es. i < length ths) \<and> (\<forall>i<length ths. of_thread i es = tr_logged (ths ! i))"
proof -
  from threads.run_inv [OF run] obtain es tx where inv: "\<forall>t\<in>set ths. thread_ok c t" "config_ok c"
    "file_backend c path (tx0 @ tx) bk" "merged c (\<lambda>i. tr_tid (ths ! i)) es tx"
    "\<forall>i<length ths. of_thread i es = take (tr_printed (ths ! i)) (tr_logged (ths ! i))"
    "\<forall>(i, e)\<in>set es. i < length ths"
    by (auto simp: threads_inv_def)
  from consume_all_pass [OF inv(1,3) _ _ _ inv(2), of "\<lambda>i. tr_tid (ths ! i)" 0 0] small obtain ctxs bk' tx' where
    pass: "consume_all (se_expand c) (se_prims c) (se_bufsize c) 0 (contexts ths) bk = Some (int (pending_count ths), ctxs, bk')"
    "list_all2 drained ths ctxs" "file_backend c path ((tx0 @ tx) @ tx') bk'"
    "merged c (\<lambda>i. tr_tid (ths ! i)) (pass_order 0 ths) tx'" by auto
  have "\<forall>i<length ths. of_thread i (es @ pass_order 0 ths) = tr_logged (ths ! i)"
    using inv(5) by (simp add: pass_order_of_thread)
  moreover have "\<forall>(i, e)\<in>set (es @ pass_order 0 ths). i < length ths"
    using inv(6) pass_order_index [of 0 ths] by auto
  ultimately show ?thesis using merged_append [OF inv(4) pass(4)] pass(1-3)
    by (intro exI [of _ ctxs] exI [of _ bk'] exI [of _ "es @ pass_order 0 ths"] exI [of _ "tx @ tx'"])
      (auto simp: file_backend_def)
qed

theorem pass_delivers_all_witness:
  "\<exists>s ctxs bk. sy_logged s = [demo_stmt] \<and> sy_printed s = 0 \<and>
     consume_all demo_expand [7 \<mapsto> sm_prim demo_stmt] 16 0 (contexts (demo_threads s)) (sy_backend s) = Some (1, ctxs, bk) \<and>
     file_text ''/log'' (bk_world bk) = ''old;'' @ demo_text"
proof -
  obtain s where s: "sys_step demo_config demo_pipe s" "sy_logged s = [demo_stmt]" "sy_printed s = 0"
    by (rule demo_logged)
  have run: "threads_reachable demo_config ''/log'' ''old;'' (demo_threads s, sy_backend s)"
    by (rule demo_threads_reachable) (use s(1) in simp)
  have pend: "pending_count (demo_threads s) = 1" using s(2,3) by (simp add: demo_threads_def thread_of_def demo_pipe_def)
  from pass_delivers_all [OF run] pend obtain ctxs bk es tx where
    c: "consume_all (se_expand demo_config) (se_prims demo_config) (se_bufsize demo_config) 0
      (contexts (demo_threads s)) (sy_backend s) = Some (1, ctxs, bk)"
    "file_text ''/log'' (bk_world bk) = ''old;'' @ tx" "merged demo_config (\<lambda>i. tr_tid (demo_threads s ! i)) es tx"
    "\<forall>i<length (demo_threads s). of_thread i es = tr_logged (demo_threads s ! i)"
    "\<forall>(i, e)\<in>set es. i < length (demo_threads s)" by auto
  have "of_thread 0 es = []" "of_thread 1 es = [demo_stmt]"
    using c(4) s(2) by (auto simp: demo_threads_def thread_of_def demo_pipe_def)
  from demo_merge [OF c(3) _ this] c(1,2,5) s(2,3) show ?thesis
    by (intro exI [of _ s] exI [of _ ctxs] exI [of _ bk]) (simp add: demo_config_def)
qed

end
