(* ===== verification/Haclog_Thread.thy ===== *)
theory Haclog_Thread
  imports Haclog_Context Haclog_Sleep
begin

text \<open>
  The thread wrappers of \<open>haclog_thread.c\<close>, the backend's start, and what \<open>HACLOG_FATAL\<close> and the
  assertions do after logging: the stack trace and the abort of a debug build. What pthread and
  \<open>backtrace\<close> return is an argument; a handle that was never set is \<open>None\<close>, and using it is undefined.
\<close>

section \<open>Threads\<close>

definition haclog_thread_create :: "int + 'th \<Rightarrow> 'th option \<Rightarrow> haclog_error \<times> 'th option" where
  "haclog_thread_create created thread =
     (case created of
        Inl e \<Rightarrow> (HACLOG_ERR_SYS_CALL, thread)
      | Inr th \<Rightarrow> (HACLOG_ERR_OK, Some th))"

definition haclog_thread_join :: "('th \<Rightarrow> int) \<Rightarrow> 'th option \<Rightarrow> haclog_error option" where
  "haclog_thread_join join thread =
     map_option (\<lambda>th. if join th = 0 then HACLOG_ERR_OK else HACLOG_ERR_SYS_CALL) thread"

definition haclog_thread_detach :: "('th \<Rightarrow> int) \<Rightarrow> 'th option \<Rightarrow> haclog_error option" where
  "haclog_thread_detach detach thread =
     map_option (\<lambda>th. if detach th = 0 then HACLOG_ERR_OK else HACLOG_ERR_SYS_CALL) thread"

definition haclog_thread_readable_id :: "int \<Rightarrow> int" where
  "haclog_thread_readable_id gettid = c_u64 gettid"

definition haclog_thread_hardware_concurrency :: "int \<Rightarrow> int" where
  "haclog_thread_hardware_concurrency sysconf = c_int sysconf"

text \<open>\<open>haclog_backend_run\<close>: the thread that runs, or \<open>None\<close> when it detaches a handle that is not set.\<close>

definition haclog_backend_run :: "int + 'th \<Rightarrow> ('th \<Rightarrow> int) \<Rightarrow> 'th option" where
  "haclog_backend_run created detach =
     (case haclog_thread_create created None of
        (_, th_backend) \<Rightarrow>
          (case haclog_thread_detach detach th_backend of
             None \<Rightarrow> None
           | Some _ \<Rightarrow> th_backend))"

lemma backend_run_cases:
  "haclog_backend_run created detach = (case created of Inl e \<Rightarrow> None | Inr th \<Rightarrow> Some th)"
  by (simp add: haclog_backend_run_def haclog_thread_create_def haclog_thread_detach_def split: sum.splits)

section \<open>Stack trace and abort\<close>

definition HACLOG_MAX_STACKTRACE_FRAME_NUM :: nat where
  "HACLOG_MAX_STACKTRACE_FRAME_NUM = 256"

text \<open>The loop over the frames from the second on; the numbers count from 0.\<close>

fun print_frames :: "nat \<Rightarrow> string list \<Rightarrow> world \<Rightarrow> world" where
  "print_frames i [] w = w"
| "print_frames i (symbol # symbols) w =
     (case c_vfprintf (''#%u %s'' @ [CHR 0x0A]) [C_int (int i - 1), C_str symbol] F_stdout w of
        (_, _, w) \<Rightarrow> print_frames (i + 1) symbols w)"

text \<open>\<open>symbols\<close> is what \<open>backtrace_symbols\<close> makes of the frames: \<open>None\<close> without memory.\<close>

definition haclog_print_stacktrace :: "(string list \<Rightarrow> string list option) \<Rightarrow> string list \<Rightarrow> world \<Rightarrow> world" where
  "haclog_print_stacktrace symbols frames w =
     (let stacks = take HACLOG_MAX_STACKTRACE_FRAME_NUM frames
      in case symbols stacks of
           None \<Rightarrow> w
         | Some symbols \<Rightarrow> print_frames 1 (drop 1 symbols) w)"

text \<open>
  \<open>haclog_debug_break\<close>: \<open>Inl\<close> the world the process aborts in, \<open>Inr\<close> that in which it returns.
  A debug build sleeps 5 milliseconds, in the hope that the backend writes the message.
\<close>

definition haclog_debug_break ::
  "bool \<Rightarrow> nanosleep_result list \<Rightarrow> (string list \<Rightarrow> string list option) \<Rightarrow> string list \<Rightarrow> world \<Rightarrow> (world + world) option" where
  "haclog_debug_break ndebug sleeps symbols frames w =
     (if ndebug then Some (Inr w)
      else
        (case haclog_nsleep (5 * 1000 * 1000) sleeps of
           None \<Rightarrow> None
         | Some _ \<Rightarrow> Some (Inl (haclog_print_stacktrace symbols frames w))))"

definition frame_line :: "nat \<times> string \<Rightarrow> string" where
  "frame_line f = CHR ''#'' # dec (fst f) @ CHR '' '' # snd f @ [CHR 0x0A]"

lemma print_frames_text:
  assumes "no_faults w" "i + length symbols < 4294967296"
  shows "w_stdout (print_frames (Suc i) symbols w) = w_stdout w @ concat (map frame_line (enumerate i symbols))"
  using assms
proof (induction symbols arbitrary: i w)
  case (Cons s symbols)
  have "c_u32 (int i) = int i" using Cons.prems(2) by (intro c_u32_id) simp_all
  then have "\<exists>n fp. c_vfprintf (''#%u %s'' @ [CHR 0x0A]) [C_int (int i), C_str s] F_stdout w =
      (n, fp, w\<lparr>w_calls := Suc (w_calls w), w_stdout := w_stdout w @ frame_line (i, s)\<rparr>)"
    using Cons.prems(1)
    by (simp add: c_vfprintf_def c_fwrite_def next_call_def no_faults_def c_writable_def deliver_def frame_line_def)
  then obtain n fp where "c_vfprintf (''#%u %s'' @ [CHR 0x0A]) [C_int (int i), C_str s] F_stdout w =
      (n, fp, w\<lparr>w_calls := Suc (w_calls w), w_stdout := w_stdout w @ frame_line (i, s)\<rparr>)" by blast
  with Cons.IH [of _ "Suc i"] Cons.prems show ?case by (simp add: no_faults_def)
qed simp

text \<open>A trace that is printed skips the frame of the function itself and numbers the others from 0.\<close>

lemma stacktrace_text:
  assumes "no_faults w" "symbols (take HACLOG_MAX_STACKTRACE_FRAME_NUM frames) = Some (f # fs)"
    and "length fs < HACLOG_MAX_STACKTRACE_FRAME_NUM"
  shows "w_stdout (haclog_print_stacktrace symbols frames w) = w_stdout w @ concat (map frame_line (enumerate 0 fs))"
  using print_frames_text [of w 0 fs] assms
  by (simp add: haclog_print_stacktrace_def HACLOG_MAX_STACKTRACE_FRAME_NUM_def)

section \<open>The macros\<close>

text \<open>\<open>HACLOG_FATAL\<close> is two statements, the log and the break; \<open>HACLOG_ASSERT\<close> guards them.\<close>

definition HACLOG_FATAL :: "('s \<Rightarrow> 's) \<Rightarrow> ('s \<Rightarrow> ('s + 's) option) \<Rightarrow> 's \<Rightarrow> ('s + 's) option" where
  "HACLOG_FATAL log_default debug_break s = debug_break (log_default s)"

definition HACLOG_ASSERT :: "('s \<Rightarrow> 's) \<Rightarrow> ('s \<Rightarrow> ('s + 's) option) \<Rightarrow> bool \<Rightarrow> 's \<Rightarrow> ('s + 's) option" where
  "HACLOG_ASSERT log_default debug_break x s =
     (if \<not> x then HACLOG_FATAL log_default debug_break s else Some (Inr s))"

text \<open>With \<open>NDEBUG\<close> a failed assertion is logged and the program goes on.\<close>

lemma assert_ndebug:
  "HACLOG_ASSERT log (haclog_debug_break True sleeps symbols frames) x w = Some (Inr (if x then w else log w))"
  by (simp add: HACLOG_ASSERT_def HACLOG_FATAL_def haclog_debug_break_def)

end
