(* ===== verification/Haclog_Rotate_History.thy ===== *)
theory Haclog_Rotate_History
  imports Haclog_Rotate
begin

text \<open>
  What a size-rotating handler keeps of all the lines written through it: the log and its backups,
  read from the oldest to the newest, are the newest part of everything that was written, and what is
  lost is older than as many full logs as there are backups.
\<close>

section \<open>One line and the files\<close>

definition others :: "(string \<Rightarrow> string option) \<Rightarrow> string \<Rightarrow> world \<Rightarrow> bool" where
  "others F f w \<longleftrightarrow> (\<forall>p. p \<noteq> f \<longrightarrow> w_files w p = F p)"

text \<open>Up to \<open>after_write\<close> only the log is written.\<close>

interpretation rotate_body: line_writer "rotate_ops gm junk"
  "\<lambda>st w. rotate_idle st w \<and> others F (rh_filepath st) w" "\<lambda>m st w. rotate_ready st w \<and> others F (rh_filepath st) w"
  rotate_dest rotate_dest rotate_out "\<lambda>h m. []" "\<lambda>h m. [CHR 0x0A]"
proof unfold_locales
  fix st :: rotate_handler and w m n msg bs fmt as
  show "rotate_idle st w \<and> others F (rh_filepath st) w \<Longrightarrow>
      \<exists>n st' w'. hd_before_write (rotate_ops gm junk) m st w = Some (n, st', w') \<and>
      (rotate_ready st' w' \<and> others F (rh_filepath st') w') \<and> rotate_out m st' w' = rotate_out m st w @ [] \<and>
      rotate_dest st' = rotate_dest st \<and> rotate_dest st' = rotate_dest st \<and> [CHR 0x0A] = [CHR 0x0A]"
    by (simp add: rotate_ops_def haclog_file_rotate_handler_before_write_def rotate_idle_def)
  show "rotate_ready st w \<and> others F (rh_filepath st) w \<Longrightarrow> 0 < n \<Longrightarrow> n \<le> int (length msg) \<Longrightarrow> n < 2147483648 \<Longrightarrow>
      \<exists>st' w'. hd_write (rotate_ops gm junk) msg n st w = Some (n, st', w') \<and>
      (rotate_ready st' w' \<and> others F (rh_filepath st') w') \<and> rotate_out m st' w' = rotate_out m st w @ take (nat n) msg \<and>
      rotate_dest st' = rotate_dest st \<and> rotate_dest st' = rotate_dest st \<and> [CHR 0x0A] = [CHR 0x0A]"
    by (elim conjE, erule rotate_fwrite [where bs = "take (nat n) msg"])
      (auto simp: rotate_ops_def haclog_file_rotate_handler_write_def rotate_out_def rotate_dest_def others_def c_int_id)
  show "rotate_ready st w \<and> others F (rh_filepath st) w \<Longrightarrow> bs = c_format None fmt as \<Longrightarrow> length bs < 2147483648 \<Longrightarrow>
      \<exists>st' w'. hd_writev (rotate_ops gm junk) fmt as st w = Some (int (length bs), st', w') \<and>
      (rotate_ready st' w' \<and> others F (rh_filepath st') w') \<and> rotate_out m st' w' = rotate_out m st w @ bs \<and>
      rotate_dest st' = rotate_dest st \<and> rotate_dest st' = rotate_dest st \<and> [CHR 0x0A] = [CHR 0x0A]"
    by (elim conjE, erule rotate_fwrite [where bs = bs])
      (auto simp: rotate_ops_def haclog_file_rotate_handler_writev_def c_vfprintf_def Let_def rotate_out_def
        rotate_dest_def others_def)
qed

text \<open>A message with its place in the sources, and the line made of it.\<close>

definition line_text :: "(int \<Rightarrow> tm) \<Rightarrow> block \<Rightarrow> meta_info \<times> string \<Rightarrow> string" where
  "line_text gm junk l =
     (case haclog_path_basename (loc_file (mi_loc (fst l))) junk 256 of
        None \<Rightarrow> []
      | Some (_, buf) \<Rightarrow>
          c_format None meta_format (meta_args gm (the (cstr_at buf 0)) (fst l)) @ snd l @ [CHR 0x0A])"

definition line_ok :: "(int \<Rightarrow> tm) \<Rightarrow> block \<Rightarrow> meta_info \<times> string \<Rightarrow> bool" where
  "line_ok gm junk l \<longleftrightarrow>
     (\<exists>e buf. haclog_path_basename (loc_file (mi_loc (fst l))) junk 256 = Some (e, buf) \<and> cstr_at buf 0 \<noteq> None) \<and>
     length (line_text gm junk l) \<le> 2147483648"

lemma rotate_line_files:
  assumes idle: "rotate_idle st w" and ok: "line_ok gm junk l"
    and size: "length (file_text (rh_filepath st) w) + length (line_text gm junk l) < 4611686018427387904"
  shows "\<exists>n st' w'. haclog_handler_write (rotate_ops gm junk) (fst l) (snd l) (int (length (snd l))) st w = Some (n, st', w') \<and>
    rotate_idle st' w' \<and> rotate_dest st' = rotate_dest st \<and>
    (let f = rh_filepath st; txt = file_text f w @ line_text gm junk l in
     if rh_max_bytes st \<le> int (length txt)
     then file_text f w' = [] \<and> file_text (backup f 1) w' = txt \<and>
       (\<forall>i. 1 \<le> i \<and> i < nat (rh_backup_count st) \<longrightarrow> file_text (backup f (Suc i)) w' = file_text (backup f i) w)
     else file_text f w' = txt \<and> (\<forall>i. file_text (backup f i) w' = file_text (backup f i) w))"
proof -
  let ?f = "rh_filepath st"
  obtain e buf name where name: "haclog_path_basename (loc_file (mi_loc (fst l))) junk 256 = Some (e, buf)"
    "cstr_at buf 0 = Some name" using ok by (auto simp: line_ok_def)
  let ?line = "c_format None meta_format (meta_args gm name (fst l))"
  have lt: "line_text gm junk l = ?line @ snd l @ [CHR 0x0A]" using name by (simp add: line_text_def)
  have fits: "int (length ?line) + int (length (snd l)) < 2147483648" using ok lt by (simp add: line_ok_def)
  have meta: "hd_write_meta (rotate_ops gm junk) = haclog_handler_default_write_meta gm junk" by (simp add: rotate_ops_def)
  have start: "rotate_idle st w \<and> others (w_files w) ?f w" using idle by (simp add: others_def)
  obtain st1 w1 where b: "haclog_handler_write (rotate_ops gm junk) (fst l) (snd l) (int (length (snd l))) st w =
      map_option (\<lambda>(k, st', w'). (int (length ?line) + int (length (snd l)), st', w'))
        (hd_after_write (rotate_ops gm junk) (fst l) st1 w1)"
    "rotate_ready st1 w1 \<and> others (w_files w) (rh_filepath st1) w1"
    "rotate_out (fst l) st1 w1 = rotate_out (fst l) st w @ [] @ ?line @ take (nat (int (length (snd l)))) (snd l)"
    "rotate_dest st1 = rotate_dest st"
    by (rule rotate_body.write_body [OF start meta name _ _ refl fits, of "snd l"]) simp_all
  have dest: "rh_filepath st1 = ?f" "rh_backup_count st1 = rh_backup_count st" "rh_max_bytes st1 = rh_max_bytes st"
    using b(4) by (simp_all add: rotate_dest_def)
  have txt1: "file_text ?f w1 = file_text ?f w @ ?line @ snd l" using b(3) by (simp add: rotate_out_def dest)
  have old: "file_text (backup ?f i) w1 = file_text (backup ?f i) w" for i
    using b(2) by (simp add: others_def dest file_text_def)
  have "rh_offset st1 = int (length (file_text ?f w1))"
    using b(2) size txt1 lt by (simp add: rotate_ready_def dest c_s64_def signed_take_bit_int_eq_self)
  then have due: "rotate_due st1 \<longleftrightarrow> rh_max_bytes st \<le> int (length (file_text ?f w @ line_text gm junk l))"
    using size txt1 lt by (simp add: rotate_due_def dest c_s64_def signed_take_bit_int_eq_self algebra_simps)
  obtain st' w' where a: "haclog_file_rotate_handler_after_write (fst l) st1 w1 = Some (0, st', w')" "rotate_ready st' w'"
    "rotate_dest st' = rotate_dest st1" "rotate_fin (fst l) st1 w' = rotate_out (fst l) st1 w1 @ [CHR 0x0A]"
    "rotate_due st1 \<longrightarrow> rh_offset st' = 0 \<and> file_text (rh_filepath st1) w' = [] \<and>
       (\<forall>i. 1 \<le> i \<and> i < nat (rh_backup_count st1) \<longrightarrow>
          w_files w' (backup (rh_filepath st1) (Suc i)) = w_files w1 (backup (rh_filepath st1) i))"
    "\<not> rotate_due st1 \<longrightarrow> rh_offset st' = c_s64 (rh_offset st1 + 1) \<and>
       (\<forall>p. p \<noteq> rh_filepath st1 \<longrightarrow> w_files w' p = w_files w1 p)"
    using rotate_after [OF conjunct1 [OF b(2)], of "fst l"] by blast
  have "rotate_idle st' w'" using a(2,3,5,6) by (auto simp: rotate_idle_def rotate_due_def rotate_dest_def)
  moreover have "file_text (backup ?f (Suc i)) w' = file_text (backup ?f i) w" if "rotate_due st1" "1 \<le> i" "i < nat (rh_backup_count st)" for i
    using a(5) that old [of i] by (simp add: dest file_text_def)
  moreover have "file_text (backup ?f i) w' = file_text (backup ?f i) w" if "\<not> rotate_due st1" for i
    using a(6) that old [of i] by (simp add: dest file_text_def)
  ultimately show ?thesis
    using b(1,4) a(1,3,4,5) txt1 lt unfolding due [symmetric] Let_def
    by (intro exI [of _ "int (length ?line) + int (length (snd l))"] exI [of _ st'] exI [of _ w'])
      (auto simp: rotate_ops_def rotate_fin_def rotate_out_def dest)
qed

section \<open>Any number of lines\<close>

primrec write_lines ::
  "'h haclog_handler \<Rightarrow> (meta_info \<times> string) list \<Rightarrow> 'h \<Rightarrow> world \<Rightarrow> ('h \<times> world) option" where
  "write_lines h [] st w = Some (st, w)"
| "write_lines h (l # ls) st w =
     (case haclog_handler_write h (fst l) (snd l) (int (length (snd l))) st w of
        None \<Rightarrow> None
      | Some (_, st, w) \<Rightarrow> write_lines h ls st w)"

text \<open>The backups from the oldest on, and then the log.\<close>

primrec backups_text :: "string \<Rightarrow> nat \<Rightarrow> world \<Rightarrow> string" where
  "backups_text f 0 w = []"
| "backups_text f (Suc k) w = file_text (backup f (Suc k)) w @ backups_text f k w"

definition history :: "string \<Rightarrow> nat \<Rightarrow> world \<Rightarrow> string" where
  "history f k w = backups_text f k w @ file_text f w"

lemma backups_text_cong:
  "(\<And>i. file_text (backup f i) w' = file_text (backup f i) w) \<Longrightarrow> backups_text f k w' = backups_text f k w"
  by (induction k) simp_all

lemma backups_text_shift:
  "(\<And>i. 1 \<le> i \<Longrightarrow> i \<le> k \<Longrightarrow> file_text (backup f (Suc i)) w' = file_text (backup f i) w) \<Longrightarrow>
   backups_text f (Suc k) w' = backups_text f k w @ file_text (backup f 1) w'"
  by (induction k) simp_all

lemma backups_text_large:
  "(\<And>i. 1 \<le> i \<Longrightarrow> i \<le> k \<Longrightarrow> m \<le> int (length (file_text (backup f i) w))) \<Longrightarrow>
   int k * m \<le> int (length (backups_text f k w))"
proof (induction k)
  case (Suc k)
  then have "int k * m \<le> int (length (backups_text f k w))" "m \<le> int (length (file_text (backup f (Suc k)) w))" by simp_all
  then show ?case by (simp add: algebra_simps)
qed simp

lemma backups_text_none:
  "\<forall>i. 1 \<le> i \<and> i \<le> k \<longrightarrow> file_text (backup f i) w = [] \<Longrightarrow> backups_text f k w = []"
  by (induction k) simp_all

text \<open>After r rotations the newest r backups, as far as there are that many, are full, and no others exist.\<close>

definition rotated :: "string \<Rightarrow> nat \<Rightarrow> int \<Rightarrow> nat \<Rightarrow> world \<Rightarrow> bool" where
  "rotated f k m r w \<longleftrightarrow>
     (\<forall>i. 1 \<le> i \<and> i \<le> k \<and> i \<le> r \<longrightarrow> m \<le> int (length (file_text (backup f i) w))) \<and>
     (\<forall>i. 1 \<le> i \<and> i \<le> k \<and> r < i \<longrightarrow> file_text (backup f i) w = [])"

lemma line_history:
  assumes idle: "rotate_idle st w" and ok: "line_ok gm junk l"
    and size: "length (file_text (rh_filepath st) w) + length (line_text gm junk l) < 4611686018427387904"
    and rot: "rotated (rh_filepath st) (nat (rh_backup_count st)) (rh_max_bytes st) r w"
  obtains n st' w' r' lost where
    "haclog_handler_write (rotate_ops gm junk) (fst l) (snd l) (int (length (snd l))) st w = Some (n, st', w')"
    "rotate_idle st' w'" "rotate_dest st' = rotate_dest st"
    "rotated (rh_filepath st) (nat (rh_backup_count st)) (rh_max_bytes st) r' w'"
    "history (rh_filepath st) (nat (rh_backup_count st)) w @ line_text gm junk l =
       lost @ history (rh_filepath st) (nat (rh_backup_count st)) w'"
    "lost \<noteq> [] \<longrightarrow> rh_backup_count st * rh_max_bytes st \<le>
       int (length (history (rh_filepath st) (nat (rh_backup_count st)) w'))"
    "length (file_text (rh_filepath st) w') \<le> length (file_text (rh_filepath st) w) + length (line_text gm junk l)"
proof -
  let ?f = "rh_filepath st" and ?k = "nat (rh_backup_count st)" and ?m = "rh_max_bytes st"
  let ?new = "file_text ?f w @ line_text gm junk l"
  have k: "1 \<le> ?k" "int ?k = rh_backup_count st" using idle by (auto simp: rotate_idle_def rotate_ready_def)
  then obtain k' where k': "?k = Suc k'" by (cases ?k) auto
  obtain n st' w' where w': "haclog_handler_write (rotate_ops gm junk) (fst l) (snd l) (int (length (snd l))) st w = Some (n, st', w')"
    "rotate_idle st' w'" "rotate_dest st' = rotate_dest st"
    and files: "if ?m \<le> int (length ?new)
     then file_text ?f w' = [] \<and> file_text (backup ?f 1) w' = ?new \<and>
       (\<forall>i. 1 \<le> i \<and> i < ?k \<longrightarrow> file_text (backup ?f (Suc i)) w' = file_text (backup ?f i) w)
     else file_text ?f w' = ?new \<and> (\<forall>i. file_text (backup ?f i) w' = file_text (backup ?f i) w)"
    using rotate_line_files [OF idle ok size] by (auto simp: Let_def)
  show ?thesis
  proof (cases "?m \<le> int (length ?new)")
    case False
    with files have same: "file_text ?f w' = ?new" "\<And>i. file_text (backup ?f i) w' = file_text (backup ?f i) w" by simp_all
    show ?thesis
      by (rule that [OF w', of r "[]"])
        (use rot same backups_text_cong [of ?f w' w ?k] in \<open>simp_all add: rotated_def history_def\<close>)
  next
    case True
    with files have shift: "file_text ?f w' = []" "file_text (backup ?f 1) w' = ?new"
      "\<And>i. 1 \<le> i \<Longrightarrow> i < ?k \<Longrightarrow> file_text (backup ?f (Suc i)) w' = file_text (backup ?f i) w" by simp_all
    let ?lost = "file_text (backup ?f ?k) w"
    have hist: "history ?f ?k w' = backups_text ?f k' w @ ?new"
      using backups_text_shift [of k' ?f w' w] shift k' by (simp add: history_def)
    have rot': "rotated ?f ?k ?m (Suc r) w'"
      unfolding rotated_def
    proof (intro conjI allI impI)
      fix i assume i: "1 \<le> i \<and> i \<le> ?k \<and> i \<le> Suc r"
      show "?m \<le> int (length (file_text (backup ?f i) w'))"
      proof (cases "i = 1")
        case False
        with i obtain j where "i = Suc j" "1 \<le> j" "j < ?k" "j \<le> r" by (cases i) auto
        with shift(3) [of j] rot show ?thesis by (auto simp: rotated_def)
      qed (use shift(2) True in simp)
    next
      fix i assume i: "1 \<le> i \<and> i \<le> ?k \<and> Suc r < i"
      then obtain j where "i = Suc j" "1 \<le> j" "j < ?k" "r < j" by (cases i) auto
      with shift(3) [of j] rot show "file_text (backup ?f i) w' = []" by (auto simp: rotated_def)
    qed
    have large: "rh_backup_count st * ?m \<le> int (length (history ?f ?k w'))" if "?lost \<noteq> []"
    proof -
      have "\<not> r < ?k" using rot that k(1) by (auto simp: rotated_def)
      then have "int ?k * ?m \<le> int (length (backups_text ?f ?k w'))"
        using rot' by (intro backups_text_large) (auto simp: rotated_def)
      with k(2) show ?thesis by (simp add: history_def)
    qed
    have cut: "history ?f ?k w @ line_text gm junk l = ?lost @ history ?f ?k w'"
      unfolding hist by (simp add: k' history_def)
    show ?thesis by (rule that [OF w' rot' cut]) (use large shift(1) in simp_all)
  qed
qed

lemma lines_history:
  assumes "rotate_idle st w" "\<forall>l\<in>set ls. line_ok gm junk l" "rotate_dest st = (f, k, m)"
    and "length (file_text f w) + length (concat (map (line_text gm junk) ls)) < 4611686018427387904"
    and "rotated f (nat k) m r w"
  shows "\<exists>st' w' lost. write_lines (rotate_ops gm junk) ls st w = Some (st', w') \<and> rotate_idle st' w' \<and>
    history f (nat k) w @ concat (map (line_text gm junk) ls) = lost @ history f (nat k) w' \<and>
    (lost \<noteq> [] \<longrightarrow> k * m \<le> int (length (history f (nat k) w')))"
  using assms
proof (induction ls arbitrary: st w r)
  case (Cons l ls)
  have dest: "rh_filepath st = f" "rh_backup_count st = k" "rh_max_bytes st = m"
    using Cons.prems(3) by (simp_all add: rotate_dest_def)
  have ok: "line_ok gm junk l" and size: "length (file_text (rh_filepath st) w) + length (line_text gm junk l) < 4611686018427387904"
    and rot: "rotated (rh_filepath st) (nat (rh_backup_count st)) (rh_max_bytes st) r w"
    using Cons.prems dest by simp_all
  obtain n st1 w1 r1 lost1 where one:
    "haclog_handler_write (rotate_ops gm junk) (fst l) (snd l) (int (length (snd l))) st w = Some (n, st1, w1)"
    "rotate_idle st1 w1" "rotate_dest st1 = (f, k, m)" "rotated f (nat k) m r1 w1"
    "history f (nat k) w @ line_text gm junk l = lost1 @ history f (nat k) w1"
    "lost1 \<noteq> [] \<longrightarrow> k * m \<le> int (length (history f (nat k) w1))"
    "length (file_text f w1) \<le> length (file_text f w) + length (line_text gm junk l)"
    by (rule line_history [OF Cons.prems(1) ok size rot, unfolded dest Cons.prems(3)])
  have "\<exists>st' w' lost. write_lines (rotate_ops gm junk) ls st1 w1 = Some (st', w') \<and> rotate_idle st' w' \<and>
    history f (nat k) w1 @ concat (map (line_text gm junk) ls) = lost @ history f (nat k) w' \<and>
    (lost \<noteq> [] \<longrightarrow> k * m \<le> int (length (history f (nat k) w')))"
    by (rule Cons.IH [OF one(2) _ one(3) _ one(4)]) (use Cons.prems(2,4) one(7) in simp_all)
  then obtain st' w' lost where rest: "write_lines (rotate_ops gm junk) ls st1 w1 = Some (st', w')" "rotate_idle st' w'"
    "history f (nat k) w1 @ concat (map (line_text gm junk) ls) = lost @ history f (nat k) w'"
    "lost \<noteq> [] \<longrightarrow> k * m \<le> int (length (history f (nat k) w'))" by blast
  have "history f (nat k) w @ concat (map (line_text gm junk) (l # ls)) = (lost1 @ lost) @ history f (nat k) w'"
    using one(5) rest(3) by (metis append.assoc concat.simps(2) list.simps(9))
  moreover have "k * m \<le> int (length (history f (nat k) w'))" if "lost1 @ lost \<noteq> []"
  proof (cases "lost = []")
    case True
    with rest(3) have "history f (nat k) w' = history f (nat k) w1 @ concat (map (line_text gm junk) ls)" by simp
    with True that one(6) show ?thesis by simp
  qed (use rest(4) in simp)
  ultimately show ?case using one(1) rest(1,2)
    by (intro exI [of _ st'] exI [of _ w'] exI [of _ "lost1 @ lost"]) simp
qed (auto intro: exI [of _ "[]"])

text \<open>
  C10: rotation keeps the newest lines. Whatever lines are written one after the other through a
  size-rotating handler that starts between lines with no backups, every write returns, and the files
  together (the oldest backup first, the log last) hold the newest part of the old log followed by all
  the lines, in order: only an oldest part is lost, and only when what is kept is at least
  \<open>backup_count\<close> times \<open>max_bytes\<close>.
\<close>

theorem rotation_keeps_newest:
  assumes "rotate_idle st w" and "\<forall>l\<in>set ls. line_ok gm junk l" and "rotate_dest st = (f, k, m)"
    and "length (file_text f w) + length (concat (map (line_text gm junk) ls)) < 4611686018427387904"
    and "\<forall>i. 1 \<le> i \<and> i \<le> nat k \<longrightarrow> file_text (backup f i) w = []"
  shows "\<exists>st' w' lost. write_lines (rotate_ops gm junk) ls st w = Some (st', w') \<and> rotate_idle st' w' \<and>
    file_text f w @ concat (map (line_text gm junk) ls) = lost @ history f (nat k) w' \<and>
    (lost \<noteq> [] \<longrightarrow> k * m \<le> int (length (history f (nat k) w')))"
proof -
  have "rotated f (nat k) m 0 w" using assms(5) by (simp add: rotated_def)
  from lines_history [OF assms(1-4) this] backups_text_none [OF assms(5)] show ?thesis
    by (simp add: history_def)
qed

lemma demo_line_text: "line_text demo_gmtime (replicate 256 NUL) (demo_meta 768, ''hi'') =
  ''WARNING|1970-01-01T00:00:00.000000005|a.c:7|f|9 - hi'' @ [CHR 0x0A]"
  using demo_name [of 768] demo_line by (auto simp: line_text_def)

lemma demo_line_ok: "line_ok demo_gmtime (replicate 256 NUL) (demo_meta 768, ''hi'')"
  unfolding line_ok_def demo_line_text using demo_name [of 768] by auto

definition demo_log :: world where
  "demo_log = demo_logs\<lparr>w_files := [''/x'' \<mapsto> ''new'']\<rparr>"

lemma demo_log_idle: "rotate_idle (demo_rotate\<lparr>rh_max_bytes := 4\<rparr>) demo_log"
proof -
  have "rotatable ''/x'' demo_log" using demo_rotatable
    by (simp add: rotatable_def demo_log_def no_faults_def dir_there_def)
  moreover have "appends (rh_fp (demo_rotate\<lparr>rh_max_bytes := 4\<rparr>)) ''/x'' demo_log"
    using demo_log_name(4) by (auto simp: appends_def demo_rotate_def demo_log_def no_faults_def)
  ultimately show ?thesis
    by (simp add: rotate_idle_def rotate_ready_def demo_rotate_def file_text_def demo_log_def c_s64_def)
qed

lemma rotation_keeps_newest_witness:
  "\<exists>st' w' lost. write_lines (rotate_ops demo_gmtime (replicate 256 NUL)) (replicate 3 (demo_meta 768, ''hi''))
      (demo_rotate\<lparr>rh_max_bytes := 4\<rparr>) demo_log = Some (st', w') \<and> rotate_idle st' w' \<and>
    ''new'' @ concat (replicate 3 (''WARNING|1970-01-01T00:00:00.000000005|a.c:7|f|9 - hi'' @ [CHR 0x0A])) =
      lost @ history ''/x'' 2 w' \<and>
    (lost \<noteq> [] \<longrightarrow> 2 * 4 \<le> int (length (history ''/x'' 2 w')))"
proof -
  let ?ls = "replicate 3 (demo_meta 768, ''hi'')"
  have ok: "\<forall>l\<in>set ?ls. line_ok demo_gmtime (replicate 256 NUL) l" using demo_line_ok by simp
  have dest: "rotate_dest (demo_rotate\<lparr>rh_max_bytes := 4\<rparr>) = (''/x'', 2, 4)"
    by (simp add: rotate_dest_def demo_rotate_def)
  have old: "file_text ''/x'' demo_log = ''new''" by (simp add: file_text_def demo_log_def)
  have lines: "map (line_text demo_gmtime (replicate 256 NUL)) ?ls =
      replicate 3 (''WARNING|1970-01-01T00:00:00.000000005|a.c:7|f|9 - hi'' @ [CHR 0x0A])"
    by (simp only: map_replicate demo_line_text)
  have size: "length (file_text ''/x'' demo_log) +
      length (concat (map (line_text demo_gmtime (replicate 256 NUL)) ?ls)) < 4611686018427387904"
    unfolding old lines by (simp add: length_concat sum_list_replicate)
  have none: "\<forall>i. 1 \<le> i \<and> i \<le> nat 2 \<longrightarrow> file_text (backup ''/x'' i) demo_log = []"
    by (simp add: file_text_def demo_log_def backup_def)
  from rotation_keeps_newest [OF demo_log_idle ok dest size none] show ?thesis
    unfolding old lines by simp
qed

end
